(* ===== verification/Nexum_Prelude.thy ===== *)
theory Nexum_Prelude
  imports Main "HOL-Library.Word"
begin

text \<open>
  Shared vocabulary of the development: the error values of the Go packages, the outcome
  of a method that mutates its receiver and returns an \<open>error\<close>, and the generic facts on
  lists that the components use.

  A Go method \<open>func (a *T) M(...) error\<close> becomes a function that returns the receiver as
  the call leaves it, together with the error (\<open>None\<close> is \<open>nil\<close>). The receiver is returned on
  the error branches as well, so that "a failed call changes nothing" is a statement to be
  proved and not a consequence of the types. A Go function \<open>func F(...) (T, error)\<close> becomes
  a value of \<open>go_error + T\<close>.
\<close>

subsection \<open>Errors\<close>

text \<open>
  The sentinel errors of the packages \<open>nexum\<close>, \<open>settle\<close>, \<open>he\<close>, \<open>message\<close> and \<open>nex\<close>, by the name they
  are declared with. \<open>Errorf fmt args\<close> is an anonymous \<open>errors.New\<close> or \<open>fmt.Errorf\<close> value, kept as its
  format string and its arguments; \<open>Wrapf fmt args e\<close> is \<open>fmt.Errorf\<close> with \<open>%w\<close> applied to \<open>e\<close>.
\<close>

datatype go_error =
    ErrWrongParty | ErrBadState | ErrTakeback | ErrBudget | ErrDoS | ErrZeroAmount
  | ErrSameParty | ErrMissingParty | ErrNotYet | ErrNoDeadline | ErrEmptyCitation | ErrNoSeal
  | ErrPartyCount | ErrDupParty | ErrUnknownParty | ErrReqHolder | ErrDupReq
  | ErrNotSatisfied | ErrNotUnanimous | ErrEmptyDecision
  | ErrEmptyOffer | ErrNoProof | ErrNotClaimed
  | ErrBadTree | ErrNoPath | ErrWalkLoop | ErrEmptyFact
  | ErrSumMismatch | ErrNoLocks | ErrBadSum | ErrBadLock
  | ErrKeyGen | ErrEnc | ErrDec | ErrAdd | ErrNoScheme | ErrNoise
  | ErrInvalid | ErrParty | ErrState | ErrExpired | ErrNotReady
  | ErrNotFound | ErrExists | ErrOperationConflict | ErrCorruptStore | ErrStoreVersion | ErrCommitUncertain
  | Errorf string "string list"
  | Wrapf string "string list" go_error

text \<open>\<open>errors.Is\<close>: the error itself or one it wraps.\<close>

fun errors_is :: "go_error \<Rightarrow> go_error \<Rightarrow> bool" where
  "errors_is (Wrapf f as e) t = (Wrapf f as e = t \<or> errors_is e t)"
| "errors_is e t = (e = t)"

text \<open>The receiver as a method leaves it, and the error it returns.\<close>

type_synonym 's outcome = "'s \<times> go_error option"

abbreviation ok :: "'s \<Rightarrow> 's outcome" where
  "ok s \<equiv> (s, None)"

abbreviation fail :: "'s \<Rightarrow> go_error \<Rightarrow> 's outcome" where
  "fail s e \<equiv> (s, Some e)"

text \<open>
  \<open>if err := m; err != nil { return err }; k\<close>: the state the failed call left is the state
  that is returned with its error.
\<close>

definition and_then :: "'s outcome \<Rightarrow> ('s \<Rightarrow> 's outcome) \<Rightarrow> 's outcome" where
  "and_then m k = (case m of (s, None) \<Rightarrow> k s | (s, Some e) \<Rightarrow> fail s e)"

lemma and_then_simps [simp]:
  "and_then (ok s) k = k s"
  "and_then (fail s e) k = fail s e"
  by (simp_all add: and_then_def)

lemma and_then_ok_iff: "and_then m k = (s', None) \<longleftrightarrow> (\<exists>s. m = ok s \<and> k s = (s', None))"
  by (auto simp: and_then_def split: prod.splits option.splits)

lemma and_then_cases:
  assumes "and_then m k = (s', r)"
  obtains (err) e where "m = (s', Some e)" "r = Some e" | (cont) s where "m = ok s" "k s = (s', r)"
  using assms by (auto simp: and_then_def split: prod.splits option.splits)

text \<open>
  The same for a function without a receiver: \<open>v, err := m; if err != nil { return nil, err }; k v\<close>. A
  value that Go returns beside an error is not part of the result.
\<close>

definition try_bind :: "go_error + 'a \<Rightarrow> ('a \<Rightarrow> go_error + 'b) \<Rightarrow> go_error + 'b" where
  "try_bind m k = (case m of Inl e \<Rightarrow> Inl e | Inr v \<Rightarrow> k v)"

lemma try_bind_simps [simp]:
  "try_bind (Inl e) k = Inl e"
  "try_bind (Inr v) k = k v"
  by (simp_all add: try_bind_def)

lemma try_bind_Inr: "try_bind m k = Inr w \<longleftrightarrow> (\<exists>v. m = Inr v \<and> k v = Inr w)"
  by (auto simp: try_bind_def split: sum.splits)

lemma try_bind_Inl: "try_bind m k = Inl e \<longleftrightarrow> m = Inl e \<or> (\<exists>v. m = Inr v \<and> k v = Inl e)"
  by (auto simp: try_bind_def split: sum.splits)

subsection \<open>Collections of facts\<close>

named_theorems kernel_defs \<open>definitions of the kernel operations\<close>
named_theorems guard_splits \<open>case distinctions of the operations\<close>

subsection \<open>Lists\<close>

text \<open>One list extends another: the ledger relation between an earlier and a later receipt list.\<close>

definition extends :: "'a list \<Rightarrow> 'a list \<Rightarrow> bool" where
  "extends xs ys \<longleftrightarrow> take (length xs) ys = xs"

lemma extends_append [simp, intro]: "extends xs (xs @ ys)"
  by (simp add: extends_def)

lemma extends_refl [simp, intro]: "extends xs xs"
  by (simp add: extends_def)

lemma extends_iff: "extends xs ys \<longleftrightarrow> (\<exists>zs. ys = xs @ zs)"
  unfolding extends_def by (metis append_eq_conv_conj append_take_drop_id)

lemma extends_trans: "extends xs ys \<Longrightarrow> extends ys zs \<Longrightarrow> extends xs zs"
  by (auto simp: extends_iff)

lemma extends_length: "extends xs ys \<Longrightarrow> length xs \<le> length ys"
  by (auto simp: extends_iff)

lemma extends_nth: "extends xs ys \<Longrightarrow> i < length xs \<Longrightarrow> ys ! i = xs ! i"
  by (auto simp: extends_iff nth_append)

end
