(* ===== verification/Number_Facts.thy ===== *)
theory Number_Facts
  imports Complex_Main
begin

text \<open>
  Number theory that the Paillier scheme rests on, on \<open>int\<close>: primes, Fermat's little theorem, powers
  modulo \<open>n\<close> and \<open>n * n\<close>, and the extended Euclidean algorithm behind \<open>big.Int.ModInverse\<close>.
\<close>

subsection \<open>Primes\<close>

definition is_prime :: "int \<Rightarrow> bool" where
  "is_prime p \<longleftrightarrow> 1 < p \<and> (\<forall>d \<in> {2..<p}. \<not> d dvd p)"

lemma is_prime_gt: "is_prime p \<Longrightarrow> 1 < p"
  by (simp add: is_prime_def)

lemma is_prime_divisor:
  assumes "is_prime p" and "d dvd p" and "0 < d"
  shows "d = 1 \<or> d = p"
proof -
  have "d \<le> p"
    using assms(2) is_prime_gt [OF assms(1)] by (intro zdvd_imp_le) auto
  moreover have "d \<notin> {2..<p}"
    using assms by (auto simp: is_prime_def)
  ultimately show ?thesis
    using assms(3) by auto
qed

lemma is_prime_coprime:
  assumes "is_prime p" and "\<not> p dvd a"
  shows "coprime a p"
proof -
  have "0 < gcd a p"
    using is_prime_gt [OF assms(1)] by (simp add: zero_less_iff_neq_zero)
  then have "gcd a p = 1 \<or> gcd a p = p"
    by (rule is_prime_divisor [OF assms(1) gcd_dvd2])
  moreover have "gcd a p \<noteq> p"
    using assms(2) by (metis gcd_dvd1)
  ultimately show ?thesis
    by (simp add: coprime_iff_gcd_eq_1)
qed

lemma is_prime_coprime_less: "is_prime p \<Longrightarrow> 0 < a \<Longrightarrow> a < p \<Longrightarrow> coprime a p"
  by (meson is_prime_coprime zdvd_not_zless)

lemma distinct_primes_coprime:
  assumes "is_prime p" "is_prime q" "p \<noteq> q"
  shows "coprime p q"
  using is_prime_coprime [OF assms(2), of p] is_prime_divisor [OF assms(1), of q] assms is_prime_gt
  by fastforce

lemma prime_dvd_choose:
  assumes "is_prime (int p)" and "0 < k" and "k < p"
  shows "p dvd (p choose k)"
proof -
  have "k * (p choose k) = p * ((p - 1) choose (k - 1))"
    using assms(2) by (rule times_binomial_minus1_eq)
  then have "int p dvd int k * int (p choose k)"
    by (metis dvd_triv_left of_nat_dvd_iff of_nat_mult)
  moreover have "coprime (int k) (int p)"
    using assms by (intro is_prime_coprime_less) auto
  ultimately have "int p dvd int (p choose k)"
    by (simp add: coprime_commute coprime_dvd_mult_right_iff)
  then show ?thesis
    by simp
qed

subsection \<open>Fermat's little theorem\<close>

lemma prime_dvd_binomial_step:
  assumes "is_prime (int p)"
  shows "int p dvd (a + 1) ^ p - a ^ p - 1"
proof -
  have p: "0 < p"
    using is_prime_gt [OF assms] by simp
  have "(a + 1) ^ p = (\<Sum>k\<le>p. of_nat (p choose k) * a ^ k)"
    using binomial_ring [of a 1 p] by simp
  also have "{..p} = insert p (insert 0 {0<..<p})"
    using p by auto
  also have "(\<Sum>k\<in>insert p (insert 0 {0<..<p}). of_nat (p choose k) * a ^ k)
      = a ^ p + (1 + (\<Sum>k\<in>{0<..<p}. of_nat (p choose k) * a ^ k))"
    using p by simp
  finally have "(a + 1) ^ p - a ^ p - 1 = (\<Sum>k\<in>{0<..<p}. of_nat (p choose k) * a ^ k)"
    by simp
  moreover have "int p dvd (\<Sum>k\<in>{0<..<p}. of_nat (p choose k) * a ^ k)"
    by (intro dvd_sum dvd_mult2) (simp add: prime_dvd_choose [OF assms])
  ultimately show ?thesis
    by simp
qed

lemma fermat_nat:
  assumes "is_prime (int p)"
  shows "int p dvd (int a) ^ p - int a"
proof (induction a)
  case 0
  then show ?case
    using is_prime_gt [OF assms] by (simp add: power_0_left)
next
  case (Suc a)
  have "(int (Suc a)) ^ p - int (Suc a) = ((int a + 1) ^ p - int a ^ p - 1) + (int a ^ p - int a)"
    by (simp add: add.commute)
  then show ?case
    using Suc prime_dvd_binomial_step [OF assms, of "int a"] by (metis dvd_add)
qed

theorem fermat:
  assumes "is_prime p" and "coprime a p"
  shows "p dvd a ^ nat (p - 1) - 1"
proof -
  have p: "1 < p"
    using assms(1) by (rule is_prime_gt)
  define b where "b = a mod p"
  have b: "0 \<le> b"
    using p by (simp add: b_def)
  have "p dvd b ^ nat p - b"
    using fermat_nat [of "nat p" "nat b"] assms(1) p b by simp
  moreover have "nat p = Suc (nat (p - 1))"
    using p by simp
  then have "b ^ nat p - b = b * (b ^ nat (p - 1) - 1)"
    by (simp add: algebra_simps)
  moreover have "coprime p b"
    using assms(2) p by (simp add: b_def coprime_commute coprime_mod_left_iff)
  ultimately have "p dvd b ^ nat (p - 1) - 1"
    by (simp add: coprime_dvd_mult_right_iff)
  then have "b ^ nat (p - 1) mod p = 1 mod p"
    by (simp add: mod_eq_dvd_iff)
  then show ?thesis
    by (simp add: b_def power_mod mod_eq_dvd_iff)
qed

lemma power_one_multiple:
  fixes a :: int
  assumes "p dvd a ^ k - 1" and "k dvd l"
  shows "p dvd a ^ l - 1"
proof -
  obtain j where l: "l = k * j"
    using assms(2) ..
  have "a ^ k mod p = 1 mod p"
    using assms(1) by (simp add: mod_eq_dvd_iff)
  then have "(a ^ k) ^ j mod p = 1 ^ j mod p"
    by (metis power_mod)
  then show ?thesis
    by (simp add: l power_mult mod_eq_dvd_iff)
qed

text \<open>The exponent \<open>lcm (p - 1) (q - 1)\<close> kills every unit modulo \<open>p * q\<close>.\<close>

lemma carmichael:
  assumes "is_prime p" "is_prime q" "p \<noteq> q" and "coprime r (p * q)"
    and "(p - 1) dvd l" "(q - 1) dvd l" "0 \<le> l"
  shows "p * q dvd r ^ nat l - 1"
proof (rule divides_mult)
  have pos: "0 \<le> p - 1" "0 \<le> q - 1"
    using assms is_prime_gt by fastforce+
  have rp: "coprime r p" and rq: "coprime r q"
    using assms(4) by (simp_all add: coprime_mult_right_iff)
  have "nat (p - 1) dvd nat l" "nat (q - 1) dvd nat l"
    using assms(5-7) pos by (simp_all add: nat_dvd_iff)
  then show "p dvd r ^ nat l - 1" "q dvd r ^ nat l - 1"
    using power_one_multiple fermat [OF assms(1) rp] fermat [OF assms(2) rq] by blast+
  show "coprime p q"
    using assms by (simp add: distinct_primes_coprime)
qed

subsection \<open>Powers modulo \<open>n * n\<close>\<close>

lemma power_shift_sq:
  fixes y c n :: int
  assumes "n dvd c"
  shows "n * n dvd (y + c) ^ k - (y ^ k + of_nat k * y ^ (k - 1) * c)"
proof (induction k)
  case (Suc k)
  have sq: "n * n dvd c * c"
    using assms by (simp add: mult_dvd_mono)
  have "(y + c) ^ Suc k - (y ^ Suc k + of_nat (Suc k) * y ^ (Suc k - 1) * c)
      = (y + c) * ((y + c) ^ k - (y ^ k + of_nat k * y ^ (k - 1) * c))
        + of_nat k * y ^ (k - 1) * (c * c)"
    by (cases k) (simp_all add: algebra_simps)
  then show ?case
    using Suc sq by (metis dvd_add dvd_mult)
qed simp

lemma one_plus_power:
  fixes n :: int
  shows "n * n dvd (n + 1) ^ k - (1 + of_nat k * n)"
  using power_shift_sq [of n n 1 k] by (simp add: algebra_simps)

lemma power_n_lift:
  fixes x y n :: int
  assumes "0 \<le> n" and "n dvd x - y"
  shows "n * n dvd x ^ nat n - y ^ nat n"
proof -
  have "n * n dvd (y + (x - y)) ^ nat n - (y ^ nat n + of_nat (nat n) * y ^ (nat n - 1) * (x - y))"
    using assms(2) by (rule power_shift_sq)
  moreover have "n * n dvd of_nat (nat n) * y ^ (nat n - 1) * (x - y)"
    using assms by (metis (no_types, opaque_lifting) dvd_triv_left int_nat_eq mult.assoc mult.commute mult_dvd_mono)
  ultimately have "n * n dvd ((y + (x - y)) ^ nat n - (y ^ nat n + of_nat (nat n) * y ^ (nat n - 1) * (x - y)))
      + of_nat (nat n) * y ^ (nat n - 1) * (x - y)"
    by (rule dvd_add)
  then show ?thesis
    by simp
qed

subsection \<open>Congruence\<close>

definition eqm :: "int \<Rightarrow> int \<Rightarrow> int \<Rightarrow> bool" where
  "eqm n x y \<longleftrightarrow> n dvd x - y"

named_theorems eqm_intros \<open>congruence of compound terms\<close>

lemma eqm_mod_iff: "eqm n x y \<longleftrightarrow> x mod n = y mod n"
  by (simp add: eqm_def mod_eq_dvd_iff)

lemma eqm_refl [simp, eqm_intros]: "eqm n x x"
  by (simp add: eqm_def)

lemma eqm_sym: "eqm n x y \<Longrightarrow> eqm n y x"
  by (simp add: eqm_mod_iff)

lemma eqm_trans [trans]: "eqm n x y \<Longrightarrow> eqm n y z \<Longrightarrow> eqm n x z"
  by (simp add: eqm_mod_iff)

lemma eqm_mod [simp, eqm_intros]: "eqm n (x mod n) x"
  by (simp add: eqm_mod_iff)

lemma eqm_mult [eqm_intros]: "eqm n a b \<Longrightarrow> eqm n c d \<Longrightarrow> eqm n (a * c) (b * d)"
  by (metis eqm_mod_iff mod_mult_eq)

lemma eqm_power [eqm_intros]: "eqm n a b \<Longrightarrow> eqm n (a ^ k) (b ^ k)"
  by (metis eqm_mod_iff power_mod)

lemma eqm_cancel: "coprime u n \<Longrightarrow> eqm n (x * u) (y * u) \<longleftrightarrow> eqm n x y"
  by (simp add: eqm_def left_diff_distrib [symmetric] coprime_commute coprime_dvd_mult_left_iff)

lemma eqm_coprime: "eqm n x y \<Longrightarrow> coprime y n \<Longrightarrow> coprime x n"
  by (metis coprime_iff_gcd_eq_1 eqm_mod_iff gcd.commute gcd_red_int)

lemma eqm_lift: "0 \<le> n \<Longrightarrow> eqm n x y \<Longrightarrow> eqm (n * n) (x ^ nat n) (y ^ nat n)"
  by (simp add: eqm_def power_n_lift)

lemma eqm_one_plus: "eqm (n * n) ((n + 1) ^ k) (1 + of_nat k * n)"
  by (simp add: eqm_def one_plus_power)

lemma eqm_one_plus_iff: "n \<noteq> 0 \<Longrightarrow> eqm (n * n) (1 + j * n) (1 + k * n) \<longleftrightarrow> n dvd j - k"
proof -
  assume "n \<noteq> 0"
  have "(1 + j * n) - (1 + k * n) = (j - k) * n"
    by (simp add: algebra_simps)
  with \<open>n \<noteq> 0\<close> show ?thesis
    by (simp add: eqm_def)
qed

subsection \<open>The extended Euclidean algorithm\<close>

function egcd :: "int \<Rightarrow> int \<Rightarrow> int \<times> int" where
  "egcd a b = (if b = 0 then (1, 0) else (let (x, y) = egcd b (a mod b) in (y, x - a div b * y)))"
  by pat_completeness auto
termination
  by (relation "measure (\<lambda>(a, b). nat \<bar>b\<bar>)") (auto simp: abs_mod_less)

declare egcd.simps [simp del]

lemma egcd_bezout:
  assumes "0 \<le> a" and "0 \<le> b" and "egcd a b = (x, y)"
  shows "a * x + b * y = gcd a b"
  using assms
proof (induction a b arbitrary: x y rule: egcd.induct)
  case (1 a b)
  show ?case
  proof (cases "b = 0")
    case True
    with "1.prems" show ?thesis
      by (auto simp: egcd.simps [of a 0])
  next
    case False
    obtain u v where uv: "egcd b (a mod b) = (u, v)"
      by fastforce
    have "b * u + a mod b * v = gcd b (a mod b)"
      using "1.IH" [OF False _ _ uv] "1.prems" False by simp
    moreover have "x = v" "y = u - a div b * v"
      using "1.prems"(3) uv False by (auto simp: egcd.simps [of a b])
    moreover have "a * v + b * (u - a div b * v) = b * u + (a - a div b * b) * v"
      by (simp add: algebra_simps)
    ultimately show ?thesis
      by (simp add: minus_div_mult_eq_mod gcd.commute gcd_red_int [symmetric])
  qed
qed

text \<open>\<open>new(big.Int).ModInverse(a, n)\<close> for a positive \<open>n\<close>: \<open>None\<close> is the nil it returns when there is none.\<close>

definition mod_inverse :: "int \<Rightarrow> int \<Rightarrow> int option" where
  "mod_inverse a n = (if gcd a n = 1 then Some (fst (egcd (a mod n) n) mod n) else None)"

lemma mod_inverse_Some:
  assumes "0 < n" and "mod_inverse a n = Some x"
  shows "0 \<le> x \<and> x < n \<and> n dvd a * x - 1"
proof -
  obtain u v where uv: "egcd (a mod n) n = (u, v)"
    by fastforce
  have g: "gcd a n = 1" and x: "x = u mod n"
    using assms(2) uv by (auto simp: mod_inverse_def split: if_splits)
  have "a mod n * u + n * v = 1"
    using egcd_bezout [OF _ _ uv] assms(1) g by (simp add: gcd.commute gcd_red_int [symmetric])
  then have "a mod n * u - 1 = n * (- v)"
    by (simp add: algebra_simps)
  then have "(a mod n * u) mod n = 1 mod n"
    by (metis dvd_triv_left mod_eq_dvd_iff)
  then have "(a * x) mod n = 1 mod n"
    by (simp add: x mod_mult_left_eq mod_mult_right_eq)
  then show ?thesis
    using assms(1) x by (simp add: mod_eq_dvd_iff)
qed

lemma mod_inverse_exists: "coprime a n \<Longrightarrow> \<exists>x. mod_inverse a n = Some x"
  by (simp add: mod_inverse_def coprime_iff_gcd_eq_1)

lemma mod_inverse_None: "mod_inverse a n = None \<longleftrightarrow> \<not> coprime a n"
  by (simp add: mod_inverse_def coprime_iff_gcd_eq_1)

lemma mod_inverse_unique:
  assumes "0 < n" and "n dvd a * x - 1" and "0 \<le> x" and "x < n"
  shows "mod_inverse a n = Some x"
proof -
  have cop: "coprime a n"
  proof (rule coprimeI)
    fix c
    assume "c dvd a" "c dvd n"
    then have "c dvd a * x" "c dvd a * x - 1"
      using assms(2) by (auto intro: dvd_trans)
    then have "c dvd a * x - (a * x - 1)"
      by (rule dvd_diff)
    then show "is_unit c"
      by simp
  qed
  then obtain y where y: "mod_inverse a n = Some y"
    using mod_inverse_exists by blast
  with assms(1) have "0 \<le> y" "y < n" "n dvd a * y - 1"
    using mod_inverse_Some by blast+
  have "n dvd (a * x - 1) - (a * y - 1)"
    using assms(2) \<open>n dvd a * y - 1\<close> by (rule dvd_diff)
  then have "n dvd a * (x - y)"
    by (simp add: algebra_simps)
  then have "n dvd x - y"
    using cop by (simp add: coprime_commute coprime_dvd_mult_right_iff)
  then have "x mod n = y mod n"
    by (simp add: mod_eq_dvd_iff)
  then have "x = y"
    using assms \<open>0 \<le> y\<close> \<open>y < n\<close> by simp
  with y show ?thesis
    by simp
qed

end
