(* ===== verification/Go_Std.thy ===== *)
theory Go_Std
  imports Nexum_Prelude Number_Facts
begin

text \<open>
  The part of Go's language and standard library that the program computes with: byte
  slices and strings, decimal printing, \<open>encoding/hex\<close>, \<open>encoding/base64\<close>, the RFC 3339 layouts of \<open>time\<close>,
  comparison of \<open>float64\<close> values, \<open>crypto/sha256\<close>, and of \<open>math/big\<close> the conversion between numbers and
  big-endian bytes, \<open>Exp\<close>, \<open>ModInverse\<close> and \<open>GCD\<close>.

  A Go \<open>string\<close> is a sequence of bytes: a \<open>char list\<close> here. A \<open>[]byte\<close> is a list of 8-bit words.
  A \<open>time.Time\<close> is its instant, in nanoseconds since January 1 of year 1 UTC: the zero time is 0,
  \<open>UTC()\<close> leaves the instant alone, and \<open>Before\<close>, \<open>After\<close> and \<open>Equal\<close> compare instants.
\<close>

unbundle bit_operations_syntax

subsection \<open>Bytes and strings\<close>

type_synonym bytes = "8 word list"

definition bytes_of :: "string \<Rightarrow> bytes" where
  "bytes_of s = map (\<lambda>c. of_char c) s"

definition string_of :: "bytes \<Rightarrow> string" where
  "string_of bs = map (\<lambda>b. char_of (unat b)) bs"

lemma length_bytes_of [simp]: "length (bytes_of s) = length s"
  by (simp add: bytes_of_def)

lemma bytes_of_append [simp]: "bytes_of (s @ t) = bytes_of s @ bytes_of t"
  by (simp add: bytes_of_def)

lemma unat_of_char: "unat (of_char c :: 8 word) = of_char c"
proof -
  have "(of_char c :: 8 word) = word_of_nat (of_char c)"
    by (cases c) (simp add: of_char_def)
  moreover have "(of_char c :: nat) < 256"
    by simp
  ultimately show ?thesis
    by (simp add: unat_of_nat)
qed

lemma string_of_bytes_of [simp]: "string_of (bytes_of s) = s"
  by (induction s) (simp_all add: string_of_def bytes_of_def unat_of_char)

lemma bytes_of_inj [simp]: "bytes_of s = bytes_of t \<longleftrightarrow> s = t"
  by (metis string_of_bytes_of)

subsection \<open>Decimal printing: \<open>strconv.Itoa\<close>, \<open>strconv.FormatInt\<close> and the verb \<open>%d\<close>\<close>

definition digit :: "int \<Rightarrow> char" where
  "digit d = char_of (48 + d)"

fun digits :: "int \<Rightarrow> string" where
  "digits n = (if n < 10 then [digit n] else digits (n div 10) @ [digit (n mod 10)])"

declare digits.simps [simp del]

definition itoa :: "int \<Rightarrow> string" where
  "itoa i = (if i < 0 then ''-'' @ digits (- i) else digits i)"

text \<open>Decimal numbers padded with zeros on the left, as the layouts of \<open>time\<close> print them.\<close>

definition pad_digits :: "nat \<Rightarrow> int \<Rightarrow> string" where
  "pad_digits w n = (let ds = digits n in replicate (w - length ds) (CHR ''0'') @ ds)"

subsection \<open>\<open>encoding/hex\<close>\<close>

definition hex_digit :: "nat \<Rightarrow> char" where
  "hex_digit d = (if d < 10 then char_of (48 + d) else char_of (87 + d))"

definition hex_byte :: "8 word \<Rightarrow> string" where
  "hex_byte b = [hex_digit (unat b div 16), hex_digit (unat b mod 16)]"

definition hex_encode :: "bytes \<Rightarrow> string" where
  "hex_encode bs = concat (map hex_byte bs)"

definition unhex_digit :: "char \<Rightarrow> nat option" where
  "unhex_digit c = (let v = (of_char c :: nat) in
     if 48 \<le> v \<and> v \<le> 57 then Some (v - 48)
     else if 97 \<le> v \<and> v \<le> 102 then Some (v - 87)
     else if 65 \<le> v \<and> v \<le> 70 then Some (v - 55)
     else None)"

text \<open>\<open>hex.DecodeString\<close>: both letter cases are accepted, an odd length is an error.\<close>

fun hex_decode :: "string \<Rightarrow> bytes option" where
  "hex_decode [] = Some []"
| "hex_decode [c] = None"
| "hex_decode (c # d # s) =
     (case (unhex_digit c, unhex_digit d, hex_decode s) of
        (Some a, Some b, Some bs) \<Rightarrow> Some (word_of_nat (16 * a + b) # bs)
      | _ \<Rightarrow> None)"

subsection \<open>\<open>encoding/base64\<close>, the standard encoding with padding\<close>

definition b64_alphabet :: string where
  "b64_alphabet = ''ABCDEFGHIJKLMNOPQRSTUVWXYZabcdefghijklmnopqrstuvwxyz0123456789+/''"

text \<open>The character for the six bits of \<open>v\<close> that start at bit \<open>n\<close>.\<close>

definition b64_char :: "nat \<Rightarrow> 32 word \<Rightarrow> char" where
  "b64_char n v = b64_alphabet ! unat (drop_bit n v AND 63)"

definition b64_group :: "8 word \<Rightarrow> 8 word \<Rightarrow> 8 word \<Rightarrow> 32 word" where
  "b64_group a b c = push_bit 16 (ucast a) OR push_bit 8 (ucast b) OR ucast c"

fun base64_encode :: "bytes \<Rightarrow> string" where
  "base64_encode [] = []"
| "base64_encode [a] = (let v = b64_group a 0 0 in [b64_char 18 v, b64_char 12 v, CHR ''='', CHR ''=''])"
| "base64_encode [a, b] =
     (let v = b64_group a b 0 in [b64_char 18 v, b64_char 12 v, b64_char 6 v, CHR ''=''])"
| "base64_encode (a # b # c # bs) =
     (let v = b64_group a b c in
      [b64_char 18 v, b64_char 12 v, b64_char 6 v, b64_char 0 v] @ base64_encode bs)"

definition b64_value :: "char \<Rightarrow> nat option" where
  "b64_value c = (let k = length (takeWhile (\<lambda>d. d \<noteq> c) b64_alphabet) in if k < 64 then Some k else None)"

fun b64_indices :: "string \<Rightarrow> nat list option" where
  "b64_indices [] = Some []"
| "b64_indices (c # cs) = (case b64_value c of None \<Rightarrow> None
    | Some k \<Rightarrow> (case b64_indices cs of None \<Rightarrow> None | Some ks \<Rightarrow> Some (k # ks)))"

definition b64_join :: "nat list \<Rightarrow> bytes" where
  "b64_join ks = (let v = foldl (\<lambda>v k. v * 64 + k) 0 ks in
     [word_of_nat (v div 65536), word_of_nat (v div 256 mod 256), word_of_nat (v mod 256)])"

text \<open>\<open>StdEncoding.DecodeString\<close> on input without line breaks, which the decoder would skip.\<close>

fun base64_decode :: "string \<Rightarrow> bytes option" where
  "base64_decode [] = Some []"
| "base64_decode (i # j # k # l # cs) =
     (if l = CHR ''='' \<and> cs = [] then
        (if k = CHR ''='' then map_option (\<lambda>ks. take 1 (b64_join (ks @ [0, 0]))) (b64_indices [i, j])
         else map_option (\<lambda>ks. take 2 (b64_join (ks @ [0]))) (b64_indices [i, j, k]))
      else case (b64_indices [i, j, k, l], base64_decode cs) of
          (Some ks, Some bs) \<Rightarrow> Some (b64_join ks @ bs)
        | _ \<Rightarrow> None)"
| "base64_decode _ = None"

lemma b64_alphabet_facts: "distinct b64_alphabet" "length b64_alphabet = 64" "CHR ''='' \<notin> set b64_alphabet"
  by code_simp+

lemma b64_value_nth: "k < 64 \<Longrightarrow> b64_value (b64_alphabet ! k) = Some k"
proof -
  assume k: "k < 64"
  have "takeWhile (\<lambda>d. d \<noteq> b64_alphabet ! k) b64_alphabet = take k b64_alphabet"
    using b64_alphabet_facts k by (intro takeWhile_eq_take_P_nth) (auto simp: nth_eq_iff_index_eq)
  with k b64_alphabet_facts show ?thesis
    by (simp add: b64_value_def)
qed

lemma unat_b64_group: "unat (b64_group a b c) = unat a * 65536 + unat b * 256 + unat c"
proof -
  have "push_bit 16 (ucast a) AND push_bit 8 (ucast b) = (0 :: 32 word)"
    "push_bit 8 (ucast b) AND ucast c = (0 :: 32 word)" "push_bit 16 (ucast a) AND ucast c = (0 :: 32 word)"
    by (auto simp: bit_eq_iff bit_simps not_le dest: bit_imp_le_length)
  then have "b64_group a b c = push_bit 16 (ucast a) + (push_bit 8 (ucast b) + ucast c)"
    by (simp add: b64_group_def disjunctive_add_eq_or bit.conj_disj_distrib)
  also have "\<dots> = word_of_nat (unat a * 65536 + unat b * 256 + unat c)"
    by (simp add: push_bit_eq_mult mult.commute)
  finally have "b64_group a b c = word_of_nat (unat a * 65536 + unat b * 256 + unat c)" .
  moreover have "unat a * 65536 + unat b * 256 + unat c < 2 ^ LENGTH(32)"
    using unsigned_less [of a, where 'a = nat] unsigned_less [of b, where 'a = nat]
      unsigned_less [of c, where 'a = nat] by simp
  ultimately show ?thesis
    by (simp only: unsigned_of_nat take_bit_nat_eq_self of_nat_id)
qed

lemma unat_b64_index: "unat (drop_bit n v AND 63 :: 32 word) = unat v div 2 ^ n mod 64"
proof -
  have "drop_bit n v AND 63 = take_bit 6 (drop_bit n v)"
    by (simp only: take_bit_eq_mask mask_eq_exp_minus_1) simp
  then have "unat (drop_bit n v AND 63) = take_bit 6 (drop_bit n (take_bit 32 (unat v)))"
    by (simp only: unsigned_take_bit_eq unsigned_drop_bit_eq) simp
  moreover have "unat v < 2 ^ 32"
    using unsigned_less [of v, where 'a = nat] by simp
  ultimately show ?thesis
    by (simp add: take_bit_eq_mod drop_bit_eq_div)
qed

lemma b64_value_char: "b64_value (b64_char n v) = Some (unat v div 2 ^ n mod 64)"
  by (simp add: b64_char_def b64_value_nth unat_b64_index)

lemma b64_char_not_pad: "b64_char n v \<noteq> CHR ''=''"
proof -
  have "b64_char n v \<in> set b64_alphabet"
    unfolding b64_char_def unat_b64_index by (intro nth_mem) (simp add: b64_alphabet_facts)
  with b64_alphabet_facts show ?thesis
    by metis
qed

lemma b64_join_split:
  assumes "v < 16777216"
  shows "b64_join [v div 262144 mod 64, v div 4096 mod 64, v div 64 mod 64, v mod 64]
       = [word_of_nat (v div 65536), word_of_nat (v div 256 mod 256), word_of_nat (v mod 256)]"
proof -
  have "v div 4096 = v div 64 div 64" "v div 262144 = v div 64 div 64 div 64" "v div 64 div 64 div 64 < 64"
    using assms by (simp_all add: div_mult2_eq [symmetric] less_mult_imp_div_less)
  then have "((v div 262144 mod 64 * 64 + v div 4096 mod 64) * 64 + v div 64 mod 64) * 64 + v mod 64 = v"
    by simp
  then show ?thesis
    by (simp only: b64_join_def foldl.simps Let_def mult_0 add_0)
qed

lemma b64_join_group:
  "b64_join [unat (b64_group a b c) div 262144 mod 64, unat (b64_group a b c) div 4096 mod 64,
     unat (b64_group a b c) div 64 mod 64, unat (b64_group a b c) mod 64] = [a, b, c]"
proof -
  have bounds: "unat a < 256" "unat b < 256" "unat c < 256"
    using unsigned_less [of a, where 'a = nat] unsigned_less [of b, where 'a = nat]
      unsigned_less [of c, where 'a = nat] by simp_all
  let ?v = "unat (b64_group a b c)"
  have v: "?v = (unat a * 256 + unat b) * 256 + unat c"
    by (simp add: unat_b64_group)
  have "?v < 16777216"
    using bounds unfolding v by simp
  note split = b64_join_split [OF this]
  have "?v mod 256 = unat c" "?v div 256 = unat a * 256 + unat b"
    using bounds unfolding v by (simp_all only: mod_mult_self3 div_mult_self3 mod_less div_less)
  moreover from this have "?v div 256 mod 256 = unat b" "?v div 256 div 256 = unat a"
    using bounds by simp_all
  moreover have "?v div 65536 = ?v div 256 div 256"
    by (simp add: div_mult2_eq [symmetric])
  ultimately show ?thesis
    unfolding split by simp
qed

lemma b64_pad_zero:
  "unat (b64_group a 0 0) div 64 mod 64 = 0" "unat (b64_group a b 0) mod 64 = 0"
proof -
  have "unat (b64_group a 0 0) = unat a * 16 * 64 * 64" "unat (b64_group a b 0) = (unat a * 1024 + unat b * 4) * 64"
    by (simp_all add: unat_b64_group)
  then show "unat (b64_group a 0 0) div 64 mod 64 = 0" "unat (b64_group a b 0) mod 64 = 0"
    by (simp_all only: nonzero_mult_div_cancel_right mod_mult_self2_is_0)
qed

lemma b64_indices_chars:
  "b64_indices [b64_char 18 v, b64_char 12 v] = Some [unat v div 262144 mod 64, unat v div 4096 mod 64]"
  "b64_indices [b64_char 18 v, b64_char 12 v, b64_char 6 v]
     = Some [unat v div 262144 mod 64, unat v div 4096 mod 64, unat v div 64 mod 64]"
  "b64_indices [b64_char 18 v, b64_char 12 v, b64_char 6 v, b64_char 0 v]
     = Some [unat v div 262144 mod 64, unat v div 4096 mod 64, unat v div 64 mod 64, unat v mod 64]"
  by (simp_all add: b64_value_char)

lemma base64_decode_encode: "base64_decode (base64_encode bs) = Some bs"
proof (induction bs rule: base64_encode.induct)
  case (2 a)
  show ?case
    using b64_join_group [of a 0 0] b64_pad_zero(1) [of a] b64_pad_zero(2) [of a 0]
    by (simp add: Let_def b64_indices_chars b64_char_not_pad del: b64_indices.simps)
next
  case (3 a b)
  show ?case
    using b64_join_group [of a b 0] b64_pad_zero(2) [of a b]
    by (simp add: Let_def b64_indices_chars b64_char_not_pad del: b64_indices.simps)
next
  case (4 a b c bs)
  then show ?case
    using b64_join_group [of a b c]
    by (simp add: Let_def b64_indices_chars b64_char_not_pad del: b64_indices.simps)
qed simp

lemma base64_encode_chars: "set (base64_encode bs) \<subseteq> set b64_alphabet \<union> {CHR ''=''}"
proof -
  have "b64_char n v \<in> set b64_alphabet" for n v
    unfolding b64_char_def unat_b64_index by (intro nth_mem) (simp add: b64_alphabet_facts)
  then show ?thesis
    by (induction bs rule: base64_encode.induct) (auto simp: Let_def)
qed

subsection \<open>\<open>time.Time\<close>\<close>

type_synonym go_time = int

definition is_zero_time :: "go_time \<Rightarrow> bool" where
  "is_zero_time t \<longleftrightarrow> t = 0"

definition second :: int where "second = 1000000000"

text \<open>Year, month and day of a day number, counted from January 1 of year 1 (proleptic Gregorian).\<close>

definition civil_of_days :: "int \<Rightarrow> int \<times> int \<times> int" where
  "civil_of_days n =
     (let z = n + 306; era = z div 146097; doe = z mod 146097;
          yoe = (doe - doe div 1460 + doe div 36524 - doe div 146096) div 365;
          doy = doe - (365 * yoe + yoe div 4 - yoe div 100);
          mp = (5 * doy + 2) div 153;
          d = doy - (153 * mp + 2) div 5 + 1;
          m = (if mp < 10 then mp + 3 else mp - 9);
          y = yoe + era * 400 + (if m \<le> 2 then 1 else 0)
      in (y, m, d))"

definition year_digits :: "int \<Rightarrow> string" where
  "year_digits y = (if y < 0 then ''-'' @ pad_digits 4 (- y) else pad_digits 4 y)"

definition date_time :: "go_time \<Rightarrow> string" where
  "date_time t =
     (let secs = t div second; (y, m, d) = civil_of_days (secs div 86400); s = secs mod 86400
      in year_digits y @ ''-'' @ pad_digits 2 m @ ''-'' @ pad_digits 2 d @ ''T''
         @ pad_digits 2 (s div 3600) @ '':'' @ pad_digits 2 (s div 60 mod 60) @ '':'' @ pad_digits 2 (s mod 60))"

text \<open>\<open>UTC().Format(time.RFC3339)\<close> and \<open>UTC().Format(time.RFC3339Nano)\<close>; the latter drops trailing zeros
  of the fraction, and the point with them.\<close>

definition format_rfc3339 :: "go_time \<Rightarrow> string" where
  "format_rfc3339 t = date_time t @ ''Z''"

definition fraction :: "int \<Rightarrow> string" where
  "fraction ns = (if ns = 0 then [] else
     CHR ''.'' # rev (dropWhile (\<lambda>c. c = CHR ''0'') (rev (pad_digits 9 ns))))"

definition format_rfc3339_nano :: "go_time \<Rightarrow> string" where
  "format_rfc3339_nano t = date_time t @ fraction (t mod second) @ ''Z''"

subsection \<open>Comparison of \<open>float64\<close> values\<close>

text \<open>
  A \<open>float64\<close> is its IEEE 754 bit pattern. Comparison needs no arithmetic: apart from NaN, which compares
  false with everything, the order is that of the sign and the magnitude bits, with both zeros equal.
\<close>

type_synonym f64 = "64 word"

definition f64_is_nan :: "f64 \<Rightarrow> bool" where
  "f64_is_nan x \<longleftrightarrow> uint x mod 2 ^ 63 > 2047 * 2 ^ 52"

definition f64_key :: "f64 \<Rightarrow> int" where
  "f64_key x = (if uint x \<ge> 2 ^ 63 then - (uint x - 2 ^ 63) else uint x)"

definition f64_gt :: "f64 \<Rightarrow> f64 \<Rightarrow> bool" where
  "f64_gt x y \<longleftrightarrow> \<not> f64_is_nan x \<and> \<not> f64_is_nan y \<and> f64_key x > f64_key y"

subsection \<open>\<open>crypto/sha256\<close>\<close>

text \<open>SHA-256 as FIPS 180-4 defines it: padding, message schedule and compression on 32-bit words.\<close>

definition rotr :: "nat \<Rightarrow> 32 word \<Rightarrow> 32 word" where
  "rotr n x = drop_bit n x OR push_bit (32 - n) x"

text \<open>The round constants and the initial state, in decimal: the first 32 bits of the fractional parts of the cube
  roots of the first 64 primes, and of the square roots of the first 8.\<close>

definition sha_k :: "32 word list" where
  "sha_k = [
     1116352408, 1899447441, 3049323471, 3921009573, 961987163, 1508970993, 2453635748, 2870763221,
     3624381080, 310598401, 607225278, 1426881987, 1925078388, 2162078206, 2614888103, 3248222580,
     3835390401, 4022224774, 264347078, 604807628, 770255983, 1249150122, 1555081692, 1996064986,
     2554220882, 2821834349, 2952996808, 3210313671, 3336571891, 3584528711, 113926993, 338241895,
     666307205, 773529912, 1294757372, 1396182291, 1695183700, 1986661051, 2177026350, 2456956037,
     2730485921, 2820302411, 3259730800, 3345764771, 3516065817, 3600352804, 4094571909, 275423344,
     430227734, 506948616, 659060556, 883997877, 958139571, 1322822218, 1537002063, 1747873779,
     1955562222, 2024104815, 2227730452, 2361852424, 2428436474, 2756734187, 3204031479, 3329325298]"

definition sha_init :: "32 word list" where
  "sha_init = [1779033703, 3144134277, 1013904242, 2773480762, 1359893119, 2600822924, 528734635, 1541459225]"

definition be32 :: "bytes \<Rightarrow> 32 word" where
  "be32 bs = foldl (\<lambda>a b. push_bit 8 a OR ucast b) 0 bs"

definition be32_bytes :: "32 word \<Rightarrow> bytes" where
  "be32_bytes w = [ucast (drop_bit 24 w), ucast (drop_bit 16 w), ucast (drop_bit 8 w), ucast w]"

text \<open>Message schedule; the list is kept newest word first, so that \<open>W[t-2]\<close> is element 1.\<close>

definition sha_sigma0 :: "32 word \<Rightarrow> 32 word" where
  "sha_sigma0 x = rotr 7 x XOR rotr 18 x XOR drop_bit 3 x"

definition sha_sigma1 :: "32 word \<Rightarrow> 32 word" where
  "sha_sigma1 x = rotr 17 x XOR rotr 19 x XOR drop_bit 10 x"

fun sha_extend :: "nat \<Rightarrow> 32 word list \<Rightarrow> 32 word list" where
  "sha_extend 0 ws = ws"
| "sha_extend (Suc k) ws =
     sha_extend k ((sha_sigma1 (ws ! 1) + ws ! 6 + sha_sigma0 (ws ! 14) + ws ! 15) # ws)"

definition sha_schedule :: "bytes \<Rightarrow> 32 word list" where
  "sha_schedule blk = rev (sha_extend 48 (rev (map (\<lambda>i. be32 (take 4 (drop (4 * i) blk))) [0..<16])))"

text \<open>One round on the working variables \<open>a\<close> to \<open>h\<close>.\<close>

fun sha_round :: "32 word list \<Rightarrow> 32 word \<times> 32 word \<Rightarrow> 32 word list" where
  "sha_round [a, b, c, d, e, f, g, h] (k, w) =
     (let t1 = h + (rotr 6 e XOR rotr 11 e XOR rotr 25 e) + ((e AND f) XOR (NOT e AND g)) + k + w;
          t2 = (rotr 2 a XOR rotr 13 a XOR rotr 22 a) + ((a AND b) XOR (a AND c) XOR (b AND c))
      in [t1 + t2, a, b, c, d + t1, e, f, g])"
| "sha_round vs kw = vs"

definition sha_compress :: "32 word list \<Rightarrow> bytes \<Rightarrow> 32 word list" where
  "sha_compress hs blk = map2 (+) hs (foldl sha_round hs (zip sha_k (sha_schedule blk)))"

definition be64_bytes :: "64 word \<Rightarrow> bytes" where
  "be64_bytes w = map (\<lambda>i. ucast (drop_bit (56 - 8 * i) w)) [0..<8]"

definition sha_pad :: "bytes \<Rightarrow> bytes" where
  "sha_pad m = m @ [0x80] @ replicate ((119 - length m mod 64) mod 64) 0 @ be64_bytes (8 * word_of_nat (length m))"

fun sha_blocks :: "32 word list \<Rightarrow> bytes \<Rightarrow> 32 word list" where
  "sha_blocks hs bs = (if length bs < 64 then hs else sha_blocks (sha_compress hs (take 64 bs)) (drop 64 bs))"

declare sha_blocks.simps [simp del]

definition sha256 :: "bytes \<Rightarrow> bytes" where
  "sha256 m = concat (map be32_bytes (sha_blocks sha_init (sha_pad m)))"

lemma sha_round_length [simp]: "length (sha_round vs kw) = length vs"
  by (induction vs kw rule: sha_round.induct) (simp_all add: Let_def)

lemma sha_compress_length: "length hs = 8 \<Longrightarrow> length (sha_compress hs blk) = 8"
proof -
  have "length (foldl sha_round vs kws) = length vs" for vs kws
    by (induction kws arbitrary: vs) simp_all
  then show "length hs = 8 \<Longrightarrow> length (sha_compress hs blk) = 8"
    by (simp add: sha_compress_def)
qed

lemma sha_blocks_length: "length hs = 8 \<Longrightarrow> length (sha_blocks hs bs) = 8"
proof (induction hs bs rule: sha_blocks.induct)
  case (1 hs bs)
  then show ?case
    by (simp add: sha_blocks.simps [of hs bs] sha_compress_length)
qed

lemma concat_be32_length: "length (concat (map be32_bytes ws)) = 4 * length ws"
  by (induction ws) (simp_all add: be32_bytes_def)

lemma length_sha256 [simp]: "length (sha256 m) = 32"
  by (simp add: sha256_def concat_be32_length sha_blocks_length sha_init_def)

lemma length_hex_encode [simp]: "length (hex_encode bs) = 2 * length bs"
  by (induction bs) (simp_all add: hex_encode_def hex_byte_def)

subsection \<open>\<open>math/big\<close>\<close>

text \<open>\<open>(*Int).Bytes\<close>: the big-endian bytes of the absolute value, none for 0; \<open>SetBytes\<close> reads them back.\<close>

fun nat_bytes :: "int \<Rightarrow> bytes" where
  "nat_bytes n = (if n \<le> 0 then [] else nat_bytes (n div 256) @ [word_of_int n])"

declare nat_bytes.simps [simp del]

definition big_bytes :: "int \<Rightarrow> bytes" where
  "big_bytes n = nat_bytes \<bar>n\<bar>"

definition set_bytes :: "bytes \<Rightarrow> int" where
  "set_bytes bs = foldl (\<lambda>a b. 256 * a + uint b) 0 bs"

lemma set_bytes_nonneg [simp]: "0 \<le> set_bytes bs"
proof -
  have "0 \<le> a \<Longrightarrow> 0 \<le> foldl (\<lambda>a (b :: 8 word). 256 * a + uint b) a bs" for a
    by (induction bs arbitrary: a) simp_all
  then show ?thesis
    by (simp add: set_bytes_def)
qed

lemma set_bytes_snoc [simp]: "set_bytes (bs @ [b]) = 256 * set_bytes bs + uint b"
  by (simp add: set_bytes_def)

lemma set_nat_bytes: "0 \<le> n \<Longrightarrow> set_bytes (nat_bytes n) = n"
proof (induction n rule: nat_bytes.induct)
  case (1 n)
  show ?case
  proof (cases "n \<le> 0")
    case True
    with "1.prems" show ?thesis
      by (simp add: nat_bytes.simps [of 0] set_bytes_def)
  next
    case False
    then have "set_bytes (nat_bytes (n div 256)) = n div 256"
      using "1.IH" by simp
    moreover have "uint (word_of_int n :: 8 word) = n mod 256"
      by (simp add: uint_word_of_int)
    ultimately show ?thesis
      using False by (simp add: nat_bytes.simps [of n])
  qed
qed

lemma set_big_bytes [simp]: "set_bytes (big_bytes n) = \<bar>n\<bar>"
  by (simp add: big_bytes_def set_nat_bytes)

text \<open>\<open>new(big.Int).Exp(x, y, m)\<close> for a nonnegative exponent and a positive modulus.\<close>

definition big_exp :: "int \<Rightarrow> int \<Rightarrow> int \<Rightarrow> int" where
  "big_exp x y m = x ^ nat y mod m"

text \<open>A signed 64-bit value (\<open>int64\<close>): the word, read by \<open>sint\<close>.\<close>

type_synonym i64 = "64 word"

lemma sint_i64_less: "sint (x :: i64) < 2 ^ 63"
  using sint_lt [of x] by simp

end
