(* ===== verification/Receipts.thy ===== *)
theory Receipts
  imports Go_Std
begin

text \<open>
  Receipts and the hash chain (\<open>Receipt\<close>, \<open>hashReceipt\<close> and the \<open>append\<close> and \<open>VerifyReceipts\<close> methods of
  \<open>internal/nexum\<close>). The four agreement shapes of the kernel each carry a copy of the same chaining code;
  it is modelled once here, and the locale \<open>receipt_log\<close> states what each shape's \<open>append\<close> promises. The
  locale \<open>ledger_machine\<close> extends it to a whole machine of calls: from "each call keeps the log" it derives,
  for every sequence of calls, that the chain verifies, that history is only ever extended and that a closed
  machine keeps what it shows. A \<open>refusing_machine\<close> refuses every call once it is closed.
\<close>

subsection \<open>Receipts\<close>

type_synonym party = string

record receipt =
  r_seq :: int
  r_at :: go_time
  r_action :: string
  r_actor :: party
  r_note :: string
  r_prev :: string
  r_hash :: string

text \<open>The text that \<open>hashReceipt\<close> hashes: \<open>fmt.Sprintf("%s|%d|%s|%s|%s|%s|%s", ...)\<close>.\<close>

definition receipt_text :: "string \<Rightarrow> receipt \<Rightarrow> string" where
  "receipt_text cid r =
     cid @ ''|'' @ itoa (r_seq r) @ ''|'' @ format_rfc3339_nano (r_at r) @ ''|'' @ r_action r @ ''|''
     @ r_actor r @ ''|'' @ r_note r @ ''|'' @ r_prev r"

definition hash_receipt :: "string \<Rightarrow> receipt \<Rightarrow> string" where
  "hash_receipt cid r = hex_encode (sha256 (bytes_of (receipt_text cid r)))"

text \<open>The hash at the end of a receipt list, the empty string when there is none.\<close>

definition head_hash :: "receipt list \<Rightarrow> string" where
  "head_hash rs = (if rs = [] then [] else r_hash (last rs))"

text \<open>The receipt that an \<open>append\<close> adds.\<close>

definition new_receipt :: "string \<Rightarrow> receipt list \<Rightarrow> party \<Rightarrow> string \<Rightarrow> string \<Rightarrow> go_time \<Rightarrow> receipt" where
  "new_receipt cid rs actor action note now =
     (let r = \<lparr>r_seq = int (length rs) + 1, r_at = now, r_action = action, r_actor = actor,
               r_note = note, r_prev = head_hash rs, r_hash = []\<rparr>
      in r\<lparr>r_hash := hash_receipt cid r\<rparr>)"

text \<open>The loop of \<open>VerifyReceipts\<close>: \<open>i\<close> is the index of the receipt it looks at, \<open>prev\<close> the hash before it.\<close>

fun verify_from :: "string \<Rightarrow> int \<Rightarrow> string \<Rightarrow> receipt list \<Rightarrow> go_error option" where
  "verify_from cid i prev [] = None"
| "verify_from cid i prev (r # rs) =
     (if r_seq r \<noteq> i + 1 then Some (Errorf ''nexum: receipt seq %d want %d'' [itoa (r_seq r), itoa (i + 1)])
      else if r_prev r \<noteq> prev then Some (Errorf ''nexum: receipt %d broken prev'' [itoa (r_seq r)])
      else if r_hash r \<noteq> hash_receipt cid r then Some (Errorf ''nexum: receipt %d rewritten'' [itoa (r_seq r)])
      else verify_from cid (i + 1) (r_hash r) rs)"

definition verify_receipts :: "string \<Rightarrow> receipt list \<Rightarrow> go_error option" where
  "verify_receipts cid rs = verify_from cid 0 [] rs"

subsection \<open>Facts about the chain\<close>

text \<open>The hash does not depend on the \<open>Hash\<close> field, which is empty when the receipt is hashed.\<close>

lemma hash_receipt_upd [simp]: "hash_receipt cid (r\<lparr>r_hash := h\<rparr>) = hash_receipt cid r"
  by (simp add: hash_receipt_def receipt_text_def)

lemma new_receipt_fields [simp]:
  "r_seq (new_receipt cid rs p a n t) = int (length rs) + 1"
  "r_at (new_receipt cid rs p a n t) = t"
  "r_action (new_receipt cid rs p a n t) = a"
  "r_actor (new_receipt cid rs p a n t) = p"
  "r_note (new_receipt cid rs p a n t) = n"
  "r_prev (new_receipt cid rs p a n t) = head_hash rs"
  "r_hash (new_receipt cid rs p a n t) = hash_receipt cid (new_receipt cid rs p a n t)"
  by (simp_all add: new_receipt_def Let_def hash_receipt_def receipt_text_def)

lemma head_hash_simps [simp]:
  "head_hash [] = []"
  "head_hash (rs @ [r]) = r_hash r"
  by (simp_all add: head_hash_def)

lemma verify_from_append:
  "verify_from cid i prev (rs @ ss) =
     (case verify_from cid i prev rs of
        Some e \<Rightarrow> Some e
      | None \<Rightarrow> verify_from cid (i + int (length rs)) (if rs = [] then prev else r_hash (last rs)) ss)"
  by (induction rs arbitrary: i prev) (auto simp: ac_simps split: option.split)

lemma verify_receipts_snoc:
  "verify_receipts cid (rs @ [r]) = None \<longleftrightarrow>
     verify_receipts cid rs = None \<and> r_seq r = int (length rs) + 1 \<and> r_prev r = head_hash rs
     \<and> r_hash r = hash_receipt cid r"
  by (auto simp: verify_receipts_def verify_from_append head_hash_def split: option.splits if_splits)

lemma verify_receipts_nil [simp]: "verify_receipts cid [] = None"
  by (simp add: verify_receipts_def)

lemma verify_receipts_new [simp]:
  "verify_receipts cid (rs @ [new_receipt cid rs p a n t]) = None \<longleftrightarrow> verify_receipts cid rs = None"
  by (simp add: verify_receipts_snoc)

lemma verify_receipts_prefix: "verify_receipts cid (rs @ ss) = None \<Longrightarrow> verify_receipts cid rs = None"
  by (auto simp: verify_receipts_def verify_from_append split: option.splits)

text \<open>What a verified chain looks like at each index.\<close>

lemma verify_receipts_nth:
  assumes "verify_receipts cid rs = None" and "i < length rs"
  shows "r_seq (rs ! i) = int i + 1 \<and> r_prev (rs ! i) = head_hash (take i rs)
         \<and> r_hash (rs ! i) = hash_receipt cid (rs ! i)"
proof -
  have "rs = take (Suc i) rs @ drop (Suc i) rs"
    by simp
  then have "verify_receipts cid (take (Suc i) rs) = None"
    using assms(1) by (metis verify_receipts_prefix)
  moreover have "take (Suc i) rs = take i rs @ [rs ! i]"
    using assms(2) by (rule take_Suc_conv_app_nth)
  ultimately show ?thesis
    using assms(2) by (simp add: verify_receipts_snoc)
qed

subsection \<open>Tamper evidence\<close>

text \<open>
  Two verified ledgers that end in the same hash either hash the same texts in the same order, or a pair of
  different texts among the ones they hash has the same SHA-256 value. The pair is named, so that the second
  case is a collision in hand and not the mere existence of one.
\<close>

definition texts :: "string \<Rightarrow> receipt list \<Rightarrow> string list" where
  "texts cid rs = map (receipt_text cid) rs"

definition hash_text :: "string \<Rightarrow> string" where
  "hash_text s = hex_encode (sha256 (bytes_of s))"

definition text_collision :: "string list \<Rightarrow> string list \<Rightarrow> bool" where
  "text_collision xs ys \<longleftrightarrow> list_ex (\<lambda>x. list_ex (\<lambda>y. x \<noteq> y \<and> hash_text x = hash_text y) ys) xs"

lemma texts_snoc [simp]: "texts cid (rs @ [r]) = texts cid rs @ [receipt_text cid r]"
  by (simp add: texts_def)

lemma text_collision_mono:
  "text_collision xs ys \<Longrightarrow> text_collision (xs @ xs') (ys @ ys')"
  by (auto simp: text_collision_def list_ex_iff)

lemma length_hash_text [simp]: "length (hash_text s) = 64"
  by (simp add: hash_text_def)

lemma hash_receipt_text: "hash_receipt cid r = hash_text (receipt_text cid r)"
  by (simp add: hash_receipt_def hash_text_def)

text \<open>Neither decimal numbers nor hexadecimal digests contain the separator.\<close>

lemma code_char_of: "v < 256 \<Longrightarrow> (of_char (char_of (v :: nat)) :: nat) = v"
  by simp

lemma hex_digit_no_bar: "d < 16 \<Longrightarrow> hex_digit d \<noteq> CHR ''|''"
proof -
  assume "d < 16"
  then have "(of_char (hex_digit d) :: nat) < 124"
    by (auto simp: hex_digit_def)
  then show ?thesis
    by auto
qed

lemma hex_no_bar: "CHR ''|'' \<notin> set (hex_encode bs)"
proof (induction bs)
  case (Cons b bs)
  have "unat b < 256"
    using unsigned_less [of b, where 'a = nat] by simp
  then have "unat b div 16 < 16" "unat b mod 16 < 16"
    by auto
  then have "hex_digit (unat b div 16) \<noteq> CHR ''|''" "hex_digit (unat b mod 16) \<noteq> CHR ''|''"
    by (blast dest: hex_digit_no_bar)+
  with Cons show ?case
    by (simp add: hex_encode_def hex_byte_def eq_commute [of "CHR ''|''"])
qed (simp add: hex_encode_def)

lemma hash_text_no_bar: "CHR ''|'' \<notin> set (hash_text s)"
  by (simp add: hash_text_def hex_no_bar)

lemma last_field_unique:
  assumes "xs @ b # ys = xs' @ b # ys'" and "b \<notin> set ys" and "b \<notin> set ys'"
  shows "xs = xs' \<and> ys = ys'"
proof -
  have suffix: "rev (takeWhile (\<lambda>c. c \<noteq> b) (rev (us @ b # vs))) = vs" if "b \<notin> set vs" for us vs
    proof -
    have "takeWhile (\<lambda>c. c \<noteq> b) (rev vs @ b # rev us) = rev vs"
      using that by (subst takeWhile_append2) auto
    then show ?thesis
      by simp
  qed
  have "ys = ys'"
    using suffix [OF assms(2), of xs] suffix [OF assms(3), of xs'] assms(1) by simp
  with assms(1) show ?thesis
    by simp
qed

text \<open>The receipts of a verified chain hash the previous digest as their last field, so equal texts have
  equal predecessors.\<close>

lemma receipt_text_prev:
  assumes "receipt_text cid r = receipt_text cid' r'"
    and "CHR ''|'' \<notin> set (r_prev r)" and "CHR ''|'' \<notin> set (r_prev r')"
  shows "r_prev r = r_prev r'"
proof -
  have split: "\<exists>us. receipt_text d q = us @ CHR ''|'' # r_prev q" for d q
      unfolding receipt_text_def append.assoc [symmetric] by simp
  from split [of cid r] split [of cid' r'] obtain us vs
    where "receipt_text cid r = us @ CHR ''|'' # r_prev r"
      and "receipt_text cid' r' = vs @ CHR ''|'' # r_prev r'"
    by blast
  with assms last_field_unique show ?thesis
    by metis
qed

lemma verified_head:
  assumes "verify_receipts cid rs = None"
  shows "CHR ''|'' \<notin> set (head_hash rs) \<and> (head_hash rs = [] \<longleftrightarrow> rs = [])"
proof (cases rs rule: rev_cases)
  case (snoc ys y)
  with assms have "head_hash rs = hash_text (receipt_text cid y)"
    by (simp add: verify_receipts_snoc hash_receipt_text)
  moreover have "hash_text (receipt_text cid y) \<noteq> []"
    by (metis length_hash_text list.size(3) zero_neq_numeral)
  ultimately show ?thesis
    using snoc hash_text_no_bar by simp
qed simp

lemma same_head_texts:
  assumes "verify_receipts cid rs = None" and "verify_receipts cid' ss = None"
    and "head_hash rs = head_hash ss"
  shows "texts cid rs = texts cid' ss \<or> text_collision (texts cid rs) (texts cid' ss)"
  using assms
proof (induction rs arbitrary: ss rule: rev_induct)
  case Nil
  then show ?case
    using verified_head [of cid' ss] by (simp add: texts_def)
next
  case (snoc r rs)
  then have "ss \<noteq> []"
    using verified_head by (metis snoc_eq_iff_butlast)
  then obtain qs q where ss: "ss = qs @ [q]"
    by (metis append_butlast_last_id)
  have r: "verify_receipts cid rs = None" "r_prev r = head_hash rs" "r_hash r = hash_text (receipt_text cid r)"
    using snoc.prems(1) by (simp_all add: verify_receipts_snoc hash_receipt_text)
  have q: "verify_receipts cid' qs = None" "r_prev q = head_hash qs" "r_hash q = hash_text (receipt_text cid' q)"
    using snoc.prems(2) ss by (simp_all add: verify_receipts_snoc hash_receipt_text)
  have eq: "hash_text (receipt_text cid r) = hash_text (receipt_text cid' q)"
    using snoc.prems(3) ss r(3) q(3) by simp
  show ?case
  proof (cases "receipt_text cid r = receipt_text cid' q")
    case True
    then have "head_hash rs = head_hash qs"
      using receipt_text_prev [of cid r cid' q] r q verified_head [OF r(1)] verified_head [OF q(1)] by simp
    then have "texts cid rs = texts cid' qs \<or> text_collision (texts cid rs) (texts cid' qs)"
      using snoc.IH r(1) q(1) by blast
    with True ss show ?thesis
      by (auto simp: text_collision_mono)
  next
    case False
    with eq ss show ?thesis
      by (auto simp: text_collision_def list_ex_iff)
  qed
qed

subsection \<open>The contract of an \<open>append\<close> method\<close>

text \<open>Growth of a log: nothing, or one receipt after the other, each linked to the head before it.\<close>

inductive log_grows :: "string \<Rightarrow> receipt list \<Rightarrow> receipt list \<Rightarrow> bool" for cid where
  stay: "log_grows cid rs rs"
| add: "log_grows cid rs ss \<Longrightarrow> log_grows cid rs (ss @ [new_receipt cid ss p a n t])"

lemma log_grows_extends: "log_grows cid rs ss \<Longrightarrow> extends rs ss"
  by (induction rule: log_grows.induct) (auto simp: extends_iff)

lemma log_grows_verifies:
  "log_grows cid rs ss \<Longrightarrow> verify_receipts cid rs = None \<Longrightarrow> verify_receipts cid ss = None"
  by (induction rule: log_grows.induct) auto

lemma log_grows_trans: "log_grows cid ss ts \<Longrightarrow> log_grows cid rs ss \<Longrightarrow> log_grows cid rs ts"
  by (induction rule: log_grows.induct) (auto intro: log_grows.intros)

lemma log_grows_one [intro]: "log_grows cid rs (rs @ [new_receipt cid rs p a n t])"
  by (intro log_grows.intros)

declare log_grows.stay [intro, simp]

locale receipt_log =
  fixes cid :: "'s \<Rightarrow> string"
    and recs :: "'s \<Rightarrow> receipt list"
    and app :: "'s \<Rightarrow> party \<Rightarrow> string \<Rightarrow> string \<Rightarrow> go_time \<Rightarrow> 's outcome"
  assumes app_ok: "app s p a n t = (s', None) \<Longrightarrow>
      recs s' = recs s @ [new_receipt (cid s) (recs s) p a n t] \<and> cid s' = cid s"
    and app_err: "app s p a n t = (s', Some e) \<Longrightarrow> recs s' = recs s \<and> cid s' = cid s"
begin

lemma app_grows: "app s p a n t = (s', r) \<Longrightarrow> log_grows (cid s) (recs s) (recs s') \<and> cid s' = cid s"
  using app_ok app_err by (cases r) fastforce+

lemma app_verifies:
  "app s p a n t = (s', r) \<Longrightarrow> verify_receipts (cid s) (recs s) = None \<Longrightarrow>
   verify_receipts (cid s') (recs s') = None"
  using app_grows log_grows_verifies by metis

lemma app_head: "app s p a n t = (s', None) \<Longrightarrow> head_hash (recs s') = r_hash (last (recs s'))"
  using app_ok by (simp add: head_hash_def)

end

subsection \<open>Machines of calls\<close>

text \<open>A sequence of calls, each made on the state the one before it left, whatever it returned.\<close>

fun run :: "('s \<Rightarrow> 'c \<Rightarrow> 's outcome) \<Rightarrow> 's \<Rightarrow> 'c list \<Rightarrow> 's" where
  "run step s [] = s"
| "run step s (c # cs) = run step (fst (step s c)) cs"

lemma run_append: "run step s (cs @ ds) = run step (run step s cs) ds"
  by (induction cs arbitrary: s) simp_all

text \<open>Every call of the machine grows the log; once the machine is closed no call changes anything that \<open>face\<close>
  shows.\<close>

locale ledger_machine = receipt_log cid recs app
  for cid :: "'s \<Rightarrow> string" and recs :: "'s \<Rightarrow> receipt list"
    and app :: "'s \<Rightarrow> party \<Rightarrow> string \<Rightarrow> string \<Rightarrow> go_time \<Rightarrow> 's outcome" +
  fixes step :: "'s \<Rightarrow> 'c \<Rightarrow> 's outcome"
    and closed :: "'s \<Rightarrow> bool"
    and face :: "'s \<Rightarrow> 'f"
  assumes step_grows: "step s c = (s', r) \<Longrightarrow> log_grows (cid s) (recs s) (recs s') \<and> cid s' = cid s"
    and closed_frozen: "closed s \<Longrightarrow> step s c = (s', r) \<Longrightarrow> face s' = face s \<and> closed s'"
begin

lemma run_grows: "log_grows (cid s) (recs s) (recs (run step s cs)) \<and> cid (run step s cs) = cid s"
proof (induction cs arbitrary: s)
  case (Cons c cs)
  obtain s' r where c: "step s c = (s', r)"
    by fastforce
  show ?case
    using step_grows [OF c] Cons [of s'] c log_grows_trans by fastforce
qed simp

lemma run_extends: "extends (recs s) (recs (run step s cs))"
  using run_grows log_grows_extends by blast

lemma run_verifies:
  "verify_receipts (cid s) (recs s) = None \<Longrightarrow>
   verify_receipts (cid (run step s cs)) (recs (run step s cs)) = None"
  using run_grows log_grows_verifies by metis

lemma run_closed: "closed s \<Longrightarrow> face (run step s cs) = face s \<and> closed (run step s cs)"
proof (induction cs arbitrary: s)
  case (Cons c cs)
  obtain s' r where c: "step s c = (s', r)"
    by fastforce
  show ?case
    using closed_frozen [OF Cons.prems c] Cons.IH [of s'] c by simp
qed simp

end

text \<open>A machine that moreover answers every call with an error once it is closed.\<close>

locale refusing_machine = ledger_machine cid recs app step closed face
  for cid :: "'s \<Rightarrow> string" and recs :: "'s \<Rightarrow> receipt list"
    and app :: "'s \<Rightarrow> party \<Rightarrow> string \<Rightarrow> string \<Rightarrow> go_time \<Rightarrow> 's outcome"
    and step :: "'s \<Rightarrow> 'c \<Rightarrow> 's outcome" and closed :: "'s \<Rightarrow> bool" and face :: "'s \<Rightarrow> 'f" +
  assumes closed_refuses: "closed s \<Longrightarrow> step s c = (s', r) \<Longrightarrow> r \<noteq> None"
begin

lemma closed_step_refused: "closed (run step s cs) \<Longrightarrow> snd (step (run step s cs) c) \<noteq> None"
  using closed_refuses by (metis prod.collapse)

end

text \<open>An invariant of a machine of calls holds after every run.\<close>

locale machine_invariant =
  fixes step :: "'s \<Rightarrow> 'c \<Rightarrow> 's outcome"
    and good :: "'s \<Rightarrow> bool"
  assumes good_step: "good s \<Longrightarrow> step s c = (s', r) \<Longrightarrow> good s'"
begin

lemma run_good: "good s \<Longrightarrow> good (run step s cs)"
proof (induction cs arbitrary: s)
  case (Cons c cs)
  then show ?case
    using good_step by (metis prod.collapse run.simps(2))
qed simp

end

subsection \<open>Properties of receipt chains\<close>

text \<open>
  C13. The head hash commits to the history: two receipt lists that verify and end in the same hash hash the same texts in
  the same order, one for one, or among the texts they hash there are two different ones with the same SHA-256 value.
\<close>

theorem receipts_tamper_evident:
  assumes "verify_receipts cid rs = None" and "verify_receipts cid' ss = None" and "head_hash rs = head_hash ss"
  shows "texts cid rs = texts cid' ss \<and> length rs = length ss \<or> text_collision (texts cid rs) (texts cid' ss)"
  using same_head_texts [OF assms] by (metis length_map texts_def)

text \<open>
  Two different histories that verify and end in the same hash: the actor \<open>b|x\<close> with the note \<open>y\<close> against the actor
  \<open>b\<close> with the note \<open>x|y\<close>, which hash the same text.
\<close>

theorem receipts_tamper_evident_witness:
  "\<exists>rs ss. rs \<noteq> ss \<and> verify_receipts ''deal'' rs = None \<and> verify_receipts ''deal'' ss = None
     \<and> head_hash rs = head_hash ss
     \<and> (texts ''deal'' rs = texts ''deal'' ss \<and> length rs = length ss
        \<or> text_collision (texts ''deal'' rs) (texts ''deal'' ss))"
proof -
  let ?r = "new_receipt ''deal'' [] ''b|x'' ''note'' ''y'' 10"
  let ?s = "?r\<lparr>r_actor := ''b'', r_note := ''x|y''\<rparr>"
  have r: "verify_receipts ''deal'' [?r] = None"
    using verify_receipts_new [of "''deal''" "[]"] by simp
  have "hash_receipt ''deal'' ?s = hash_receipt ''deal'' ?r"
    by (simp add: hash_receipt_def receipt_text_def)
  then have s: "verify_receipts ''deal'' [?s] = None"
    using r by (simp add: verify_receipts_def)
  have "head_hash [?r] = head_hash [?s]" and "r_actor ?r \<noteq> r_actor ?s"
    by (simp_all add: head_hash_def)
  then have "[?r] \<noteq> [?s]"
    by (metis list.inject)
  with r s \<open>head_hash [?r] = head_hash [?s]\<close> receipts_tamper_evident [OF r s] show ?thesis
    by blast
qed

text \<open>
  The hashed text does not separate its fields: a receipt of the actor \<open>b|x\<close> with the note \<open>y\<close> can be rewritten into one
  of the actor \<open>b\<close> with the note \<open>x|y\<close>, and \<open>VerifyReceipts\<close> accepts the one chain exactly when it accepts the other.
\<close>

theorem receipt_fields_run_together:
  "let r = new_receipt cid rs ''b|x'' act ''y'' t; r' = r\<lparr>r_actor := ''b'', r_note := ''x|y''\<rparr>
   in r' \<noteq> r \<and> (verify_receipts cid (rs @ [r'] @ ss) = None \<longleftrightarrow> verify_receipts cid (rs @ [r] @ ss) = None)"
proof -
  let ?r = "new_receipt cid rs ''b|x'' act ''y'' t"
  let ?r' = "?r\<lparr>r_actor := ''b'', r_note := ''x|y''\<rparr>"
  have "hash_receipt cid ?r' = hash_receipt cid ?r"
    by (simp add: hash_receipt_def receipt_text_def)
  then have "verify_receipts cid (rs @ [?r'] @ ss) = None \<longleftrightarrow> verify_receipts cid (rs @ [?r] @ ss) = None"
    by (cases "rs = []") (simp_all add: verify_receipts_def verify_from_append head_hash_def split: option.split)
  moreover have "r_actor ?r' \<noteq> r_actor ?r"
    by simp
  ultimately show ?thesis
    by (metis (no_types, lifting))
qed

end
