(* ===== verification/Kernel_Types.thy ===== *)
theory Kernel_Types
  imports Receipts
begin

text \<open>Types shared by the four agreement shapes of \<open>internal/nexum\<close>: \<open>Status\<close>, \<open>Meter\<close> and \<open>Unit\<close>.\<close>

text \<open>
  \<open>Status\<close> is a Go string. The constants of the package are the constructors; \<open>StatusText\<close> is any other string,
  which only a deserialized value can hold.
\<close>

datatype status =
    StatusOpen | StatusLocked | StatusAccepted | StatusRejected | StatusExpired
  | StatusReady | StatusExecuted | StatusRefused
  | StatusOffered | StatusClaimed | StatusProven | StatusPaid
  | StatusText string

record meter =
  mt_cost_usd :: f64
  mt_effort :: string
  mt_budget_usd :: f64
  mt_max_steps :: i64

record token_unit =
  un_symbol :: string

text \<open>\<open>Meter.BudgetUSD > 0 && Meter.CostUSD > Meter.BudgetUSD\<close>.\<close>

definition over_budget :: "meter \<Rightarrow> bool" where
  "over_budget m \<longleftrightarrow> f64_gt (mt_budget_usd m) 0 \<and> f64_gt (mt_cost_usd m) (mt_budget_usd m)"

abbreviation max_steps :: "meter \<Rightarrow> int" where
  "max_steps m \<equiv> sint (mt_max_steps m)"

text \<open>
  The step counters of a council, a delegate and a workflow are Go \<open>int\<close>s that are incremented before they are compared,
  so they wrap around after \<open>2 ^ 63\<close> calls; up to the bound of the meter they count.
\<close>

lemma sint_add_below:
  assumes "0 \<le> k" and "sint (s :: i64) + k \<le> sint (m :: i64)"
  shows "sint (s + word_of_int k) = sint s + k"
proof -
  have "- (2 ^ 63) \<le> sint s" "sint m < 2 ^ 63"
    using sint_ge [of s] sint_lt [of m] by simp_all
  with assms have "signed_take_bit 63 (sint s + k) = sint s + k"
    by (intro signed_take_bit_int_eq_self) simp_all
  moreover have "sint (s + word_of_int k) = sint (word_of_int (sint s + k) :: i64)"
    by simp
  then have "sint (s + word_of_int k) = signed_take_bit 63 (sint s + k)"
    unfolding sint_sbintrunc' by simp
  ultimately show ?thesis
    by simp
qed

lemma sint_succ: "sint (s :: i64) < sint (m :: i64) \<Longrightarrow> sint (s + 1) = sint s + 1"
  using sint_add_below [of 1 s m] by simp

text \<open>A meter without a budget, as the tests use it.\<close>

definition plain_meter :: "i64 \<Rightarrow> meter" where
  "plain_meter n = \<lparr>mt_cost_usd = 0, mt_effort = ''flash'', mt_budget_usd = 0, mt_max_steps = n\<rparr>"

lemma plain_meter_not_over_budget [simp]: "\<not> over_budget (plain_meter n)"
  by (simp add: over_budget_def plain_meter_def f64_gt_def)

lemma plain_meter_max_steps [simp]: "mt_max_steps (plain_meter n) = n"
  by (simp add: plain_meter_def)

end
