(* ===== verification/Paillier.thy ===== *)
theory Paillier
  imports Go_Std
begin

text \<open>
  The additive Paillier scheme of \<open>internal/he\<close> (\<open>paillier.go\<close>, \<open>checkpoint.go\<close>, \<open>he.go\<close>): key generation, encryption with
  explicit randomness, homomorphic addition, decryption, and the Fiat-Shamir proof that a ciphertext encrypts a
  public number. Numbers are \<open>int\<close> (\<open>math/big\<close>); a ciphertext is the big-endian byte list the code passes around.
  What the code draws from \<open>crypto/rand\<close> is an argument: \<open>None\<close> is an error of the reader, \<open>Some v\<close> the value drawn.

  The lemmas show that decryption inverts encryption, that \<open>Add\<close> adds plaintexts, and exactly when the proof an
  honest prover makes for an amount is accepted.
\<close>

subsection \<open>Keys\<close>

record paillier =
  pl_n :: int
  pl_n2 :: int
  pl_g :: int
  pl_lambda :: int
  pl_mu :: int

definition p_minus1 :: "int \<Rightarrow> int" where
  "p_minus1 x = x - 1"

definition lcm_go :: "int \<Rightarrow> int \<Rightarrow> int" where
  "lcm_go a b = a * b div gcd a b"

text \<open>
  \<open>NewPaillier\<close>: the loop draws two primes of \<open>prime_bits bits\<close> bits per turn and starts over when they are equal or
  \<open>mu\<close> does not exist. The list holds what \<open>rand.Prime\<close> returns, turn by turn; \<open>None\<close> as the result means that the
  loop is still running when the list ends.
\<close>

definition prime_bits :: "int \<Rightarrow> int" where
  "prime_bits bits = (if bits < 1024 then 2048 else bits) div 2"

fun new_paillier :: "(int option \<times> int option) list \<Rightarrow> (go_error + paillier) option" where
  "new_paillier [] = None"
| "new_paillier ((None, _) # ds) = Some (Inl ErrKeyGen)"
| "new_paillier ((Some p, None) # ds) = Some (Inl ErrKeyGen)"
| "new_paillier ((Some p, Some q) # ds) =
     (if p = q then new_paillier ds
      else let n = p * q; n2 = n * n; lambda = lcm_go (p_minus1 p) (p_minus1 q); g = n + 1;
               x = big_exp g lambda n2; L = (x - 1) div n
           in case mod_inverse L n of
                None \<Rightarrow> new_paillier ds
              | Some mu \<Rightarrow> Some (Inr \<lparr>pl_n = n, pl_n2 = n2, pl_g = g, pl_lambda = lambda, pl_mu = mu\<rparr>))"

text \<open>What \<open>rand.Prime\<close> documents: numbers of the requested bit length that are prime.\<close>

definition prime_draws :: "int \<Rightarrow> (int option \<times> int option) list \<Rightarrow> bool" where
  "prime_draws bits ds \<longleftrightarrow>
     (\<forall>(p, q) \<in> set ds. \<forall>v \<in> set_option p \<union> set_option q.
        is_prime v \<and> 2 ^ nat (prime_bits bits - 1) \<le> v \<and> v < 2 ^ nat (prime_bits bits))"

subsection \<open>Encryption, addition, decryption\<close>

definition encrypt :: "paillier \<Rightarrow> int \<Rightarrow> int option \<Rightarrow> go_error + bytes" where
  "encrypt k m draw =
     (if m < 0 \<or> m \<ge> pl_n k then Inl ErrEnc
      else case draw of
        None \<Rightarrow> Inl ErrEnc
      | Some r \<Rightarrow>
          if r = 0 then Inl ErrEnc
          else let gm = big_exp (pl_g k) m (pl_n2 k); rn = big_exp r (pl_n k) (pl_n2 k)
               in Inr (big_bytes (gm * rn mod pl_n2 k)))"

definition encrypt_with_r :: "paillier \<Rightarrow> int \<Rightarrow> int \<Rightarrow> go_error + bytes" where
  "encrypt_with_r k m r =
     (if m < 0 \<or> m \<ge> pl_n k then Inl ErrEnc
      else if r \<le> 0 \<or> r \<ge> pl_n k then Inl ErrEnc
      else if gcd r (pl_n k) \<noteq> 1 then Inl ErrEnc
      else let gm = big_exp (pl_g k) m (pl_n2 k); rn = big_exp r (pl_n k) (pl_n2 k)
           in Inr (big_bytes (gm * rn mod pl_n2 k)))"

definition he_add :: "paillier \<Rightarrow> bytes \<Rightarrow> bytes \<Rightarrow> go_error + bytes" where
  "he_add k a b =
     (let ca = set_bytes a; cb = set_bytes b in
      if ca \<le> 0 \<or> cb \<le> 0 \<or> ca \<ge> pl_n2 k \<or> cb \<ge> pl_n2 k then Inl ErrAdd
      else Inr (big_bytes (ca * cb mod pl_n2 k)))"

definition decrypt :: "paillier \<Rightarrow> bytes \<Rightarrow> go_error + int" where
  "decrypt k c =
     (let ct = set_bytes c in
      if ct \<le> 0 \<or> ct \<ge> pl_n2 k then Inl ErrDec
      else let x = big_exp ct (pl_lambda k) (pl_n2 k); L = (x - 1) div pl_n k
           in Inr (L * pl_mu k mod pl_n k))"

text \<open>\<open>Mul\<close> is not supported by an additive scheme and fails closed; the scheme names and sizes.\<close>

definition he_mul :: "paillier \<Rightarrow> bytes \<Rightarrow> bytes \<Rightarrow> go_error + bytes" where
  "he_mul k a b = Inl ErrNoise"

definition he_scheme :: "paillier \<Rightarrow> string" where
  "he_scheme k = ''paillier''"

fun bit_len :: "int \<Rightarrow> int" where
  "bit_len n = (if n \<le> 0 then 0 else 1 + bit_len (n div 2))"

declare bit_len.simps [simp del]

definition key_size :: "paillier \<Rightarrow> int" where
  "key_size k = bit_len (pl_n k)"

definition he_equal :: "bytes \<Rightarrow> bytes \<Rightarrow> bool" where
  "he_equal a b \<longleftrightarrow> a = b"

definition he_N :: "paillier \<Rightarrow> int" where
  "he_N k = pl_n k"

subsection \<open>The equality proof\<close>

text \<open>\<open>zkChallenge\<close>: the Fiat-Shamir hash of the ciphertext, the claimed message and the commitment.\<close>

definition zk_challenge :: "bytes \<Rightarrow> bytes \<Rightarrow> bytes \<Rightarrow> int \<Rightarrow> int" where
  "zk_challenge ct m commit md =
     (let e = set_bytes (sha256 (bytes_of ''nex/zk-equal-v1'' @ ct @ m @ commit)) mod md
      in if e = 0 then 1 else e)"

record zk_proof =
  zk_a :: bytes
  zk_z :: bytes

text \<open>\<open>json.Marshal\<close> of a \<open>zkProof\<close>: an object with two base64 strings.\<close>

definition zk_marshal :: "zk_proof \<Rightarrow> bytes" where
  "zk_marshal p = bytes_of (''{\"a\":\"'' @ base64_encode (zk_a p) @ ''\",\"z\":\"'' @ base64_encode (zk_z p) @ ''\"}'')"

text \<open>
  A decoder of the documents \<open>zk_marshal\<close> writes. \<open>json.Unmarshal\<close> accepts more; the decoder is a parameter of what
  verifies proofs, and this is an instance of it.
\<close>

definition zk_unmarshal :: "bytes \<Rightarrow> zk_proof option" where
  "zk_unmarshal b =
     (let quoted = (\<lambda>s. (takeWhile (\<lambda>c. c \<noteq> CHR 0x22) s, dropWhile (\<lambda>c. c \<noteq> CHR 0x22) s));
          (a, t) = quoted (drop 6 (string_of b)); (z, u) = quoted (drop 7 t)
      in if take 6 (string_of b) = ''{\"a\":\"'' \<and> take 7 t = ''\",\"z\":\"'' \<and> u = ''\"}''
         then (case (base64_decode a, base64_decode z) of
             (Some a, Some z) \<Rightarrow> Some \<lparr>zk_a = a, zk_z = z\<rparr>
           | _ \<Rightarrow> None)
         else None)"

lemma base64_no_quote: "CHR 0x22 \<notin> set (base64_encode bs)"
proof -
  have "CHR 0x22 \<notin> set b64_alphabet \<union> {CHR ''=''}"
    by code_simp
  with base64_encode_chars show ?thesis
    by blast
qed

lemma span_before:
  "b \<notin> set xs \<Longrightarrow> takeWhile (\<lambda>c. c \<noteq> b) (xs @ b # s) = xs \<and> dropWhile (\<lambda>c. c \<noteq> b) (xs @ b # s) = b # s"
  by (induction xs) auto

lemmas quoted_base64 = span_before [OF base64_no_quote, THEN conjunct1] span_before [OF base64_no_quote, THEN conjunct2]

lemma zk_unmarshal_marshal: "zk_unmarshal (zk_marshal pf) = Some pf"
  by (simp add: zk_unmarshal_def zk_marshal_def quoted_base64 base64_decode_encode)

definition prove_equal :: "paillier \<Rightarrow> bytes \<Rightarrow> int \<Rightarrow> int \<Rightarrow> int option \<Rightarrow> go_error + bytes" where
  "prove_equal k ct m r draw =
     (let c = set_bytes ct in
      if c \<le> 0 \<or> c \<ge> pl_n2 k then Inl ErrEnc
      else if m < 0 \<or> m \<ge> pl_n k then Inl ErrEnc
      else if r \<le> 0 \<or> r \<ge> pl_n k then Inl ErrEnc
      else case draw of
        None \<Rightarrow> Inl ErrEnc
      | Some s \<Rightarrow>
          if s = 0 then Inl ErrEnc
          else let a = big_exp s (pl_n k) (pl_n2 k);
                   e = zk_challenge ct (big_bytes m) (big_bytes a) (pl_n k);
                   z = big_exp r e (pl_n k) * s mod pl_n k
               in Inr (zk_marshal \<lparr>zk_a = big_bytes a, zk_z = big_bytes z\<rparr>))"

text \<open>
  \<open>VerifyEqual\<close>. The decoder \<open>dec\<close> is \<open>json.Unmarshal\<close> into a \<open>zkProof\<close>, with \<open>None\<close> for its error; the code never sees
  more of a proof than the two byte strings it returns.
\<close>

definition verify_equal :: "(bytes \<Rightarrow> zk_proof option) \<Rightarrow> paillier \<Rightarrow> bytes \<Rightarrow> int \<Rightarrow> bytes \<Rightarrow> bool" where
  "verify_equal dec k ct m proof =
     (case dec proof of
        None \<Rightarrow> False
      | Some pf \<Rightarrow>
          let c = set_bytes ct; a = set_bytes (zk_a pf); z = set_bytes (zk_z pf) in
          if c \<le> 0 \<or> c \<ge> pl_n2 k then False
          else if m < 0 \<or> m \<ge> pl_n k then False
          else if a \<le> 0 \<or> a \<ge> pl_n2 k \<or> z < 0 \<or> z \<ge> pl_n k then False
          else let e = zk_challenge ct (big_bytes m) (big_bytes a) (pl_n k);
                   lhs = big_exp z (pl_n k) (pl_n2 k);
                   gm = big_exp (pl_g k) m (pl_n2 k)
               in case mod_inverse gm (pl_n2 k) of
                    None \<Rightarrow> False
                  | Some gminv \<Rightarrow>
                      let rn = c * gminv mod pl_n2 k; rhs = big_exp rn e (pl_n2 k) * a mod pl_n2 k
                      in lhs = rhs)"

subsection \<open>Checkpoints of the key\<close>

record he_state =
  hs_N :: bytes
  hs_Lambda :: bytes
  hs_Mu :: bytes

definition he_private_state :: "paillier \<Rightarrow> he_state" where
  "he_private_state k =
     \<lparr>hs_N = big_bytes (pl_n k), hs_Lambda = big_bytes (pl_lambda k), hs_Mu = big_bytes (pl_mu k)\<rparr>"

abbreviation bad_he_checkpoint :: go_error where
  "bad_he_checkpoint \<equiv> Errorf ''he: invalid private checkpoint'' []"

definition he_restore :: "he_state \<Rightarrow> go_error + paillier" where
  "he_restore s =
     (if length (hs_N s) < 128 \<or> length (hs_N s) > 1024 \<or> length (hs_Lambda s) > length (hs_N s)
         \<or> length (hs_Mu s) > length (hs_N s) then Inl bad_he_checkpoint
      else let n = set_bytes (hs_N s); lambda = set_bytes (hs_Lambda s); mu = set_bytes (hs_Mu s) in
        if even n \<or> lambda \<le> 0 \<or> lambda \<ge> n \<or> mu \<le> 0 \<or> mu \<ge> n then Inl bad_he_checkpoint
        else case mod_inverse lambda n of
            None \<Rightarrow> Inl bad_he_checkpoint
          | Some iv \<Rightarrow>
              if iv \<noteq> mu then Inl bad_he_checkpoint
              else Inr \<lparr>pl_n = n, pl_n2 = n * n, pl_g = n + 1, pl_lambda = lambda, pl_mu = mu\<rparr>)"

subsection \<open>Valid keys\<close>

text \<open>The keys that \<open>NewPaillier\<close> returns, by the two primes they are made of.\<close>

definition valid_key :: "int \<Rightarrow> int \<Rightarrow> paillier \<Rightarrow> bool" where
  "valid_key p q k \<longleftrightarrow>
     is_prime p \<and> is_prime q \<and> p \<noteq> q \<and> pl_n k = p * q \<and> pl_n2 k = pl_n k * pl_n k \<and> pl_g k = pl_n k + 1
     \<and> pl_lambda k = lcm_go (p - 1) (q - 1) \<and> 0 \<le> pl_mu k \<and> pl_mu k < pl_n k
     \<and> pl_n k dvd pl_lambda k * pl_mu k - 1"

lemma lcm_go_dvd:
  assumes "0 < a" and "0 < b"
  shows "a dvd lcm_go a b" "b dvd lcm_go a b" "0 < lcm_go a b"
proof -
  have 1: "lcm_go a b = a * (b div gcd a b)"
    by (simp add: lcm_go_def div_mult_swap)
  have 2: "lcm_go a b = b * (a div gcd a b)"
    by (simp add: lcm_go_def div_mult_swap mult.commute)
  show "a dvd lcm_go a b" "b dvd lcm_go a b"
    by (simp add: 1, simp add: 2)
  have "0 < b div gcd a b"
    using assms by (simp add: pos_imp_zdiv_pos_iff zdvd_imp_le)
  with assms show "0 < lcm_go a b"
    by (simp add: 1)
qed

lemma valid_key_n:
  assumes "valid_key p q k"
  shows "1 < pl_n k" "0 < pl_n2 k" "1 < pl_n2 k" "coprime p q"
proof -
  have "1 < p" "1 < q"
    using assms is_prime_gt by (auto simp: valid_key_def)
  then have n: "1 < p * q"
    by (simp add: less_1_mult)
  with assms show "1 < pl_n k"
    by (simp add: valid_key_def)
  then show "1 < pl_n2 k"
    using assms by (simp add: valid_key_def less_1_mult)
  then show "0 < pl_n2 k"
    by simp
  show "coprime p q"
    using assms by (simp add: valid_key_def distinct_primes_coprime)
qed

text \<open>Every unit raised to \<open>lambda\<close> is 1 modulo \<open>n\<close>.\<close>

lemma valid_key_lambda:
  assumes "valid_key p q k" and "coprime r (pl_n k)"
  shows "eqm (pl_n k) (r ^ nat (pl_lambda k)) 1" "0 < pl_lambda k"
proof -
  have pq: "is_prime p" "is_prime q" "p \<noteq> q" "pl_n k = p * q" "pl_lambda k = lcm_go (p - 1) (q - 1)"
    using assms(1) by (simp_all add: valid_key_def)
  then have "0 < p - 1" "0 < q - 1"
    using is_prime_gt by fastforce+
  with pq show "0 < pl_lambda k"
    by (simp add: lcm_go_dvd)
  then show "eqm (pl_n k) (r ^ nat (pl_lambda k)) 1"
    using pq assms(2) carmichael [of p q r "pl_lambda k"] lcm_go_dvd [OF \<open>0 < p - 1\<close> \<open>0 < q - 1\<close>]
    by (simp add: eqm_def)
qed

text \<open>The map \<open>L\<close> of the scheme: on powers of \<open>g\<close> it reads the exponent modulo \<open>n\<close>.\<close>

lemma one_plus_mod_sq:
  fixes n j :: int
  assumes "1 < n"
  shows "(1 + j * n) mod (n * n) = 1 + (j mod n) * n"
proof -
  have "(1 + j * n) mod (n * n) = (1 + (j mod n) * n) mod (n * n)"
    using assms eqm_one_plus_iff [of n j "j mod n"] by (simp add: eqm_mod_iff [symmetric] mod_eq_dvd_iff [symmetric])
  moreover have "(j mod n) * n \<le> (n - 1) * n"
    using assms by (intro mult_right_mono) auto
  then have "1 + (j mod n) * n < n * n"
    using assms by (simp add: algebra_simps)
  ultimately show ?thesis
    using assms by simp
qed

lemma L_of_one_plus:
  fixes n j :: int
  assumes "1 < n"
  shows "((1 + j * n) mod (n * n) - 1) div n = j mod n"
  using assms by (simp add: one_plus_mod_sq)

definition draws_from :: "(int \<Rightarrow> bool) \<Rightarrow> (int option \<times> int option) list \<Rightarrow> bool" where
  "draws_from P ds \<longleftrightarrow> (\<forall>(p, q) \<in> set ds. \<forall>v \<in> set_option p \<union> set_option q. P v)"

lemma new_paillier_primes:
  assumes "new_paillier ds = Some (Inr k)" and "draws_from (\<lambda>v. is_prime v \<and> b \<le> v) ds"
  shows "\<exists>p q. valid_key p q k \<and> b \<le> p \<and> b \<le> q"
  using assms
proof (induction ds)
  case (Cons d ds)
  obtain p q where d: "d = (Some p, Some q)"
    using Cons.prems(1) by (cases d rule: prod.exhaust, cases "fst d"; cases "snd d") auto
  let ?n = "p * q"
  let ?l = "lcm_go (p_minus1 p) (p_minus1 q)"
  let ?L = "(big_exp (?n + 1) ?l (?n * ?n) - 1) div ?n"
  have pq: "is_prime p" "is_prime q" "b \<le> p" "b \<le> q" and ds: "draws_from (\<lambda>v. is_prime v \<and> b \<le> v) ds"
    using Cons.prems(2) d by (auto simp: draws_from_def)
  show ?case
  proof (cases "p = q \<or> mod_inverse ?L ?n = None")
    case True
    with Cons.prems(1) have "new_paillier ds = Some (Inr k)"
      by (auto simp: d Let_def split: if_splits)
    with ds show ?thesis
      by (simp add: Cons.IH)
  next
    case False
    then obtain mu where mu: "mod_inverse ?L ?n = Some mu"
      by auto
    have k: "k = \<lparr>pl_n = ?n, pl_n2 = ?n * ?n, pl_g = ?n + 1, pl_lambda = ?l, pl_mu = mu\<rparr>"
      using Cons.prems(1) False mu by (simp add: d Let_def)
    have n: "1 < ?n"
      using pq is_prime_gt by (metis less_1_mult)
    have "0 < p_minus1 p" "0 < p_minus1 q"
      using pq is_prime_gt by (auto simp: p_minus1_def)
    then have "0 < ?l"
      by (rule lcm_go_dvd)
    then have "big_exp (?n + 1) ?l (?n * ?n) = (1 + ?l * ?n) mod (?n * ?n)"
      using eqm_one_plus [of ?n "nat ?l"] by (simp add: big_exp_def eqm_mod_iff)
    then have "?L = ?l mod ?n"
      using L_of_one_plus [OF n] by simp
    then have "0 \<le> mu \<and> mu < ?n \<and> ?n dvd (?l mod ?n) * mu - 1"
      using mod_inverse_Some [of ?n ?L mu] n mu by simp
    then have "0 \<le> mu \<and> mu < ?n \<and> ?n dvd ?l * mu - 1"
      by (simp add: mod_eq_dvd_iff [symmetric] mod_mult_left_eq)
    with pq False show ?thesis
      by (intro exI [of _ p] exI [of _ q]) (simp add: valid_key_def k p_minus1_def)
  qed
qed simp_all

lemma new_paillier_valid:
  assumes "new_paillier ds = Some (Inr k)" and "prime_draws bits ds"
  shows "\<exists>p q. valid_key p q k \<and> 2 ^ nat (prime_bits bits - 1) \<le> p \<and> 2 ^ nat (prime_bits bits - 1) \<le> q"
  by (rule new_paillier_primes [OF assms(1)]) (use assms(2) in \<open>auto simp: prime_draws_def draws_from_def\<close>)

subsection \<open>Ciphertexts\<close>

text \<open>The number that encrypts \<open>m\<close> with blinding factor \<open>r\<close>.\<close>

definition cipher :: "paillier \<Rightarrow> int \<Rightarrow> int \<Rightarrow> int" where
  "cipher k m r = pl_g k ^ nat m * r ^ nat (pl_n k) mod pl_n2 k"

lemma cipher_eqm: "eqm (pl_n2 k) (cipher k m r) (pl_g k ^ nat m * r ^ nat (pl_n k))"
  by (simp add: cipher_def)

lemma encrypt_with_r_ok:
  assumes "0 \<le> m" "m < pl_n k" "0 < r" "r < pl_n k" "coprime r (pl_n k)"
  shows "encrypt_with_r k m r = Inr (big_bytes (cipher k m r))"
  using assms
  by (simp add: encrypt_with_r_def cipher_def big_exp_def mod_mult_eq coprime_iff_gcd_eq_1)

lemma encrypt_with_r_Inr:
  assumes "encrypt_with_r k m r = Inr ct"
  shows "0 \<le> m \<and> m < pl_n k \<and> 0 < r \<and> r < pl_n k \<and> coprime r (pl_n k) \<and> ct = big_bytes (cipher k m r)"
  using assms
  by (auto simp: encrypt_with_r_def cipher_def big_exp_def Let_def mod_mult_eq coprime_iff_gcd_eq_1
           split: if_splits)

lemma valid_key_unit_iff: "valid_key p q k \<Longrightarrow> coprime x (pl_n2 k) \<longleftrightarrow> coprime x (pl_n k)"
  by (simp add: valid_key_def)

lemma valid_key_g_coprime: "valid_key p q k \<Longrightarrow> coprime (pl_g k) (pl_n k)"
  by (simp add: valid_key_def coprime_iff_gcd_eq_1) (metis coprime_iff_gcd_eq_1 coprime_add_one_left gcd.commute)

lemma cipher_unit:
  assumes "valid_key p q k" and "coprime r (pl_n k)"
  shows "coprime (cipher k m r) (pl_n2 k)"
proof -
  have "coprime (pl_g k ^ nat m * r ^ nat (pl_n k)) (pl_n k)"
    using assms valid_key_g_coprime by simp
  then have "coprime (pl_g k ^ nat m * r ^ nat (pl_n k)) (pl_n2 k)"
    using valid_key_unit_iff [OF assms(1)] by blast
  then show ?thesis
    using cipher_eqm eqm_coprime by blast
qed

lemma unit_pos: "coprime x m \<Longrightarrow> 1 < m \<Longrightarrow> 0 \<le> x \<Longrightarrow> 0 < (x :: int)"
  by (cases "x = 0") auto

lemma cipher_range:
  assumes "valid_key p q k" and "coprime r (pl_n k)"
  shows "0 < cipher k m r \<and> cipher k m r < pl_n2 k"
proof -
  have "0 \<le> cipher k m r" "cipher k m r < pl_n2 k"
    using valid_key_n [OF assms(1)] by (simp_all add: cipher_def)
  with cipher_unit [OF assms] valid_key_n [OF assms(1)] unit_pos show ?thesis
    by blast
qed

text \<open>The blinding factor matters modulo \<open>n\<close> only.\<close>

lemma cipher_blinding:
  assumes "valid_key p q k" and "eqm (pl_n k) r r'"
  shows "cipher k m r = cipher k m r'"
proof -
  have "eqm (pl_n2 k) (r ^ nat (pl_n k)) (r' ^ nat (pl_n k))"
    using eqm_lift [OF _ assms(2)] assms(1) valid_key_n [OF assms(1)] by (simp add: valid_key_def)
  then have "eqm (pl_n2 k) (pl_g k ^ nat m * r ^ nat (pl_n k)) (pl_g k ^ nat m * r' ^ nat (pl_n k))"
    by (rule eqm_mult [OF eqm_refl])
  then show ?thesis
    by (simp add: cipher_def eqm_mod_iff)
qed

lemma decrypt_cipher:
  assumes "valid_key p q k" and "coprime r (pl_n k)" and "0 \<le> m"
  shows "decrypt k (big_bytes (cipher k m r)) = Inr (m mod pl_n k)"
proof -
  let ?n = "pl_n k"
  let ?l = "nat (pl_lambda k)"
  have n: "1 < ?n" "pl_n2 k = ?n * ?n" "pl_g k = ?n + 1" "?n dvd pl_lambda k * pl_mu k - 1"
    using assms(1) valid_key_n by (auto simp: valid_key_def)
  have lam: "eqm ?n (r ^ ?l) 1" "0 < pl_lambda k"
    using valid_key_lambda [OF assms(1,2)] by auto
  have "eqm (?n * ?n) ((r ^ ?l) ^ nat ?n) (1 ^ nat ?n)"
    using lam(1) n(1) by (intro eqm_lift) auto
  then have blind: "eqm (?n * ?n) ((r ^ nat ?n) ^ ?l) 1"
    by (simp add: power_mult [symmetric] mult.commute)
  have "eqm (?n * ?n) (cipher k m r ^ ?l) (((?n + 1) ^ nat m * r ^ nat ?n) ^ ?l)"
    using cipher_eqm [of k m r] n by (intro eqm_intros) simp
  also have "((?n + 1) ^ nat m * r ^ nat ?n) ^ ?l = (?n + 1) ^ (nat m * ?l) * (r ^ nat ?n) ^ ?l"
    by (simp add: power_mult_distrib power_mult)
  also have "eqm (?n * ?n) \<dots> ((1 + of_nat (nat m * ?l) * ?n) * 1)"
    using blind eqm_one_plus by (intro eqm_mult)
  finally have "cipher k m r ^ ?l mod (?n * ?n) = (1 + (m * pl_lambda k) * ?n) mod (?n * ?n)"
    using assms(3) lam(2) by (simp add: eqm_mod_iff)
  then have L: "(big_exp (cipher k m r) (pl_lambda k) (pl_n2 k) - 1) div ?n = (m * pl_lambda k) mod ?n"
    using L_of_one_plus [OF n(1)] n(2) by (simp add: big_exp_def)
  have "?n dvd (m * pl_lambda k) * pl_mu k - m"
    using n(4) by (metis (no_types, opaque_lifting) dvd_mult mult.assoc mult.right_neutral right_diff_distrib')
  then have "(m * pl_lambda k mod ?n) * pl_mu k mod ?n = m mod ?n"
    by (simp add: mod_mult_left_eq mod_eq_dvd_iff)
  with L cipher_range [OF assms(1,2), of m] show ?thesis
    by (simp add: decrypt_def Let_def)
qed

lemma add_cipher:
  assumes "valid_key p q k" "coprime r (pl_n k)" "coprime s (pl_n k)" "0 \<le> m" "0 \<le> l"
  shows "he_add k (big_bytes (cipher k m r)) (big_bytes (cipher k l s)) = Inr (big_bytes (cipher k (m + l) (r * s)))"
proof -
  have "eqm (pl_n2 k) (cipher k m r * cipher k l s)
      ((pl_g k ^ nat m * r ^ nat (pl_n k)) * (pl_g k ^ nat l * s ^ nat (pl_n k)))"
    by (intro eqm_mult cipher_eqm)
  also have "(pl_g k ^ nat m * r ^ nat (pl_n k)) * (pl_g k ^ nat l * s ^ nat (pl_n k))
      = pl_g k ^ nat (m + l) * (r * s) ^ nat (pl_n k)"
    using assms by (simp add: nat_add_distrib power_add power_mult_distrib)
  finally have "cipher k m r * cipher k l s mod pl_n2 k = cipher k (m + l) (r * s)"
    by (simp add: cipher_def eqm_mod_iff)
  then show ?thesis
    using cipher_range [OF assms(1,2), of m] cipher_range [OF assms(1,3), of l] by (simp add: he_add_def Let_def)
qed

subsection \<open>The proof an honest prover makes\<close>

lemma zk_challenge_less: "1 < md \<Longrightarrow> zk_challenge ct m commit md < md"
  by (simp add: zk_challenge_def Let_def)

lemma zk_challenge_pos: "0 < md \<Longrightarrow> 0 < zk_challenge ct m commit md"
  by (simp add: zk_challenge_def Let_def) (metis order_le_less pos_mod_sign)

text \<open>
  \<open>honest_proof k c m r s\<close> is the transcript of \<open>ProveEqual\<close> for the blinding factor \<open>r\<close> and the drawn \<open>s\<close>; its challenge
  is \<open>honest_challenge\<close>.
\<close>

definition commitment :: "paillier \<Rightarrow> int \<Rightarrow> int" where
  "commitment k s = big_exp s (pl_n k) (pl_n2 k)"

definition honest_challenge :: "paillier \<Rightarrow> bytes \<Rightarrow> int \<Rightarrow> int \<Rightarrow> int" where
  "honest_challenge k ct m s = zk_challenge ct (big_bytes m) (big_bytes (commitment k s)) (pl_n k)"

definition honest_proof :: "paillier \<Rightarrow> bytes \<Rightarrow> int \<Rightarrow> int \<Rightarrow> int \<Rightarrow> zk_proof" where
  "honest_proof k ct m r s =
     \<lparr>zk_a = big_bytes (commitment k s),
      zk_z = big_bytes (big_exp r (honest_challenge k ct m s) (pl_n k) * s mod pl_n k)\<rparr>"

lemma prove_equal_honest:
  assumes "0 < set_bytes ct" "set_bytes ct < pl_n2 k" "0 \<le> m" "m < pl_n k" "0 < r" "r < pl_n k" "s \<noteq> 0"
  shows "prove_equal k ct m r (Some s) = Inr (zk_marshal (honest_proof k ct m r s))"
  using assms by (simp add: prove_equal_def honest_proof_def honest_challenge_def commitment_def Let_def)

lemma prove_equal_Inr:
  assumes "prove_equal k ct m r draw = Inr proof"
  shows "\<exists>s. draw = Some s \<and> s \<noteq> 0 \<and> 0 \<le> m \<and> m < pl_n k \<and> proof = zk_marshal (honest_proof k ct m r s)"
  using assms
  by (auto simp: prove_equal_def honest_proof_def honest_challenge_def commitment_def Let_def
           split: if_splits option.splits)

lemma response_eqm:
  assumes "valid_key p q k"
  shows "eqm (pl_n2 k) ((big_exp r e (pl_n k) * s mod pl_n k) ^ nat (pl_n k)) ((r ^ nat e * s) ^ nat (pl_n k))"
proof -
  have "eqm (pl_n k) (big_exp r e (pl_n k) * s mod pl_n k) (r ^ nat e * s)"
    by (simp add: eqm_mod_iff big_exp_def mod_mult_left_eq)
  then show ?thesis
    using eqm_lift [of "pl_n k"] valid_key_n [OF assms] assms by (simp add: valid_key_def)
qed

text \<open>The check of the verifier, freed of the inverse of \<open>g ^ m\<close>.\<close>

lemma verifier_equation:
  assumes key: "valid_key p q k" and "mod_inverse (big_exp (pl_g k) m (pl_n2 k)) (pl_n2 k) = Some gi"
    and "0 \<le> m" "0 \<le> e"
  shows "big_exp z (pl_n k) (pl_n2 k) = big_exp (c * gi mod pl_n2 k) e (pl_n2 k) * a mod pl_n2 k
     \<longleftrightarrow> eqm (pl_n2 k) (z ^ nat (pl_n k) * pl_g k ^ nat (m * e)) (c ^ nat e * a)"
proof -
  let ?n2 = "pl_n2 k" and ?gm = "pl_g k ^ nat m"
  have "eqm ?n2 (big_exp (pl_g k) m ?n2 * gi) 1"
    using mod_inverse_Some [OF _ assms(2)] valid_key_n [OF key] by (simp add: eqm_def)
  then have gi: "eqm ?n2 (gi * ?gm) 1"
    by (simp add: eqm_mod_iff big_exp_def mod_mult_left_eq mod_mult_right_eq mult.commute)
  have "coprime (?gm ^ nat e) (pl_n k)"
    using valid_key_g_coprime [OF key] by simp
  then have unit: "coprime (?gm ^ nat e) ?n2"
    using valid_key_unit_iff [OF key] by blast
  have "eqm ?n2 (big_exp (c * gi mod ?n2) e ?n2 * a) ((c * gi) ^ nat e * a)"
    by (simp add: eqm_mod_iff big_exp_def power_mod mod_mult_left_eq)
  then have "big_exp z (pl_n k) ?n2 = big_exp (c * gi mod ?n2) e ?n2 * a mod ?n2
      \<longleftrightarrow> eqm ?n2 (z ^ nat (pl_n k)) ((c * gi) ^ nat e * a)"
    by (simp add: eqm_mod_iff big_exp_def)
  also have "\<dots> \<longleftrightarrow> eqm ?n2 (z ^ nat (pl_n k) * ?gm ^ nat e) ((c * gi) ^ nat e * a * ?gm ^ nat e)"
    using eqm_cancel [OF unit] by simp
  also have "(c * gi) ^ nat e * a * ?gm ^ nat e = c ^ nat e * a * (gi * ?gm) ^ nat e"
    by (simp add: power_mult_distrib)
  also have "eqm ?n2 (z ^ nat (pl_n k) * ?gm ^ nat e) (c ^ nat e * a * (gi * ?gm) ^ nat e)
      \<longleftrightarrow> eqm ?n2 (z ^ nat (pl_n k) * ?gm ^ nat e) (c ^ nat e * a * 1 ^ nat e)"
    using eqm_mult [OF eqm_refl eqm_power [OF gi]] eqm_trans eqm_sym by blast
  finally show ?thesis
    using assms(3,4) by (simp add: power_mult [symmetric] nat_mult_distrib)
qed

text \<open>
  The transcript of an honest prover for a ciphertext of \<open>t\<close> and the public amount \<open>m\<close> is accepted exactly when \<open>n\<close>
  divides \<open>(t - m) * e\<close>.
\<close>

lemma verify_honest_iff:
  assumes key: "valid_key p q k" and r: "coprime r (pl_n k)" and s: "coprime s (pl_n k)"
    and m: "0 \<le> m" "m < pl_n k" and t: "0 \<le> t"
    and dec: "dec proof = Some (honest_proof k (big_bytes (cipher k t r)) m r s)"
  shows "verify_equal dec k (big_bytes (cipher k t r)) m proof
     \<longleftrightarrow> pl_n k dvd (t - m) * honest_challenge k (big_bytes (cipher k t r)) m s"
proof -
  let ?n = "pl_n k" and ?n2 = "pl_n2 k" and ?c = "cipher k t r"
  let ?e = "honest_challenge k (big_bytes ?c) m s"
  let ?a = "commitment k s"
  define z where "z = big_exp r ?e ?n * s mod ?n"
  have n: "1 < ?n" "1 < ?n2" and n2: "?n2 = ?n * ?n" "pl_g k = ?n + 1"
    using valid_key_n [OF key] key by (simp_all add: valid_key_def)
  have e: "0 < ?e"
    using n zk_challenge_pos by (simp add: honest_challenge_def)
  have "coprime (s ^ nat ?n) ?n"
    using s by simp
  then have su: "coprime (s ^ nat ?n) ?n2"
    using valid_key_unit_iff [OF key] by blast
  then have "coprime ?a ?n2"
    using eqm_coprime [of ?n2 ?a "s ^ nat ?n"] by (simp add: commitment_def big_exp_def)
  moreover have "0 \<le> ?a" "?a < ?n2"
    using n by (simp_all add: commitment_def big_exp_def)
  ultimately have a: "0 < ?a" "?a < ?n2"
    using n unit_pos by auto
  have "coprime (pl_g k ^ nat m) ?n2"
    using valid_key_unit_iff [OF key] valid_key_g_coprime [OF key] by (metis coprime_power_left_iff)
  then have "coprime (big_exp (pl_g k) m ?n2) ?n2"
    using eqm_coprime [of ?n2 "big_exp (pl_g k) m ?n2" "pl_g k ^ nat m"] by (simp add: big_exp_def)
  then obtain gi where gi: "mod_inverse (big_exp (pl_g k) m ?n2) ?n2 = Some gi"
    using mod_inverse_exists by blast
  have z: "\<bar>z\<bar> = z" "0 \<le> z" "z < ?n"
    using n by (simp_all add: z_def)
  have dec': "dec proof = Some \<lparr>zk_a = big_bytes ?a, zk_z = big_bytes z\<rparr>"
    using dec by (simp add: honest_proof_def z_def)
  then have "verify_equal dec k (big_bytes ?c) m proof \<longleftrightarrow>
      big_exp z ?n ?n2 = big_exp (?c * gi mod ?n2) ?e ?n2 * ?a mod ?n2"
    using cipher_range [OF key r, of t] a m dec' gi z
    by (simp add: verify_equal_def Let_def flip: honest_challenge_def)
  also have "\<dots> \<longleftrightarrow> eqm ?n2 (z ^ nat ?n * pl_g k ^ nat (m * ?e)) (?c ^ nat ?e * ?a)"
    using verifier_equation [OF key gi] m e by simp
  also have "\<dots> \<longleftrightarrow> eqm ?n2 ((r ^ nat ?e * s) ^ nat ?n * pl_g k ^ nat (m * ?e))
      ((pl_g k ^ nat t * r ^ nat ?n) ^ nat ?e * s ^ nat ?n)"
  proof -
    have 1: "eqm ?n2 (z ^ nat ?n * pl_g k ^ nat (m * ?e)) ((r ^ nat ?e * s) ^ nat ?n * pl_g k ^ nat (m * ?e))"
      unfolding z_def by (intro eqm_mult response_eqm [OF key] eqm_refl)
    have 2: "eqm ?n2 (?c ^ nat ?e * ?a) ((pl_g k ^ nat t * r ^ nat ?n) ^ nat ?e * s ^ nat ?n)"
      by (intro eqm_mult eqm_power cipher_eqm) (simp add: commitment_def big_exp_def)
    from 1 2 show ?thesis
      by (meson eqm_sym eqm_trans)
  qed
  also have "(r ^ nat ?e * s) ^ nat ?n * pl_g k ^ nat (m * ?e)
      = pl_g k ^ nat (m * ?e) * ((r ^ nat ?n) ^ nat ?e * s ^ nat ?n)"
    by (simp add: power_mult_distrib power_mult [symmetric] mult.commute mult.left_commute)
  also have "(pl_g k ^ nat t * r ^ nat ?n) ^ nat ?e * s ^ nat ?n
      = pl_g k ^ nat (t * ?e) * ((r ^ nat ?n) ^ nat ?e * s ^ nat ?n)"
    using t e by (simp add: power_mult_distrib power_mult [symmetric] nat_mult_distrib)
  also have "eqm ?n2 (pl_g k ^ nat (m * ?e) * ((r ^ nat ?n) ^ nat ?e * s ^ nat ?n))
      (pl_g k ^ nat (t * ?e) * ((r ^ nat ?n) ^ nat ?e * s ^ nat ?n))
      \<longleftrightarrow> eqm ?n2 (pl_g k ^ nat (m * ?e)) (pl_g k ^ nat (t * ?e))"
  proof (rule eqm_cancel)
    have "coprime ((r ^ nat ?n) ^ nat ?e) ?n2"
      using r valid_key_unit_iff [OF key] by (metis coprime_power_left_iff)
    with su show "coprime ((r ^ nat ?n) ^ nat ?e * s ^ nat ?n) ?n2"
      by (simp add: coprime_mult_left_iff)
  qed
  also have "\<dots> \<longleftrightarrow> eqm ?n2 (1 + (m * ?e) * ?n) (1 + (t * ?e) * ?n)"
  proof -
    have "eqm ?n2 (pl_g k ^ nat j) (1 + j * ?n)" if "0 \<le> j" for j
      using eqm_one_plus [of ?n "nat j"] that n2 by simp
    then have "eqm ?n2 (pl_g k ^ nat (m * ?e)) (1 + (m * ?e) * ?n)"
      "eqm ?n2 (pl_g k ^ nat (t * ?e)) (1 + (t * ?e) * ?n)"
      using m t e by simp_all
    then show ?thesis
      by (meson eqm_sym eqm_trans)
  qed
  also have "\<dots> \<longleftrightarrow> ?n dvd (t - m) * ?e"
  proof -
    have "m * ?e - t * ?e = - ((t - m) * ?e)"
      by (simp add: algebra_simps)
    then show ?thesis
      using eqm_one_plus_iff [of ?n "m * ?e" "t * ?e"] n n2 by (metis dvd_minus_iff not_one_less_zero)
  qed
  finally show ?thesis .
qed

subsection \<open>Restoring a key\<close>

lemma nat_bytes_length_mono: "0 \<le> a \<Longrightarrow> a \<le> b \<Longrightarrow> length (nat_bytes a) \<le> length (nat_bytes b)"
proof (induction b arbitrary: a rule: nat_bytes.induct)
  case (1 b)
  show ?case
  proof (cases "a \<le> 0")
    case True
    then show ?thesis
      by (simp add: nat_bytes.simps [of a])
  next
    case False
    then have "length (nat_bytes (a div 256)) \<le> length (nat_bytes (b div 256))"
      using "1.prems" by (intro "1.IH") (auto simp: zdiv_mono1)
    with False "1.prems" show ?thesis
      by (simp add: nat_bytes.simps [of a] nat_bytes.simps [of b])
  qed
qed

lemma div_le_self: "0 \<le> a \<Longrightarrow> 0 < b \<Longrightarrow> a div b \<le> (a :: int)"
  by (cases "b = 1") (auto intro: order_trans [OF zdiv_mono2, of _ 1 _ a])

lemma valid_key_lambda_less:
  assumes "valid_key p q k"
  shows "0 < pl_lambda k \<and> pl_lambda k < pl_n k"
proof -
  have pq: "1 < p" "1 < q" "pl_n k = p * q" "pl_lambda k = lcm_go (p - 1) (q - 1)"
    using assms is_prime_gt by (auto simp: valid_key_def)
  have "lcm_go (p - 1) (q - 1) \<le> (p - 1) * (q - 1)"
    unfolding lcm_go_def using pq by (intro div_le_self) auto
  also have "\<dots> < p * q"
    using pq by (intro mult_strict_mono) auto
  finally show ?thesis
    using pq lcm_go_dvd(3) [of "p - 1" "q - 1"] by simp
qed

text \<open>
  What a key needs to survive the checkpoint: an odd modulus of the length the code insists on, and a decryption
  constant that is the inverse of its exponent. A valid key of that size has it.
\<close>

definition restorable_key :: "paillier \<Rightarrow> bool" where
  "restorable_key k \<longleftrightarrow>
     odd (pl_n k) \<and> 1 < pl_n k \<and> pl_n2 k = pl_n k * pl_n k \<and> pl_g k = pl_n k + 1
     \<and> 0 < pl_lambda k \<and> pl_lambda k < pl_n k \<and> 0 < pl_mu k \<and> pl_mu k < pl_n k
     \<and> (pl_lambda k * pl_mu k - 1) mod pl_n k = 0
     \<and> 128 \<le> length (big_bytes (pl_n k)) \<and> length (big_bytes (pl_n k)) \<le> 1024"

lemma valid_key_restorable:
  assumes key: "valid_key p q k" and "odd (pl_n k)"
    and "128 \<le> length (big_bytes (pl_n k))" "length (big_bytes (pl_n k)) \<le> 1024"
  shows "restorable_key k"
proof -
  have n: "1 < pl_n k" and lam: "0 < pl_lambda k" "pl_lambda k < pl_n k"
    using valid_key_n [OF key] valid_key_lambda_less [OF key] by auto
  have mu: "0 \<le> pl_mu k" "pl_mu k < pl_n k" "pl_n k dvd pl_lambda k * pl_mu k - 1"
    using key unfolding valid_key_def by blast+
  have "pl_mu k \<noteq> 0"
  proof
    assume "pl_mu k = 0"
    with mu(3) n show False
      using zdvd_imp_le [of "pl_n k" 1] by simp
  qed
  with assms n lam mu show ?thesis
    by (simp add: restorable_key_def valid_key_def)
qed

lemma he_restore_private_state:
  assumes "restorable_key k"
  shows "he_restore (he_private_state k) = Inr k"
proof -
  have k: "1 < pl_n k" "0 < pl_lambda k" "pl_lambda k < pl_n k" "0 < pl_mu k" "pl_mu k < pl_n k"
    "pl_n k dvd pl_lambda k * pl_mu k - 1"
    using assms by (auto simp: restorable_key_def)
  then have "mod_inverse (pl_lambda k) (pl_n k) = Some (pl_mu k)"
    using mod_inverse_unique by simp
  moreover have "length (big_bytes (pl_lambda k)) \<le> length (big_bytes (pl_n k))"
    "length (big_bytes (pl_mu k)) \<le> length (big_bytes (pl_n k))"
    using k by (simp_all add: big_bytes_def nat_bytes_length_mono)
  ultimately show ?thesis
    using assms k by (simp add: he_restore_def he_private_state_def Let_def restorable_key_def)
qed

subsection \<open>Properties of the scheme\<close>

text \<open>A small key, for examples.\<close>

definition ex_key :: paillier where
  "ex_key = \<lparr>pl_n = 35, pl_n2 = 1225, pl_g = 36, pl_lambda = 12, pl_mu = 3\<rparr>"

lemma ex_key_generated: "new_paillier [(Some 5, Some 7)] = Some (Inr ex_key)"
  by code_simp

lemma ex_key_valid: "valid_key 5 7 ex_key"
  by code_simp

lemma encrypt_Inr: "encrypt k m (Some r) = Inr ct \<Longrightarrow> 0 \<le> m \<and> m < pl_n k \<and> ct = big_bytes (cipher k m r)"
  by (auto simp: encrypt_def cipher_def big_exp_def Let_def mod_mult_eq split: if_splits)

text \<open>
  C26. Decryption inverts encryption and addition adds: under a key made of two primes, what was encrypted is what decrypts,
  for every drawn unit, and the sum of two ciphertexts decrypts to the sum of the plaintexts modulo \<open>n\<close>.
\<close>

theorem paillier_adds:
  assumes "valid_key p q k" and "encrypt k m (Some r) = Inr a" and "encrypt k l (Some s) = Inr b"
    and "coprime r (pl_n k)" and "coprime s (pl_n k)"
  shows "decrypt k a = Inr m \<and> (\<exists>c. he_add k a b = Inr c \<and> decrypt k c = Inr ((m + l) mod pl_n k))"
proof -
  have m: "0 \<le> m" "m < pl_n k" "coprime r (pl_n k)" "a = big_bytes (cipher k m r)"
    and l: "0 \<le> l" "coprime s (pl_n k)" "b = big_bytes (cipher k l s)"
    using encrypt_Inr [OF assms(2)] encrypt_Inr [OF assms(3)] assms(4,5) by auto
  then have "he_add k a b = Inr (big_bytes (cipher k (m + l) (r * s)))"
    using assms(1) by (simp add: add_cipher)
  with m l assms(1) show ?thesis
    by (simp add: decrypt_cipher)
qed

theorem paillier_adds_witness:
  "\<exists>a b c. encrypt ex_key 30 (Some 2) = Inr a \<and> encrypt ex_key 9 (Some 3) = Inr b \<and> he_add ex_key a b = Inr c
     \<and> decrypt ex_key c = Inr 4"
proof -
  obtain a b where "encrypt ex_key 30 (Some 2) = Inr a" "encrypt ex_key 9 (Some 3) = Inr b"
    by (simp add: encrypt_def ex_key_def Let_def)
  moreover have "coprime 2 (pl_n ex_key)" "coprime 3 (pl_n ex_key)"
    by code_simp+
  ultimately show ?thesis
    using paillier_adds [OF ex_key_valid] by (fastforce simp: ex_key_def)
qed

text \<open>
  The key generator is sound: whenever its loop returns a key from draws that are primes of the requested size, the key
  is made of two distinct primes of that size, \<open>mu\<close> inverts \<open>lambda\<close> modulo \<open>n\<close>, and such a key with an odd modulus of a
  length the checkpoint accepts survives the checkpoint.
\<close>

theorem key_generation_sound:
  assumes "new_paillier ds = Some (Inr k)" and "draws_from is_prime ds"
  shows "(\<exists>p q. valid_key p q k) \<and> (pl_lambda k * pl_mu k) mod pl_n k = 1
    \<and> (odd (pl_n k) \<and> length (big_bytes (pl_n k)) \<in> {128..1024} \<longrightarrow> he_restore (he_private_state k) = Inr k)"
proof -
  obtain p q where key: "valid_key p q k"
    using new_paillier_primes [OF assms(1), of 0] assms(2) is_prime_gt by (fastforce simp: draws_from_def)
  then have "pl_n k dvd pl_lambda k * pl_mu k - 1"
    unfolding valid_key_def by blast
  then have "(pl_lambda k * pl_mu k) mod pl_n k = 1"
    using valid_key_n [OF key] mod_eq_dvd_iff [of "pl_lambda k * pl_mu k" "pl_n k" 1] by simp
  with key show ?thesis
    using valid_key_restorable he_restore_private_state by fastforce
qed

theorem key_generation_sound_witness:
  "new_paillier [(Some 5, Some 5), (Some 5, Some 7)] = Some (Inr ex_key) \<and> (pl_lambda ex_key * pl_mu ex_key) mod pl_n ex_key = 1"
proof -
  have "is_prime 5" "is_prime 7"
    by code_simp+
  then have "draws_from is_prime [(Some 5, Some 5), (Some 5, Some 7)]"
    by (simp add: draws_from_def)
  moreover have "new_paillier [(Some 5, Some 5), (Some 5, Some 7)] = Some (Inr ex_key)"
    by code_simp
  ultimately show ?thesis
    using key_generation_sound by blast
qed

end
