(* ===== verification/Enc_Ledger.thy ===== *)
theory Enc_Ledger
  imports Paillier
begin

text \<open>
  The encrypted ledger of \<open>internal/settle\<close> (\<open>encsum.go\<close>, \<open>checkpoint.go\<close>): it encrypts positive lock amounts, keeps the
  blinding factor of each lock, aggregates ciphertexts, and proves that the aggregate encrypts the committed
  amount. The lemmas relate a ledger and its locks to the plaintext amounts that were sealed, and show that the
  equality proof succeeds exactly when those amounts sum to the committed one.
\<close>

subsection \<open>The ledger\<close>

record ledger =
  lg_p :: paillier
  lg_rs :: "int list"

definition new_ledger :: "(int option \<times> int option) list \<Rightarrow> (go_error + ledger) option" where
  "new_ledger ds = (case new_paillier ds of
       None \<Rightarrow> None
     | Some (Inl e) \<Rightarrow> Some (Inl (Wrapf ''settle: %w'' [] e))
     | Some (Inr k) \<Rightarrow> Some (Inr \<lparr>lg_p = k, lg_rs = []\<rparr>))"

text \<open>
  \<open>SealLock\<close>: at most eight draws, each skipped when the reader fails, the value is zero or not a unit, or the
  encryption is refused.
\<close>

fun seal_attempts :: "paillier \<Rightarrow> int \<Rightarrow> int option list \<Rightarrow> (bytes \<times> int) option" where
  "seal_attempts k m [] = None"
| "seal_attempts k m (None # ds) = seal_attempts k m ds"
| "seal_attempts k m (Some r # ds) =
     (if r = 0 then seal_attempts k m ds
      else if gcd r (he_N k) \<noteq> 1 then seal_attempts k m ds
      else case encrypt_with_r k m r of
          Inl e \<Rightarrow> seal_attempts k m ds
        | Inr ct \<Rightarrow> Some (ct, r))"

definition seal_lock :: "ledger \<Rightarrow> i64 \<Rightarrow> (nat \<Rightarrow> int option) \<Rightarrow> ledger \<times> (go_error + bytes)" where
  "seal_lock l amount draw =
     (if sint amount \<le> 0 then (l, Inl ErrBadLock)
      else case seal_attempts (lg_p l) (sint amount) (map draw [0..<8]) of
          None \<Rightarrow> (l, Inl ErrBadLock)
        | Some (ct, r) \<Rightarrow> (l\<lparr>lg_rs := lg_rs l @ [r]\<rparr>, Inr ct))"

fun add_all :: "paillier \<Rightarrow> bytes \<Rightarrow> bytes list \<Rightarrow> go_error + bytes" where
  "add_all k sm [] = Inr sm"
| "add_all k sm (c # cs) =
     (case he_add k sm c of
        Inl e \<Rightarrow> Inl (Wrapf ''settle: aggregate: %w'' [] e)
      | Inr sm' \<Rightarrow> add_all k sm' cs)"

definition aggregate :: "ledger \<Rightarrow> bytes list \<Rightarrow> go_error + bytes" where
  "aggregate l sealed = (case sealed of [] \<Rightarrow> Inl ErrNoLocks | c # cs \<Rightarrow> add_all (lg_p l) c cs)"

text \<open>\<open>total.Int64()\<close> is the low 64 bits of the total, which \<open>IsInt64\<close> says are all of it.\<close>

definition release :: "ledger \<Rightarrow> bytes \<Rightarrow> i64 \<Rightarrow> go_error + int" where
  "release l sealed_sum committed =
     (case decrypt (lg_p l) sealed_sum of
        Inl e \<Rightarrow> Inl (Wrapf ''settle: release: %w'' [] e)
      | Inr tot \<Rightarrow>
          if tot \<le> 0 then Inl ErrBadSum
          else if \<not> (- (2 ^ 63) \<le> tot \<and> tot < 2 ^ 63) \<or> (word_of_int tot :: i64) \<noteq> committed
            then Inl (Wrapf ''%w: got %s want %d'' [itoa tot, itoa (sint committed)] ErrSumMismatch)
          else Inr tot)"

definition blinding :: "int \<Rightarrow> int list \<Rightarrow> int" where
  "blinding n rs = foldl (\<lambda>r ri. r * ri mod n) 1 rs"

definition ledger_prove_equal :: "ledger \<Rightarrow> bytes \<Rightarrow> i64 \<Rightarrow> int option \<Rightarrow> go_error + bytes" where
  "ledger_prove_equal l sealed_sum committed draw =
     (if lg_rs l = [] then Inl ErrNoLocks
      else prove_equal (lg_p l) sealed_sum (sint committed) (blinding (he_N (lg_p l)) (lg_rs l)) draw)"

definition ledger_verify_equal :: "(bytes \<Rightarrow> zk_proof option) \<Rightarrow> ledger \<Rightarrow> bytes \<Rightarrow> i64 \<Rightarrow> bytes \<Rightarrow> bool" where
  "ledger_verify_equal dec l sealed_sum committed proof =
     verify_equal dec (lg_p l) sealed_sum (sint committed) proof"

text \<open>\<open>Clone\<close> copies the randomness; values are not shared here, so the copy is the record itself.\<close>

definition ledger_clone :: "ledger \<Rightarrow> ledger" where
  "ledger_clone l = \<lparr>lg_p = lg_p l, lg_rs = map (\<lambda>r. r) (lg_rs l)\<rparr>"

subsection \<open>Checkpoints\<close>

record ledger_state =
  ls_key :: he_state
  ls_randomness :: "bytes list"

definition ledger_private_state :: "ledger \<Rightarrow> ledger_state" where
  "ledger_private_state l = \<lparr>ls_key = he_private_state (lg_p l), ls_randomness = map big_bytes (lg_rs l)\<rparr>"

abbreviation bad_randomness :: go_error where
  "bad_randomness \<equiv> Errorf ''settle: invalid checkpoint randomness'' []"

fun restore_randomness :: "nat \<Rightarrow> int \<Rightarrow> bytes list \<Rightarrow> go_error + int list" where
  "restore_randomness len n [] = Inr []"
| "restore_randomness len n (b # bs) =
     (if length b > len then Inl bad_randomness
      else let r = set_bytes b in
        if r \<le> 0 \<or> r \<ge> n \<or> gcd r n \<noteq> 1 then Inl bad_randomness
        else case restore_randomness len n bs of Inl e \<Rightarrow> Inl e | Inr rs \<Rightarrow> Inr (r # rs))"

definition ledger_restore :: "ledger_state \<Rightarrow> go_error + ledger" where
  "ledger_restore s =
     (case he_restore (ls_key s) of
        Inl e \<Rightarrow> Inl e
      | Inr k \<Rightarrow>
          if length (ls_randomness s) > 128 then Inl (Errorf ''settle: too many checkpoint locks'' [])
          else (case restore_randomness (length (hs_N (ls_key s))) (he_N k) (ls_randomness s) of
              Inl e \<Rightarrow> Inl e
            | Inr rs \<Rightarrow> Inr \<lparr>lg_p = k, lg_rs = rs\<rparr>))"

subsection \<open>What a sealed ledger stands for\<close>

text \<open>
  \<open>sealed_as l locks ms\<close>: the locks are the ciphertexts of the positive amounts \<open>ms\<close>, one for each blinding factor
  of the ledger, in order.
\<close>

definition unit_factor :: "int \<Rightarrow> int \<Rightarrow> bool" where
  "unit_factor n r \<longleftrightarrow> 0 < r \<and> r < n \<and> coprime r n"

definition sealed_as :: "ledger \<Rightarrow> bytes list \<Rightarrow> int list \<Rightarrow> bool" where
  "sealed_as l locks ms \<longleftrightarrow>
     length ms = length (lg_rs l) \<and> locks = map2 (\<lambda>m r. big_bytes (cipher (lg_p l) m r)) ms (lg_rs l)
     \<and> (\<forall>r \<in> set (lg_rs l). unit_factor (pl_n (lg_p l)) r) \<and> (\<forall>m \<in> set ms. 0 < m)"

lemma ledger_clone_id [simp]: "ledger_clone l = l"
  by (simp add: ledger_clone_def)

lemma sealed_as_empty [simp]: "sealed_as \<lparr>lg_p = k, lg_rs = []\<rparr> [] []"
  by (simp add: sealed_as_def)

lemma sealed_as_lengths:
  assumes "sealed_as l locks ms"
  shows "length locks = length ms" "length (lg_rs l) = length ms" "locks = [] \<longleftrightarrow> lg_rs l = []"
  using assms by (auto simp: sealed_as_def)

lemma seal_attempts_Some:
  "seal_attempts k m ds = Some (ct, r) \<Longrightarrow> unit_factor (pl_n k) r \<and> 0 \<le> m \<and> ct = big_bytes (cipher k m r)"
  by (induction k m ds rule: seal_attempts.induct)
    (auto simp: unit_factor_def split: if_splits sum.splits dest: encrypt_with_r_Inr)

lemma seal_lock_Inr:
  assumes "seal_lock l amount draw = (l', Inr ct)"
  shows "0 < sint amount \<and> (\<exists>r. unit_factor (pl_n (lg_p l)) r \<and> l' = l\<lparr>lg_rs := lg_rs l @ [r]\<rparr>
           \<and> ct = big_bytes (cipher (lg_p l) (sint amount) r))"
  using assms seal_attempts_Some
  by (fastforce simp: seal_lock_def split: if_splits option.splits)

lemma seal_lock_Inl: "seal_lock l amount draw = (l', Inl e) \<Longrightarrow> l' = l \<and> e = ErrBadLock"
  by (auto simp: seal_lock_def split: if_splits option.splits)

lemma seal_lock_sealed_as:
  assumes "seal_lock l amount draw = (l', Inr ct)" and "sealed_as l locks ms"
  shows "sealed_as l' (locks @ [ct]) (ms @ [sint amount]) \<and> lg_p l' = lg_p l"
  using seal_lock_Inr [OF assms(1)] assms(2) by (auto simp: sealed_as_def)

text \<open>A first draw that is a unit seals a positive amount below the modulus.\<close>

lemma seal_lock_succeeds:
  assumes "0 < sint amount" "sint amount < pl_n (lg_p l)" "draw 0 = Some r" "unit_factor (pl_n (lg_p l)) r"
  shows "seal_lock l amount draw
       = (l\<lparr>lg_rs := lg_rs l @ [r]\<rparr>, Inr (big_bytes (cipher (lg_p l) (sint amount) r)))"
proof -
  have "map draw [0..<8] = Some r # map draw [1..<8]"
    using assms(3) by (simp add: upt_conv_Cons)
  then show ?thesis
    using assms
    by (simp add: seal_lock_def he_N_def unit_factor_def encrypt_with_r_ok coprime_iff_gcd_eq_1 [symmetric]
        split: option.split)
qed

subsection \<open>Aggregation\<close>

lemma blinding_eqm: "eqm n (blinding n rs) (prod_list rs)"
proof -
  have "eqm n (foldl (\<lambda>r ri. r * ri mod n) a rs) (a * prod_list rs)" for a
  proof (induction rs arbitrary: a)
    case (Cons r rs)
    have "eqm n (foldl (\<lambda>r ri. r * ri mod n) (a * r mod n) rs) (a * r mod n * prod_list rs)"
      by (rule Cons.IH)
    also have "eqm n (a * r mod n * prod_list rs) (a * r * prod_list rs)"
      by (rule eqm_mult [OF eqm_mod eqm_refl])
    finally show ?case
      by (simp add: mult.assoc)
  qed simp
  from this [of 1] show ?thesis
    by (simp add: blinding_def)
qed

lemma units_prod_list: "\<forall>r \<in> set rs. unit_factor n r \<Longrightarrow> coprime (prod_list rs) n"
  by (induction rs) (auto simp: unit_factor_def)

lemma blinding_unit:
  assumes "\<forall>r \<in> set rs. unit_factor n r" and "1 < n"
  shows "unit_factor n (blinding n rs)"
proof -
  have cop: "coprime (blinding n rs) n"
    using blinding_eqm eqm_coprime units_prod_list [OF assms(1)] by blast
  have range: "0 \<le> blinding n rs \<and> blinding n rs < n"
    using assms(2) by (cases rs rule: rev_cases) (simp_all add: blinding_def)
  with cop assms(2) unit_pos show ?thesis
    by (auto simp: unit_factor_def)
qed

lemma add_all_cipher:
  assumes "valid_key p q k" "coprime s (pl_n k)" "0 \<le> m"
    and "\<forall>r \<in> set rs. unit_factor (pl_n k) r" "\<forall>x \<in> set ms. 0 < x" "length ms = length rs"
  shows "add_all k (big_bytes (cipher k m s)) (map2 (\<lambda>m r. big_bytes (cipher k m r)) ms rs)
       = Inr (big_bytes (cipher k (m + sum_list ms) (s * prod_list rs)))"
  using assms(6) assms(1-5)
proof (induction ms rs arbitrary: m s rule: list_induct2)
  case (Cons x ms r rs)
  then have "coprime r (pl_n k)" "0 < x"
    by (auto simp: unit_factor_def)
  with Cons show ?case
    by (simp add: add_cipher add.assoc mult.assoc)
qed simp

lemma aggregate_sealed:
  assumes key: "valid_key p q (lg_p l)" and seal: "sealed_as l locks ms" and "locks \<noteq> []"
  shows "aggregate l locks = Inr (big_bytes (cipher (lg_p l) (sum_list ms) (blinding (pl_n (lg_p l)) (lg_rs l))))"
proof -
  obtain m ms' r rs' where ms: "ms = m # ms'" and rs: "lg_rs l = r # rs'"
    using seal assms(3) by (cases ms; cases "lg_rs l") (auto simp: sealed_as_def)
  have "aggregate l locks = Inr (big_bytes (cipher (lg_p l) (m + sum_list ms') (r * prod_list rs')))"
    using seal ms rs add_all_cipher [OF key, of r m rs' ms']
    by (simp add: aggregate_def sealed_as_def unit_factor_def)
  moreover have "cipher (lg_p l) (sum_list ms) (blinding (pl_n (lg_p l)) (lg_rs l))
      = cipher (lg_p l) (sum_list ms) (prod_list (lg_rs l))"
    using key blinding_eqm by (rule cipher_blinding)
  ultimately show ?thesis
    using ms rs by simp
qed

subsection \<open>Settling\<close>

text \<open>
  The code's accept decision: prove that the aggregate encrypts the committed amount and verify the proof. It
  says yes exactly when \<open>n\<close> divides the difference of the sums times the challenge.
\<close>

lemma settle_decision:
  assumes key: "valid_key p q (lg_p l)" and seal: "sealed_as l locks ms" and ne: "locks \<noteq> []"
    and agg: "aggregate l locks = Inr sm" and c: "0 \<le> sint committed" "sint committed < pl_n (lg_p l)"
    and s: "unit_factor (pl_n (lg_p l)) s" and dec: "\<And>pf. dec (zk_marshal pf) = Some pf"
  shows "\<exists>proof. ledger_prove_equal l sm committed (Some s) = Inr proof
     \<and> (ledger_verify_equal dec l sm committed proof
        \<longleftrightarrow> pl_n (lg_p l) dvd (sum_list ms - sint committed) * honest_challenge (lg_p l) sm (sint committed) s)"
proof -
  let ?k = "lg_p l"
  let ?r = "blinding (pl_n ?k) (lg_rs l)"
  have r: "unit_factor (pl_n ?k) ?r"
    using seal valid_key_n [OF key] by (intro blinding_unit) (auto simp: sealed_as_def)
  have sm: "sm = big_bytes (cipher ?k (sum_list ms) ?r)"
    using aggregate_sealed [OF key seal ne] agg by simp
  have range: "0 < set_bytes sm" "set_bytes sm < pl_n2 ?k"
    using cipher_range [OF key, of ?r "sum_list ms"] r sm by (auto simp: unit_factor_def)
  have "ledger_prove_equal l sm committed (Some s) = Inr (zk_marshal (honest_proof ?k sm (sint committed) ?r s))"
    using sealed_as_lengths [OF seal] ne range c r s
    by (simp add: ledger_prove_equal_def he_N_def prove_equal_honest unit_factor_def)
  moreover have "0 \<le> sum_list ms"
    using seal by (auto simp: sealed_as_def intro!: sum_list_nonneg)
  ultimately show ?thesis
    using verify_honest_iff [OF key, of ?r s "sint committed" "sum_list ms" dec] c r s dec
    by (auto simp: ledger_verify_equal_def sm unit_factor_def)
qed

text \<open>
  The challenge lies strictly between 0 and \<open>n\<close>. When the two sums differ by less than either prime, the primes of \<open>n\<close>
  would both have to divide the challenge, so the decision is exact. No bound on the hash is needed.
\<close>

lemma settle_decision_exact:
  assumes key: "valid_key p q (lg_p l)" and d: "\<bar>x - c\<bar> < p" "\<bar>x - c\<bar> < q"
  shows "pl_n (lg_p l) dvd (x - c) * honest_challenge (lg_p l) sm m s \<longleftrightarrow> x = c"
proof -
  let ?n = "pl_n (lg_p l)"
  let ?e = "honest_challenge (lg_p l) sm m s"
  have n: "1 < ?n" "?n = p * q" "is_prime p" "is_prime q" "p \<noteq> q"
    using key valid_key_n by (auto simp: valid_key_def)
  have e: "0 < ?e" "?e < ?n"
    unfolding honest_challenge_def using n(1) zk_challenge_pos zk_challenge_less by auto
  have "x = c" if "?n dvd (x - c) * ?e"
  proof (rule ccontr)
    assume "x \<noteq> c"
    have "r dvd ?e" if "is_prime r" "\<bar>x - c\<bar> < r" "r dvd ?n" for r
    proof -
      have "coprime (x - c) r"
        using is_prime_coprime_less [OF that(1), of "\<bar>x - c\<bar>"] that(2) \<open>x \<noteq> c\<close> by simp
      moreover have "r dvd (x - c) * ?e"
        using that(3) \<open>?n dvd (x - c) * ?e\<close> dvd_trans by blast
      ultimately show ?thesis
        by (simp add: coprime_commute coprime_dvd_mult_right_iff)
    qed
    then have "p dvd ?e" "q dvd ?e"
      using n d by auto
    then have "?n dvd ?e"
      using n by (simp add: divides_mult distinct_primes_coprime)
    with e show False
      using zdvd_not_zless by blast
  qed
  then show ?thesis
    by auto
qed

lemma release_sealed:
  assumes "valid_key p q (lg_p l)" "sealed_as l locks ms" "locks \<noteq> []" "aggregate l locks = Inr sm"
    and "sum_list ms < pl_n (lg_p l)"
  shows "decrypt (lg_p l) sm = Inr (sum_list ms)"
proof -
  let ?r = "blinding (pl_n (lg_p l)) (lg_rs l)"
  have "unit_factor (pl_n (lg_p l)) ?r"
    using assms(2) valid_key_n [OF assms(1)] by (intro blinding_unit) (auto simp: sealed_as_def)
  moreover have "0 \<le> sum_list ms"
    using assms(2) by (auto simp: sealed_as_def intro!: sum_list_nonneg)
  ultimately show ?thesis
    using aggregate_sealed [OF assms(1-3)] assms(4,5) decrypt_cipher [OF assms(1), of ?r "sum_list ms"]
    by (auto simp: unit_factor_def)
qed

subsection \<open>Restoring a ledger\<close>

lemma restore_randomness_ok:
  assumes "\<forall>r \<in> set rs. unit_factor n r" and "len = length (big_bytes n)"
  shows "restore_randomness len n (map big_bytes rs) = Inr rs"
  using assms
  by (induction rs) (auto simp: Let_def unit_factor_def coprime_iff_gcd_eq_1 big_bytes_def set_nat_bytes not_less
      intro!: nat_bytes_length_mono)

lemma ledger_restore_private_state:
  assumes "restorable_key (lg_p l)" "\<forall>r \<in> set (lg_rs l). unit_factor (pl_n (lg_p l)) r" "length (lg_rs l) \<le> 128"
  shows "ledger_restore (ledger_private_state l) = Inr l"
  using he_restore_private_state [OF assms(1)] assms(2,3)
    restore_randomness_ok [OF assms(2), of "length (big_bytes (pl_n (lg_p l)))"]
  by (simp add: ledger_restore_def ledger_private_state_def he_N_def) (simp add: he_private_state_def)

lemma restored_key:
  assumes "he_restore (he_private_state k) = Inr k"
  shows "restorable_key k"
proof -
  have k: "pl_n k = \<bar>pl_n k\<bar>" "pl_lambda k = \<bar>pl_lambda k\<bar>" "pl_mu k = \<bar>pl_mu k\<bar>"
    "pl_n2 k = pl_n k * pl_n k" "pl_g k = pl_n k + 1" "odd (pl_n k)" "0 < pl_lambda k" "pl_lambda k < pl_n k"
    "0 < pl_mu k" "pl_mu k < pl_n k" "mod_inverse (pl_lambda k) (pl_n k) = Some (pl_mu k)"
    "128 \<le> length (big_bytes (pl_n k))" "length (big_bytes (pl_n k)) \<le> 1024"
    using assms by (cases k; auto simp: he_restore_def he_private_state_def Let_def split: if_splits option.splits)+
  then have "pl_n k dvd pl_lambda k * pl_mu k - 1"
    using mod_inverse_Some by auto
  with k show ?thesis
    by (auto simp: restorable_key_def)
qed

lemma ledger_restored_key: "ledger_restore (ledger_private_state l) = Inr l \<Longrightarrow> restorable_key (lg_p l)"
  by (rule restored_key) (auto simp: ledger_restore_def ledger_private_state_def split: if_splits sum.splits)

subsection \<open>Properties of the ledger\<close>

text \<open>A sequence of \<open>SealLock\<close> calls; the locks are the ciphertexts of the calls that succeed.\<close>

fun seal_all :: "ledger \<Rightarrow> (i64 \<times> (nat \<Rightarrow> int option)) list \<Rightarrow> ledger \<times> bytes list \<times> int list" where
  "seal_all l [] = (l, [], [])"
| "seal_all l ((x, draw) # xs) =
     (case seal_lock l x draw of
        (l', Inl e) \<Rightarrow> seal_all l' xs
      | (l', Inr ct) \<Rightarrow> (case seal_all l' xs of (l'', cts, ms) \<Rightarrow> (l'', ct # cts, sint x # ms)))"

lemma seal_all_sealed_as:
  "seal_all l xs = (l', cts, ms) \<Longrightarrow> sealed_as l locks ns \<Longrightarrow> sealed_as l' (locks @ cts) (ns @ ms) \<and> lg_p l' = lg_p l"
proof (induction l xs arbitrary: l' cts ms locks ns rule: seal_all.induct)
  case (2 l x draw xs)
  obtain l1 r where r: "seal_lock l x draw = (l1, r)"
    by fastforce
  show ?case
  proof (cases r)
    case (Inl e)
    with 2(3) r have "seal_all l1 xs = (l', cts, ms)" "l1 = l"
      using seal_lock_Inl by auto
    with 2(1) [OF r [symmetric]] Inl 2(4) show ?thesis
      by blast
  next
    case (Inr ct)
    obtain l2 cts2 ms2 where rest: "seal_all l1 xs = (l2, cts2, ms2)"
      by (metis prod_cases3)
    with 2(3) r Inr have out: "l' = l2" "cts = ct # cts2" "ms = sint x # ms2"
      by auto
    have "sealed_as l1 (locks @ [ct]) (ns @ [sint x])" "lg_p l1 = lg_p l"
      using seal_lock_sealed_as 2(4) r Inr by auto
    with 2(2) [OF r [symmetric] Inr rest] out show ?thesis
      by fastforce
  qed
qed auto

text \<open>
  C27. The aggregate holds the sum: after any \<open>SealLock\<close> calls on a new ledger the key owner's \<open>Release\<close> of the aggregate
  returns the sum of the sealed amounts when it is the committed one and \<open>ErrSumMismatch\<close> otherwise, as long as the sum
  is under the modulus; a sum that is no \<open>int64\<close> is never taken for the committed amount its low bits show.
\<close>

theorem release_returns_sum:
  assumes "valid_key p q k" and "seal_all \<lparr>lg_p = k, lg_rs = []\<rparr> xs = (l, locks, ms)" and "locks \<noteq> []"
    and "sum_list ms < pl_n k"
  shows "\<exists>sm. aggregate l locks = Inr sm \<and> release l sm c =
    (if sum_list ms = sint c then Inr (sum_list ms)
     else Inl (Wrapf ''%w: got %s want %d'' [itoa (sum_list ms), itoa (sint c)] ErrSumMismatch))"
proof -
  have seal: "sealed_as l locks ms" and key: "lg_p l = k"
    using seal_all_sealed_as [OF assms(2), of "[]" "[]"] by auto
  obtain sm where sm: "aggregate l locks = Inr sm"
    using aggregate_sealed [OF _ seal assms(3)] assms(1) key by blast
  have "decrypt (lg_p l) sm = Inr (sum_list ms)"
    using release_sealed [OF _ seal assms(3) sm] assms(1,4) key by simp
  moreover have "0 < sum_list ms"
  proof -
    have pos: "\<forall>m \<in> set ms. 0 < m" and "ms \<noteq> []"
      using seal assms(3) sealed_as_lengths [OF seal] by (auto simp: sealed_as_def)
    then obtain m ms' where ms: "ms = m # ms'"
      by (cases ms) auto
    then have "0 \<le> sum_list ms'" "0 < m"
      using pos by (auto intro!: sum_list_nonneg simp: less_imp_le)
    then show ?thesis
      by (simp add: ms)
  qed
  moreover have "(word_of_int t :: i64) = c \<longleftrightarrow> t = sint c" if "- (2 ^ 63) \<le> t" "t < 2 ^ 63" for t
    using that signed_take_bit_int_eq_self [of 63 t] by (auto simp: sint_sbintrunc')
  moreover have "- (2 ^ 63) \<le> sint c" "sint c < 2 ^ 63"
    using sint_ge [of c] sint_lt [of c] by simp_all
  ultimately show ?thesis
    using sm by (auto simp: release_def)
qed

theorem release_returns_sum_witness:
  "\<exists>l locks sm. seal_all \<lparr>lg_p = ex_key, lg_rs = []\<rparr> [(3, \<lambda>i. Some 2), (0, \<lambda>i. Some 2), (4, \<lambda>i. Some 3)] = (l, locks, [3, 4])
     \<and> aggregate l locks = Inr sm \<and> release l sm 7 = Inr 7"
proof -
  have unit: "unit_factor 35 2" "unit_factor 35 3"
    by code_simp+
  then have "seal_lock \<lparr>lg_p = ex_key, lg_rs = []\<rparr> 3 (\<lambda>i. Some 2)
      = (\<lparr>lg_p = ex_key, lg_rs = [2]\<rparr>, Inr (big_bytes (cipher ex_key 3 2)))"
    by (subst seal_lock_succeeds) (simp_all add: ex_key_def)
  moreover have "seal_lock \<lparr>lg_p = ex_key, lg_rs = [2]\<rparr> 4 (\<lambda>i. Some 3)
      = (\<lparr>lg_p = ex_key, lg_rs = [2, 3]\<rparr>, Inr (big_bytes (cipher ex_key 4 3)))"
    using unit by (subst seal_lock_succeeds) (simp_all add: ex_key_def)
  moreover have "seal_lock l 0 draw = (l, Inl ErrBadLock)" for l draw
    by (simp add: seal_lock_def)
  ultimately have all: "seal_all \<lparr>lg_p = ex_key, lg_rs = []\<rparr> [(3, \<lambda>i. Some 2), (0, \<lambda>i. Some 2), (4, \<lambda>i. Some 3)]
      = (\<lparr>lg_p = ex_key, lg_rs = [2, 3]\<rparr>, [big_bytes (cipher ex_key 3 2), big_bytes (cipher ex_key 4 3)], [3, 4])"
    by simp
  from release_returns_sum [OF ex_key_valid all, of 7] all show ?thesis
    by (simp add: ex_key_def)
qed

end
