(* ===== verification/Agreement.thy ===== *)
theory Agreement
  imports Kernel_Types Enc_Ledger
begin

text \<open>
  The bilateral agreement of \<open>internal/nexum\<close> (\<open>agreement.go\<close>, \<open>room.go\<close>, \<open>token.go\<close>): its state, the two
  constructors, every operation on the plain and the sealed path, and the dispatcher \<open>Apply\<close>. An operation returns the
  agreement as the call leaves it and the error. \<open>rnd\<close> is what the successive reads of \<open>crypto/rand\<close> inside one call
  return; \<open>dec\<close> is the JSON decoder of equality proofs.
\<close>

subsection \<open>State\<close>

record agreement =
  ag_id :: string
  ag_kind :: string
  ag_buyer :: party
  ag_seller :: party
  ag_amount :: i64
  ag_unit :: token_unit
  ag_status :: status
  ag_meter :: meter
  ag_deadline :: go_time
  ag_created_at :: go_time
  ag_locked_at :: "go_time option"
  ag_closed_at :: "go_time option"
  ag_released_to :: party
  ag_receipts :: "receipt list"
  ag_sealed :: "ledger option"
  ag_sealed_locks :: "bytes list"
  ag_sealed_sum :: bytes
  ag_steps :: int

type_synonym randomness = "nat \<Rightarrow> int option"
type_synonym proof_decoder = "bytes \<Rightarrow> zk_proof option"

definition kind_house_escrow :: string where
  "kind_house_escrow = ''escrow.house''"

definition ag_terminal :: "agreement \<Rightarrow> bool" where
  "ag_terminal a = (case ag_status a of
      StatusAccepted \<Rightarrow> True | StatusRejected \<Rightarrow> True | StatusExpired \<Rightarrow> True | _ \<Rightarrow> False)"

definition ag_append :: "agreement \<Rightarrow> party \<Rightarrow> string \<Rightarrow> string \<Rightarrow> go_time \<Rightarrow> agreement outcome" where
  "ag_append a actor action note now =
     (if ag_steps a \<ge> max_steps (ag_meter a) then fail a ErrDoS
      else if over_budget (ag_meter a) then fail a ErrBudget
      else ok (a\<lparr>ag_receipts := ag_receipts a @ [new_receipt (ag_id a) (ag_receipts a) actor action note now],
                 ag_steps := ag_steps a + 1\<rparr>))"

subsection \<open>Opening\<close>

definition open_agreement_with ::
  "string \<Rightarrow> string \<Rightarrow> party \<Rightarrow> party \<Rightarrow> i64 \<Rightarrow> meter \<Rightarrow> go_time \<Rightarrow> string \<Rightarrow> go_error + agreement" where
  "open_agreement_with aid kind buyer seller amount meter now note =
     (if buyer = [] \<or> seller = [] then Inl ErrMissingParty
      else if buyer = seller then Inl ErrSameParty
      else if sint amount \<le> 0 then Inl ErrZeroAmount
      else let m1 = (if max_steps meter \<le> 0 then meter\<lparr>mt_max_steps := 8\<rparr> else meter);
               m2 = (if mt_effort m1 = [] then m1\<lparr>mt_effort := ''flash''\<rparr> else m1);
               a = \<lparr>ag_id = aid, ag_kind = kind, ag_buyer = buyer, ag_seller = seller, ag_amount = amount,
                    ag_unit = \<lparr>un_symbol = []\<rparr>, ag_status = StatusOpen, ag_meter = m2, ag_deadline = 0,
                    ag_created_at = now, ag_locked_at = None, ag_closed_at = None, ag_released_to = [],
                    ag_receipts = [], ag_sealed = None, ag_sealed_locks = [], ag_sealed_sum = [], ag_steps = 0\<rparr>
           in case ag_append a buyer ''open'' note now of
                (a', None) \<Rightarrow> Inr a'
              | (a', Some e) \<Rightarrow> Inl e)"

definition open_escrow :: "string \<Rightarrow> party \<Rightarrow> party \<Rightarrow> i64 \<Rightarrow> meter \<Rightarrow> go_time \<Rightarrow> go_error + agreement" where
  "open_escrow aid buyer seller amount meter now =
     open_agreement_with aid kind_house_escrow buyer seller amount meter now ''escrow opened''"

definition open_agreement ::
  "string \<Rightarrow> string \<Rightarrow> party \<Rightarrow> party \<Rightarrow> i64 \<Rightarrow> meter \<Rightarrow> go_time \<Rightarrow> go_error + agreement" where
  "open_agreement aid kind buyer seller amount meter now =
     (if kind = [] then Inl (Errorf ''nexum: agreement kind required'' [])
      else open_agreement_with aid kind buyer seller amount meter now ''agreement opened'')"

subsection \<open>The plain path\<close>

definition ag_lock :: "agreement \<Rightarrow> party \<Rightarrow> go_time \<Rightarrow> agreement outcome" where
  "ag_lock a actor now =
     (if actor \<noteq> ag_buyer a then fail a ErrWrongParty
      else if ag_status a \<noteq> StatusOpen then
        (if ag_terminal a then fail a ErrTakeback else fail a ErrBadState)
      else and_then (ag_append a actor ''lock'' ''value locked'' now) (\<lambda>a.
        ok (a\<lparr>ag_locked_at := Some now, ag_status := StatusLocked\<rparr>)))"

definition is_sealed :: "agreement \<Rightarrow> bool" where
  "is_sealed a \<longleftrightarrow> ag_sealed a \<noteq> None"

text \<open>
  \<open>acceptSealed\<close>: the accept decision on ciphertext. The equality proof is made and checked before the receipt is
  appended; every failure returns before the agreement changes.
\<close>

definition accept_sealed ::
  "proof_decoder \<Rightarrow> randomness \<Rightarrow> ledger \<Rightarrow> agreement \<Rightarrow> party \<Rightarrow> go_time \<Rightarrow> agreement outcome" where
  "accept_sealed dec rnd l a actor now =
     (if actor \<noteq> ag_seller a then fail a ErrWrongParty
      else if ag_terminal a then fail a ErrTakeback
      else if ag_status a \<noteq> StatusLocked \<or> ag_sealed_locks a = [] then fail a ErrBadState
      else case ledger_prove_equal l (ag_sealed_sum a) (ag_amount a) (rnd 0) of
          Inl e \<Rightarrow> fail a e
        | Inr proof \<Rightarrow>
            if \<not> ledger_verify_equal dec l (ag_sealed_sum a) (ag_amount a) proof
            then fail a (Wrapf ''%w: equality proof rejected on ciphertext'' [] ErrSumMismatch)
            else and_then (ag_append a actor ''accept''
                (''sealed sum == committed '' @ itoa (sint (ag_amount a))
                 @ '' via zk equality proof (no decrypt); proof: '' @ base64_encode proof) now) (\<lambda>a.
              ok (a\<lparr>ag_closed_at := Some now, ag_released_to := ag_seller a, ag_status := StatusAccepted,
                    ag_sealed_sum := []\<rparr>)))"

definition ag_accept :: "proof_decoder \<Rightarrow> randomness \<Rightarrow> agreement \<Rightarrow> party \<Rightarrow> go_time \<Rightarrow> agreement outcome" where
  "ag_accept dec rnd a actor now =
     (case ag_sealed a of
        Some l \<Rightarrow> accept_sealed dec rnd l a actor now
      | None \<Rightarrow>
          if actor \<noteq> ag_seller a then fail a ErrWrongParty
          else if ag_status a \<noteq> StatusLocked then
            (if ag_terminal a then fail a ErrTakeback else fail a ErrBadState)
          else and_then (ag_append a actor ''accept'' ''released to seller'' now) (\<lambda>a.
            ok (a\<lparr>ag_closed_at := Some now, ag_released_to := ag_seller a, ag_status := StatusAccepted\<rparr>)))"

definition reject_sealed :: "agreement \<Rightarrow> party \<Rightarrow> go_time \<Rightarrow> agreement outcome" where
  "reject_sealed a actor now =
     (if actor \<noteq> ag_seller a then fail a ErrWrongParty
      else if ag_terminal a then fail a ErrTakeback
      else if ag_status a \<noteq> StatusLocked then fail a ErrBadState
      else and_then (ag_append a actor ''reject'' ''returned to buyer (sum stays sealed)'' now) (\<lambda>a.
        ok (a\<lparr>ag_closed_at := Some now, ag_released_to := ag_buyer a, ag_status := StatusRejected\<rparr>)))"

definition ag_reject :: "agreement \<Rightarrow> party \<Rightarrow> go_time \<Rightarrow> agreement outcome" where
  "ag_reject a actor now =
     (if is_sealed a then reject_sealed a actor now
      else if actor \<noteq> ag_seller a then fail a ErrWrongParty
      else if ag_status a \<noteq> StatusLocked then
        (if ag_terminal a then fail a ErrTakeback else fail a ErrBadState)
      else and_then (ag_append a actor ''reject'' ''returned to buyer'' now) (\<lambda>a.
        ok (a\<lparr>ag_closed_at := Some now, ag_released_to := ag_buyer a, ag_status := StatusRejected\<rparr>)))"

definition set_deadline :: "agreement \<Rightarrow> party \<Rightarrow> go_time \<Rightarrow> go_time \<Rightarrow> agreement outcome" where
  "set_deadline a actor deadline now =
     (if actor \<noteq> ag_buyer a \<and> actor \<noteq> ag_seller a then fail a ErrWrongParty
      else if ag_terminal a then fail a ErrTakeback
      else if \<not> deadline > now then fail a ErrNotYet
      else and_then (ag_append a actor ''deadline'' (format_rfc3339 deadline) now) (\<lambda>a.
        ok (a\<lparr>ag_deadline := deadline\<rparr>)))"

definition ag_expire :: "agreement \<Rightarrow> party \<Rightarrow> go_time \<Rightarrow> agreement outcome" where
  "ag_expire a actor now =
     (if actor \<noteq> ag_buyer a \<and> actor \<noteq> ag_seller a then fail a ErrWrongParty
      else if ag_status a \<noteq> StatusOpen \<and> ag_status a \<noteq> StatusLocked then fail a ErrTakeback
      else if is_zero_time (ag_deadline a) then fail a ErrNoDeadline
      else if now < ag_deadline a then fail a ErrNotYet
      else and_then (ag_append a actor ''expire'' ''deadline passed, value unlocked'' now) (\<lambda>a.
        ok (a\<lparr>ag_closed_at := Some now, ag_released_to := ag_buyer a, ag_status := StatusExpired\<rparr>)))"

definition ag_note :: "agreement \<Rightarrow> party \<Rightarrow> string \<Rightarrow> string \<Rightarrow> go_time \<Rightarrow> agreement outcome" where
  "ag_note a actor action citation now =
     (if actor \<noteq> ag_buyer a \<and> actor \<noteq> ag_seller a then fail a ErrWrongParty
      else if ag_terminal a then fail a ErrTakeback
      else if citation = [] then fail a ErrEmptyCitation
      else if action \<noteq> ''evidence'' then fail a (Errorf ''nexum: note action must be evidence, got %q'' [action])
      else and_then (ag_append a actor action citation now) ok)"

text \<open>\<open>AcceptWithEvidence\<close> works on a copy and stores it back only when both steps succeed.\<close>

definition accept_with_evidence ::
  "proof_decoder \<Rightarrow> randomness \<Rightarrow> agreement \<Rightarrow> party \<Rightarrow> party \<Rightarrow> string \<Rightarrow> go_time \<Rightarrow> agreement outcome" where
  "accept_with_evidence dec rnd a author actor citation now =
     (case ag_note a author ''evidence'' citation now of
        (next, Some e) \<Rightarrow> fail a e
      | (next, None) \<Rightarrow>
          (case ag_accept dec rnd next actor now of
             (next', Some e) \<Rightarrow> fail a e
           | (next', None) \<Rightarrow> ok next'))"

definition ag_verify_receipts :: "agreement \<Rightarrow> go_error option" where
  "ag_verify_receipts a = verify_receipts (ag_id a) (ag_receipts a)"

subsection \<open>The sealed path and the room dispatcher\<close>

text \<open>\<open>sealLock\<close> works on a clone of the ledger and commits only after encryption, aggregation and the receipt.\<close>

definition ag_seal_lock :: "randomness \<Rightarrow> agreement \<Rightarrow> party \<Rightarrow> i64 \<Rightarrow> go_time \<Rightarrow> agreement outcome" where
  "ag_seal_lock rnd a actor partial now =
     (if actor \<noteq> ag_buyer a then fail a ErrWrongParty
      else if ag_terminal a then fail a ErrTakeback
      else case ag_sealed a of
          None \<Rightarrow> fail a ErrNoSeal
        | Some l0 \<Rightarrow>
            (case seal_lock (ledger_clone l0) partial rnd of
               (l, Inl e) \<Rightarrow> fail a e
             | (l, Inr ct) \<Rightarrow>
                 (case aggregate l (ag_sealed_locks a @ [ct]) of
                    Inl e \<Rightarrow> fail a e
                  | Inr sm \<Rightarrow>
                      and_then (ag_append a actor ''seal'' (base64_encode ct) now) (\<lambda>a.
                        ok (a\<lparr>ag_sealed := Some l, ag_sealed_locks := ag_sealed_locks a @ [ct],
                              ag_sealed_sum := sm, ag_status := StatusLocked, ag_locked_at := Some now\<rparr>)))))"

text \<open>\<open>StartSealed\<close>: the key generator draws primes until it has a key; \<open>None\<close> while it is still running.\<close>

definition start_sealed :: "agreement \<Rightarrow> (int option \<times> int option) list \<Rightarrow> agreement outcome option" where
  "start_sealed a ds =
     (if ag_status a \<noteq> StatusOpen then Some (fail a ErrBadState)
      else case new_ledger ds of
          None \<Rightarrow> None
        | Some (Inl e) \<Rightarrow> Some (fail a e)
        | Some (Inr l) \<Rightarrow> Some (ok (a\<lparr>ag_sealed := Some l\<rparr>)))"

definition takeback :: "agreement \<Rightarrow> party \<Rightarrow> go_time \<Rightarrow> go_error option" where
  "takeback a actor now =
     (if ag_terminal a then Some ErrTakeback
      else if ag_status a = StatusLocked \<and> actor = ag_buyer a then Some ErrTakeback
      else Some ErrBadState)"

record move =
  mv_actor :: party
  mv_action :: string
  mv_partial :: i64

definition ag_apply :: "proof_decoder \<Rightarrow> randomness \<Rightarrow> agreement \<Rightarrow> move \<Rightarrow> go_time \<Rightarrow> agreement outcome" where
  "ag_apply dec rnd a m now =
     (if mv_action m = ''lock'' then ag_lock a (mv_actor m) now
      else if mv_action m = ''seal'' then ag_seal_lock rnd a (mv_actor m) (mv_partial m) now
      else if mv_action m = ''accept'' then ag_accept dec rnd a (mv_actor m) now
      else if mv_action m = ''reject'' then ag_reject a (mv_actor m) now
      else if mv_action m = ''takeback'' then
        (case takeback a (mv_actor m) now of
           None \<Rightarrow> fail a (Errorf (''nexum: takeback succeeded '' @ [CHR 0xE2, CHR 0x80, CHR 0x94] @ '' kernel broken'') [])
         | Some e \<Rightarrow> fail a e)
      else fail a (Errorf ''nexum: unknown action %q'' [mv_action m]))"

subsection \<open>Units\<close>

definition token_nex :: string where
  "token_nex = ''NEX''"

definition with_unit :: "agreement option \<Rightarrow> string \<Rightarrow> agreement option" where
  "with_unit a symbol =
     (case a of
        None \<Rightarrow> None
      | Some a \<Rightarrow> Some (if symbol \<noteq> [] then a\<lparr>ag_unit := \<lparr>un_symbol = symbol\<rparr>\<rparr> else a))"

definition requires_token :: "agreement option \<Rightarrow> bool" where
  "requires_token a = (case a of None \<Rightarrow> False | Some a \<Rightarrow> un_symbol (ag_unit a) \<noteq> [])"

lemmas ag_ops = ag_lock_def accept_sealed_def ag_accept_def reject_sealed_def ag_reject_def set_deadline_def
  ag_expire_def ag_note_def ag_seal_lock_def

subsection \<open>Calls\<close>

text \<open>
  A call of a method that may change the agreement with everything it is given, the randomness it will draw included.
  \<open>ag_step\<close> makes the call. \<open>StartSealed\<close> carries the primes its key generator draws; while it has not returned it has
  changed nothing. \<open>WithUnit\<close> has no error and no guard: it works in every state, also in a closed agreement, and
  writes no receipt.
\<close>

datatype ag_call =
    Lock party go_time
  | Accept party go_time randomness
  | Reject party go_time
  | SetDeadline party go_time go_time
  | Expire party go_time
  | Note party string string go_time
  | AcceptWithEvidence party party string go_time randomness
  | Apply move go_time randomness
  | StartSealed "(int option \<times> int option) list"
  | WithUnit string

fun ag_step :: "proof_decoder \<Rightarrow> agreement \<Rightarrow> ag_call \<Rightarrow> agreement outcome" where
  "ag_step dec a (Lock p t) = ag_lock a p t"
| "ag_step dec a (Accept p t rnd) = ag_accept dec rnd a p t"
| "ag_step dec a (Reject p t) = ag_reject a p t"
| "ag_step dec a (SetDeadline p d t) = set_deadline a p d t"
| "ag_step dec a (Expire p t) = ag_expire a p t"
| "ag_step dec a (Note p act cit t) = ag_note a p act cit t"
| "ag_step dec a (AcceptWithEvidence author p cit t rnd) = accept_with_evidence dec rnd a author p cit t"
| "ag_step dec a (Apply m t rnd) = ag_apply dec rnd a m t"
| "ag_step dec a (StartSealed ds) =
     (case start_sealed a ds of
        None \<Rightarrow> fail a (Errorf ''key generation has not returned'' [])
      | Some out \<Rightarrow> out)"
| "ag_step dec a (WithUnit symbol) = ok (case with_unit (Some a) symbol of None \<Rightarrow> a | Some a' \<Rightarrow> a')"

text \<open>The party a call acts for; \<open>StartSealed\<close> and \<open>WithUnit\<close> have none.\<close>

fun call_actor :: "ag_call \<Rightarrow> party" where
  "call_actor (Lock p t) = p"
| "call_actor (Accept p t rnd) = p"
| "call_actor (Reject p t) = p"
| "call_actor (SetDeadline p d t) = p"
| "call_actor (Expire p t) = p"
| "call_actor (Note p act cit t) = p"
| "call_actor (AcceptWithEvidence author p cit t rnd) = p"
| "call_actor (Apply m t rnd) = mv_actor m"
| "call_actor (StartSealed ds) = []"
| "call_actor (WithUnit symbol) = []"

text \<open>What an agreement is worth in, before and after a call.\<close>

fun call_unit :: "ag_call \<Rightarrow> token_unit \<Rightarrow> token_unit" where
  "call_unit (WithUnit symbol) u = (if symbol = [] then u else \<lparr>un_symbol = symbol\<rparr>)"
| "call_unit _ u = u"

fun is_with_unit :: "ag_call \<Rightarrow> bool" where
  "is_with_unit (WithUnit symbol) = True"
| "is_with_unit _ = False"

lemma ag_step_with_unit:
  "ag_step dec a (WithUnit symbol) = ok (a\<lparr>ag_unit := call_unit (WithUnit symbol) (ag_unit a)\<rparr>)"
  by (simp add: with_unit_def)

subsection \<open>Appending\<close>

definition can_append :: "agreement \<Rightarrow> bool" where
  "can_append a \<longleftrightarrow> ag_steps a < max_steps (ag_meter a) \<and> \<not> over_budget (ag_meter a)"

definition pushed :: "agreement \<Rightarrow> party \<Rightarrow> string \<Rightarrow> string \<Rightarrow> go_time \<Rightarrow> agreement" where
  "pushed a p act n t =
     a\<lparr>ag_receipts := ag_receipts a @ [new_receipt (ag_id a) (ag_receipts a) p act n t], ag_steps := ag_steps a + 1\<rparr>"

lemma ag_append_eq:
  "ag_append a p act n t =
     (if can_append a then ok (pushed a p act n t)
      else fail a (if ag_steps a \<ge> max_steps (ag_meter a) then ErrDoS else ErrBudget))"
  by (simp add: ag_append_def can_append_def pushed_def)

lemma pushed_fields [simp]:
  "ag_id (pushed a p act n t) = ag_id a"
  "ag_kind (pushed a p act n t) = ag_kind a"
  "ag_buyer (pushed a p act n t) = ag_buyer a"
  "ag_seller (pushed a p act n t) = ag_seller a"
  "ag_amount (pushed a p act n t) = ag_amount a"
  "ag_unit (pushed a p act n t) = ag_unit a"
  "ag_status (pushed a p act n t) = ag_status a"
  "ag_meter (pushed a p act n t) = ag_meter a"
  "ag_deadline (pushed a p act n t) = ag_deadline a"
  "ag_created_at (pushed a p act n t) = ag_created_at a"
  "ag_locked_at (pushed a p act n t) = ag_locked_at a"
  "ag_closed_at (pushed a p act n t) = ag_closed_at a"
  "ag_released_to (pushed a p act n t) = ag_released_to a"
  "ag_sealed (pushed a p act n t) = ag_sealed a"
  "ag_sealed_locks (pushed a p act n t) = ag_sealed_locks a"
  "ag_sealed_sum (pushed a p act n t) = ag_sealed_sum a"
  "ag_receipts (pushed a p act n t) = ag_receipts a @ [new_receipt (ag_id a) (ag_receipts a) p act n t]"
  "ag_steps (pushed a p act n t) = ag_steps a + 1"
  by (simp_all add: pushed_def)

lemma ag_terminal_iff: "ag_terminal a \<longleftrightarrow> ag_status a \<in> {StatusAccepted, StatusRejected, StatusExpired}"
  by (cases "ag_status a") (simp_all add: ag_terminal_def)

subsection \<open>What a successful call does\<close>

text \<open>
  Each operation, seen from its success: the guards that held and the state it leaves. Everything below is derived
  from these rules and from \<open>ag_step_error\<close>.
\<close>

lemma ag_lock_ok:
  assumes "ag_lock a p t = (a', None)"
  shows "p = ag_buyer a \<and> ag_status a = StatusOpen \<and> can_append a
    \<and> a' = (pushed a p ''lock'' ''value locked'' t)\<lparr>ag_locked_at := Some t, ag_status := StatusLocked\<rparr>"
  using assms by (auto simp: ag_lock_def and_then_def ag_append_eq split: if_splits)

lemma ag_accept_ok:
  assumes "ag_accept dec rnd a p t = (a', None)"
  shows "p = ag_seller a \<and> ag_status a = StatusLocked \<and> can_append a
    \<and> (\<exists>n. a' = (pushed a p ''accept'' n t)\<lparr>ag_closed_at := Some t, ag_released_to := ag_seller a,
            ag_status := StatusAccepted, ag_sealed_sum := (if is_sealed a then [] else ag_sealed_sum a)\<rparr>)
    \<and> (\<forall>l. ag_sealed a = Some l \<longrightarrow> ag_sealed_locks a \<noteq> []
        \<and> (\<exists>proof. ledger_prove_equal l (ag_sealed_sum a) (ag_amount a) (rnd 0) = Inr proof
             \<and> ledger_verify_equal dec l (ag_sealed_sum a) (ag_amount a) proof))"
proof (cases "ag_sealed a")
  case None
  with assms show ?thesis
    by (auto simp: ag_accept_def is_sealed_def and_then_def ag_append_eq split: if_splits
        intro!: exI [of _ "''released to seller''"] agreement.equality)
next
  case (Some l)
  with assms show ?thesis
    by (auto simp: ag_accept_def accept_sealed_def is_sealed_def and_then_def ag_append_eq
        split: if_splits sum.splits)
qed

lemma ag_reject_ok:
  assumes "ag_reject a p t = (a', None)"
  shows "p = ag_seller a \<and> ag_status a = StatusLocked \<and> can_append a
    \<and> (\<exists>n. a' = (pushed a p ''reject'' n t)\<lparr>ag_closed_at := Some t, ag_released_to := ag_buyer a,
            ag_status := StatusRejected\<rparr>)"
  using assms
  by (auto simp: ag_reject_def reject_sealed_def and_then_def ag_append_eq split: if_splits)

lemma set_deadline_ok:
  assumes "set_deadline a p d t = (a', None)"
  shows "p \<in> {ag_buyer a, ag_seller a} \<and> \<not> ag_terminal a \<and> t < d \<and> can_append a
    \<and> a' = (pushed a p ''deadline'' (format_rfc3339 d) t)\<lparr>ag_deadline := d\<rparr>"
  using assms by (auto simp: set_deadline_def and_then_def ag_append_eq split: if_splits)

lemma ag_expire_ok:
  assumes "ag_expire a p t = (a', None)"
  shows "p \<in> {ag_buyer a, ag_seller a} \<and> ag_status a \<in> {StatusOpen, StatusLocked} \<and> ag_deadline a \<noteq> 0
    \<and> ag_deadline a \<le> t \<and> can_append a
    \<and> a' = (pushed a p ''expire'' ''deadline passed, value unlocked'' t)\<lparr>ag_closed_at := Some t,
            ag_released_to := ag_buyer a, ag_status := StatusExpired\<rparr>"
  using assms by (auto simp: ag_expire_def is_zero_time_def and_then_def ag_append_eq split: if_splits)

lemma ag_note_ok:
  assumes "ag_note a p act cit t = (a', None)"
  shows "p \<in> {ag_buyer a, ag_seller a} \<and> \<not> ag_terminal a \<and> cit \<noteq> [] \<and> act = ''evidence'' \<and> can_append a
    \<and> a' = pushed a p act cit t"
  using assms by (auto simp: ag_note_def and_then_def ag_append_eq split: if_splits)

lemma ag_seal_lock_ok:
  assumes "ag_seal_lock rnd a p x t = (a', None)"
  shows "p = ag_buyer a \<and> \<not> ag_terminal a \<and> can_append a
    \<and> (\<exists>l0 l ct sm. ag_sealed a = Some l0 \<and> seal_lock l0 x rnd = (l, Inr ct)
        \<and> aggregate l (ag_sealed_locks a @ [ct]) = Inr sm
        \<and> a' = (pushed a p ''seal'' (base64_encode ct) t)\<lparr>ag_sealed := Some l,
              ag_sealed_locks := ag_sealed_locks a @ [ct], ag_sealed_sum := sm, ag_status := StatusLocked,
              ag_locked_at := Some t\<rparr>)"
  using assms
  by (auto simp: ag_seal_lock_def and_then_def ag_append_eq split: if_splits option.splits prod.splits sum.splits)

lemma accept_with_evidence_ok:
  assumes "accept_with_evidence dec rnd a author p cit t = (a', None)"
  shows "\<exists>n. ag_note a author ''evidence'' cit t = (n, None) \<and> ag_accept dec rnd n p t = (a', None)"
  using assms by (auto simp: accept_with_evidence_def split: prod.splits option.splits)

lemma start_sealed_ok:
  assumes "start_sealed a ds = Some (a', None)"
  shows "ag_status a = StatusOpen \<and> (\<exists>l. new_ledger ds = Some (Inr l) \<and> a' = a\<lparr>ag_sealed := Some l\<rparr>)"
  using assms by (auto simp: start_sealed_def split: if_splits option.splits sum.splits)

lemma ag_apply_ok:
  assumes "ag_apply dec rnd a m t = (a', None)"
  shows "ag_lock a (mv_actor m) t = (a', None) \<and> mv_action m = ''lock''
    \<or> ag_seal_lock rnd a (mv_actor m) (mv_partial m) t = (a', None) \<and> mv_action m = ''seal''
    \<or> ag_accept dec rnd a (mv_actor m) t = (a', None) \<and> mv_action m = ''accept''
    \<or> ag_reject a (mv_actor m) t = (a', None) \<and> mv_action m = ''reject''"
  using assms by (auto simp: ag_apply_def split: if_splits option.splits)

subsection \<open>A call that fails changes nothing\<close>

lemma ag_ops_error:
  "ag_lock a p t = (a', Some e) \<Longrightarrow> a' = a"
  "ag_accept dec rnd a p t = (a', Some e) \<Longrightarrow> a' = a"
  "ag_reject a p t = (a', Some e) \<Longrightarrow> a' = a"
  "set_deadline a p d t = (a', Some e) \<Longrightarrow> a' = a"
  "ag_expire a p t = (a', Some e) \<Longrightarrow> a' = a"
  "ag_note a p act cit t = (a', Some e) \<Longrightarrow> a' = a"
  "ag_seal_lock rnd a p x t = (a', Some e) \<Longrightarrow> a' = a"
  "accept_with_evidence dec rnd a author p cit t = (a', Some e) \<Longrightarrow> a' = a"
  by (auto simp: ag_ops accept_with_evidence_def and_then_def ag_append_eq
      split: if_splits option.splits sum.splits prod.splits)

lemma ag_apply_error: "ag_apply dec rnd a m t = (a', Some e) \<Longrightarrow> a' = a"
  by (auto simp: ag_apply_def dest: ag_ops_error split: if_splits option.splits)

lemma start_sealed_error: "start_sealed a ds = Some (a', Some e) \<Longrightarrow> a' = a"
  by (auto simp: start_sealed_def split: if_splits option.splits sum.splits)

lemma ag_step_error: "ag_step dec a c = (a', Some e) \<Longrightarrow> a' = a"
  by (cases c) (auto dest: ag_ops_error ag_apply_error start_sealed_error split: option.splits)

subsection \<open>The agreement as an event system\<close>

text \<open>
  A successful call is one event, two for \<open>AcceptWithEvidence\<close>. The relation \<open>ag_move\<close> keeps of each operation the
  guards and the state it leaves, the invariants below are proved over it by rule induction, and \<open>run_moves\<close> shows
  that every sequence of calls of the code is a sequence of events.
\<close>

datatype event =
  EvLock | EvAccept | EvReject | EvDeadline | EvExpire | EvNote | EvSeal int | EvStart "(int option \<times> int option) list"
  | EvUnit

inductive ag_move :: "agreement \<Rightarrow> event \<Rightarrow> agreement \<Rightarrow> bool" where
  lock: "ag_status a = StatusOpen \<Longrightarrow> can_append a \<Longrightarrow>
    ag_move a EvLock ((pushed a (ag_buyer a) ''lock'' ''value locked'' t)\<lparr>ag_locked_at := Some t, ag_status := StatusLocked\<rparr>)"
| accept: "ag_status a = StatusLocked \<Longrightarrow> can_append a \<Longrightarrow> (is_sealed a \<Longrightarrow> ag_sealed_locks a \<noteq> []) \<Longrightarrow>
    ag_move a EvAccept ((pushed a (ag_seller a) ''accept'' n t)\<lparr>ag_closed_at := Some t, ag_released_to := ag_seller a,
      ag_status := StatusAccepted, ag_sealed_sum := (if is_sealed a then [] else ag_sealed_sum a)\<rparr>)"
| reject: "ag_status a = StatusLocked \<Longrightarrow> can_append a \<Longrightarrow>
    ag_move a EvReject ((pushed a (ag_seller a) ''reject'' n t)\<lparr>ag_closed_at := Some t, ag_released_to := ag_buyer a,
      ag_status := StatusRejected\<rparr>)"
| deadline: "p \<in> {ag_buyer a, ag_seller a} \<Longrightarrow> \<not> ag_terminal a \<Longrightarrow> t < d \<Longrightarrow> can_append a \<Longrightarrow>
    ag_move a EvDeadline ((pushed a p ''deadline'' (format_rfc3339 d) t)\<lparr>ag_deadline := d\<rparr>)"
| expire: "p \<in> {ag_buyer a, ag_seller a} \<Longrightarrow> ag_status a \<in> {StatusOpen, StatusLocked} \<Longrightarrow> ag_deadline a \<noteq> 0 \<Longrightarrow>
    ag_deadline a \<le> t \<Longrightarrow> can_append a \<Longrightarrow>
    ag_move a EvExpire ((pushed a p ''expire'' ''deadline passed, value unlocked'' t)\<lparr>ag_closed_at := Some t,
      ag_released_to := ag_buyer a, ag_status := StatusExpired\<rparr>)"
| evidence: "p \<in> {ag_buyer a, ag_seller a} \<Longrightarrow> \<not> ag_terminal a \<Longrightarrow> cit \<noteq> [] \<Longrightarrow> can_append a \<Longrightarrow>
    ag_move a EvNote (pushed a p ''evidence'' cit t)"
| seal: "\<not> ag_terminal a \<Longrightarrow> can_append a \<Longrightarrow> ag_sealed a = Some l0 \<Longrightarrow> seal_lock l0 x rnd = (l, Inr ct) \<Longrightarrow>
    aggregate l (ag_sealed_locks a @ [ct]) = Inr sm \<Longrightarrow>
    ag_move a (EvSeal (sint x)) ((pushed a (ag_buyer a) ''seal'' (base64_encode ct) t)\<lparr>ag_sealed := Some l,
      ag_sealed_locks := ag_sealed_locks a @ [ct], ag_sealed_sum := sm, ag_status := StatusLocked,
      ag_locked_at := Some t\<rparr>)"
| start: "ag_status a = StatusOpen \<Longrightarrow> new_ledger ds = Some (Inr l) \<Longrightarrow> ag_move a (EvStart ds) (a\<lparr>ag_sealed := Some l\<rparr>)"
| unit: "ag_move a EvUnit (a\<lparr>ag_unit := u\<rparr>)"

inductive ag_moves :: "agreement \<Rightarrow> event list \<Rightarrow> agreement \<Rightarrow> bool" for a where
  none: "ag_moves a [] a"
| more: "ag_moves a evs b \<Longrightarrow> ag_move b ev c \<Longrightarrow> ag_moves a (evs @ [ev]) c"

inductive_cases ag_moveE: "ag_move a ev b"

lemma ag_moves_one: "ag_move a ev b \<Longrightarrow> ag_moves a [ev] b"
  using ag_moves.more [OF ag_moves.none] by simp

lemma ag_moves_trans: "ag_moves b es c \<Longrightarrow> ag_moves a evs b \<Longrightarrow> ag_moves a (evs @ es) c"
proof (induction rule: ag_moves.induct)
  case (more es d ev c)
  then show ?case
    using ag_moves.more [of a "evs @ es" d ev c] by simp
qed simp

text \<open>The events of a call, by what it returned.\<close>

fun call_events :: "ag_call \<Rightarrow> event list" where
  "call_events (Lock p t) = [EvLock]"
| "call_events (Accept p t rnd) = [EvAccept]"
| "call_events (Reject p t) = [EvReject]"
| "call_events (SetDeadline p d t) = [EvDeadline]"
| "call_events (Expire p t) = [EvExpire]"
| "call_events (Note p act cit t) = [EvNote]"
| "call_events (AcceptWithEvidence author p cit t rnd) = [EvNote, EvAccept]"
| "call_events (Apply m t rnd) =
     (if mv_action m = ''lock'' then [EvLock] else if mv_action m = ''seal'' then [EvSeal (sint (mv_partial m))]
      else if mv_action m = ''accept'' then [EvAccept] else if mv_action m = ''reject'' then [EvReject] else [])"
| "call_events (StartSealed ds) = [EvStart ds]"
| "call_events (WithUnit symbol) = [EvUnit]"

fun run_events :: "proof_decoder \<Rightarrow> agreement \<Rightarrow> ag_call list \<Rightarrow> event list" where
  "run_events dec a [] = []"
| "run_events dec a (c # cs) =
     (case ag_step dec a c of
        (a', None) \<Rightarrow> call_events c @ run_events dec a' cs
      | (a', Some e) \<Rightarrow> run_events dec a' cs)"

lemma op_move:
  "ag_lock a p t = (a', None) \<Longrightarrow> ag_move a EvLock a'"
  "ag_accept dec rnd a p t = (a', None) \<Longrightarrow> ag_move a EvAccept a'"
  "ag_reject a p t = (a', None) \<Longrightarrow> ag_move a EvReject a'"
  "set_deadline a p d t = (a', None) \<Longrightarrow> ag_move a EvDeadline a'"
  "ag_expire a p t = (a', None) \<Longrightarrow> ag_move a EvExpire a'"
  "ag_note a p act cit t = (a', None) \<Longrightarrow> ag_move a EvNote a'"
  "ag_seal_lock rnd a p x t = (a', None) \<Longrightarrow> ag_move a (EvSeal (sint x)) a'"
  "start_sealed a ds = Some (a', None) \<Longrightarrow> ag_move a (EvStart ds) a'"
proof -
  show "ag_accept dec rnd a p t = (a', None) \<Longrightarrow> ag_move a EvAccept a'"
  proof (drule ag_accept_ok, elim conjE exE)
    fix n
    assume guards: "ag_status a = StatusLocked" "can_append a" and
      sealed: "\<forall>l. ag_sealed a = Some l \<longrightarrow> ag_sealed_locks a \<noteq> []
        \<and> (\<exists>proof. ledger_prove_equal l (ag_sealed_sum a) (ag_amount a) (rnd 0) = Inr proof
             \<and> ledger_verify_equal dec l (ag_sealed_sum a) (ag_amount a) proof)" and
      a': "a' = (pushed a p ''accept'' n t)\<lparr>ag_closed_at := Some t, ag_released_to := ag_seller a,
            ag_status := StatusAccepted, ag_sealed_sum := (if is_sealed a then [] else ag_sealed_sum a)\<rparr>" and
      p: "p = ag_seller a"
    have "is_sealed a \<Longrightarrow> ag_sealed_locks a \<noteq> []"
      using sealed by (auto simp: is_sealed_def)
    with guards show "ag_move a EvAccept a'"
      unfolding a' p by (rule ag_move.accept)
  qed
qed (auto dest!: ag_lock_ok ag_reject_ok set_deadline_ok ag_expire_ok ag_note_ok ag_seal_lock_ok start_sealed_ok
    intro: ag_move.intros)

lemma ag_step_moves:
  assumes "ag_step dec a c = (a', None)"
  shows "ag_moves a (call_events c) a'"
proof (cases c)
  case (AcceptWithEvidence author p cit t rnd)
  with assms obtain n where "ag_note a author ''evidence'' cit t = (n, None)" "ag_accept dec rnd n p t = (a', None)"
    by (auto dest: accept_with_evidence_ok)
  then have "ag_move a EvNote n" "ag_move n EvAccept a'"
    by (auto intro: op_move(2) op_move(6))
  with AcceptWithEvidence show ?thesis
    using ag_moves.more [OF ag_moves_one] by simp
next
  case (Apply m t rnd)
  with assms have "ag_apply dec rnd a m t = (a', None)"
    by simp
  from ag_apply_ok [OF this] Apply show ?thesis
    by (elim disjE conjE) (simp_all add: ag_moves_one op_move)
next
  case (StartSealed ds)
  with assms have "start_sealed a ds = Some (a', None)"
    by (simp split: option.splits)
  with StartSealed show ?thesis
    by (simp add: ag_moves_one op_move)
next
  case (WithUnit symbol)
  with assms have "a' = a\<lparr>ag_unit := call_unit c (ag_unit a)\<rparr>"
    unfolding WithUnit ag_step_with_unit by simp
  with WithUnit show ?thesis
    by (simp add: ag_moves_one ag_move.unit)
qed (use assms op_move in \<open>simp_all add: ag_moves_one\<close>)

lemma run_moves: "ag_moves a (run_events dec a cs) (run (ag_step dec) a cs)"
proof (induction cs arbitrary: a)
  case (Cons c cs)
  obtain a' r where c: "ag_step dec a c = (a', r)"
    by fastforce
  show ?case
  proof (cases r)
    case None
    with c Cons [of a'] show ?thesis
      using ag_moves_trans ag_step_moves by simp
  next
    case (Some e)
    with c have "a' = a"
      using ag_step_error by simp
    with Some c Cons [of a'] show ?thesis
      by simp
  qed
qed (simp add: ag_moves.none)

subsection \<open>The agreement as a ledger machine\<close>

interpretation ag_log: receipt_log ag_id ag_receipts ag_append
  by unfold_locales (auto simp: ag_append_eq split: if_splits)

lemma ag_move_grows: "ag_move a ev b \<Longrightarrow> log_grows (ag_id a) (ag_receipts a) (ag_receipts b) \<and> ag_id b = ag_id a"
  by (induction rule: ag_move.induct) auto

lemma ag_moves_grows: "ag_moves a evs b \<Longrightarrow> log_grows (ag_id a) (ag_receipts a) (ag_receipts b) \<and> ag_id b = ag_id a"
proof (induction rule: ag_moves.induct)
  case (more evs b ev c)
  with ag_move_grows [OF more.hyps(2)] log_grows_trans show ?case
    by metis
qed simp

lemma ag_step_grows:
  assumes "ag_step dec a c = (a', r)"
  shows "log_grows (ag_id a) (ag_receipts a) (ag_receipts a') \<and> ag_id a' = ag_id a"
proof (cases r)
  case None
  with assms show ?thesis
    by (metis ag_moves_grows ag_step_moves)
next
  case (Some e)
  with assms have "a' = a"
    by (metis ag_step_error)
  then show ?thesis
    by simp
qed

text \<open>In a closed agreement only the unit can still change.\<close>

lemma ag_move_open: "ag_move a ev b \<Longrightarrow> ev \<noteq> EvUnit \<Longrightarrow> \<not> ag_terminal a"
  by (induction rule: ag_move.induct) (auto simp: ag_terminal_iff)

definition but_unit :: "agreement \<Rightarrow> agreement" where
  "but_unit a = a\<lparr>ag_unit := \<lparr>un_symbol = []\<rparr>\<rparr>"

lemma but_unit_terminal: "but_unit b = but_unit a \<Longrightarrow> ag_terminal b = ag_terminal a"
  unfolding but_unit_def ag_terminal_def by (drule arg_cong [of _ _ ag_status]) simp

lemma ag_moves_closed: "ag_moves a evs b \<Longrightarrow> ag_terminal a \<Longrightarrow> set evs \<subseteq> {EvUnit} \<and> but_unit b = but_unit a"
proof (induction rule: ag_moves.induct)
  case (more evs b ev c)
  then have b: "set evs \<subseteq> {EvUnit}" "but_unit b = but_unit a" "ag_terminal b"
    using but_unit_terminal by blast+
  then have "ev = EvUnit"
    using more.hyps(2) ag_move_open by blast
  with more.hyps(2) have "but_unit c = but_unit b"
    by (auto elim: ag_move.cases simp: but_unit_def)
  with b \<open>ev = EvUnit\<close> show ?case
    by simp
qed simp

lemma ag_step_events: "ag_step dec a c = (a', None) \<Longrightarrow> \<not> is_with_unit c \<Longrightarrow> \<not> set (call_events c) \<subseteq> {EvUnit}"
  by (cases c) (auto dest: ag_apply_ok)

lemma ag_closed_frozen: "ag_terminal a \<Longrightarrow> ag_step dec a c = (a', r) \<Longrightarrow> but_unit a' = but_unit a \<and> ag_terminal a'"
  using ag_step_moves ag_moves_closed ag_step_error but_unit_terminal by (cases r) blast+

lemma ag_closed_refuses: "ag_terminal a \<Longrightarrow> ag_step dec a c = (a', r) \<Longrightarrow> \<not> is_with_unit c \<Longrightarrow> r \<noteq> None"
  using ag_moves_closed [OF ag_step_moves [of dec a c a']] ag_step_events [of dec a c a'] by (cases r) simp_all

interpretation ag: ledger_machine ag_id ag_receipts ag_append "ag_step dec" ag_terminal but_unit for dec
proof unfold_locales
  show "ag_step dec a c = (a', r) \<Longrightarrow> log_grows (ag_id a) (ag_receipts a) (ag_receipts a') \<and> ag_id a' = ag_id a"
    for a c a' r
    by (rule ag_step_grows)
  show "ag_terminal a \<Longrightarrow> ag_step dec a c = (a', r) \<Longrightarrow> but_unit a' = but_unit a \<and> ag_terminal a'" for a c a' r
    by (rule ag_closed_frozen)
qed

end
