(* ===== verification/Agreement_Laws.thy ===== *)
theory Agreement_Laws
  imports Agreement
begin

text \<open>
  What holds of an agreement after any sequence of calls: the journal invariant (status, times and sealed locks are
  what the receipts say), the roles, the step bound, who holds the value, and for a sealed agreement the relation
  between its ciphertexts and the amounts that were sealed. The invariants are proved over the events of
  \<open>Agreement\<close>.
\<close>

subsection \<open>The journal\<close>

text \<open>
  An agreement's status, its two times and its sealed locks, rebuilt from the receipts alone: an independent reading
  of the ledger, as an auditor would make it.
\<close>

record journal =
  jn_status :: status
  jn_locked_at :: "go_time option"
  jn_closed_at :: "go_time option"
  jn_seals :: "string list"

definition replay_one :: "journal \<Rightarrow> receipt \<Rightarrow> journal" where
  "replay_one j r =
     (if r_action r = ''lock'' then j\<lparr>jn_status := StatusLocked, jn_locked_at := Some (r_at r)\<rparr>
      else if r_action r = ''seal'' then
        j\<lparr>jn_status := StatusLocked, jn_locked_at := Some (r_at r), jn_seals := jn_seals j @ [r_note r]\<rparr>
      else if r_action r = ''accept'' then j\<lparr>jn_status := StatusAccepted, jn_closed_at := Some (r_at r)\<rparr>
      else if r_action r = ''reject'' then j\<lparr>jn_status := StatusRejected, jn_closed_at := Some (r_at r)\<rparr>
      else if r_action r = ''expire'' then j\<lparr>jn_status := StatusExpired, jn_closed_at := Some (r_at r)\<rparr>
      else j)"

definition replay :: "receipt list \<Rightarrow> journal" where
  "replay rs = foldl replay_one \<lparr>jn_status = StatusOpen, jn_locked_at = None, jn_closed_at = None, jn_seals = []\<rparr> rs"

definition journal_of :: "agreement \<Rightarrow> journal" where
  "journal_of a = \<lparr>jn_status = ag_status a, jn_locked_at = ag_locked_at a, jn_closed_at = ag_closed_at a,
                   jn_seals = map base64_encode (ag_sealed_locks a)\<rparr>"

lemma replay_snoc [simp]: "replay (rs @ [r]) = replay_one (replay rs) r"
  by (simp add: replay_def)

lemma replay_seals_length: "length (jn_seals (replay rs)) \<le> length rs"
  by (induction rs rule: rev_induct) (auto simp: replay_one_def replay_def)

subsection \<open>Roles and the holder of the value\<close>

definition authored :: "agreement \<Rightarrow> receipt \<Rightarrow> bool" where
  "authored a r \<longleftrightarrow>
     (if r_action r \<in> {''open'', ''lock'', ''seal''} then r_actor r = ag_buyer a
      else if r_action r \<in> {''accept'', ''reject''} then r_actor r = ag_seller a
      else r_action r \<in> {''deadline'', ''expire'', ''evidence''} \<and> r_actor r \<in> {ag_buyer a, ag_seller a})"

definition payee :: "agreement \<Rightarrow> party" where
  "payee a = (case ag_status a of StatusAccepted \<Rightarrow> ag_seller a | StatusRejected \<Rightarrow> ag_buyer a
                | StatusExpired \<Rightarrow> ag_buyer a | _ \<Rightarrow> [])"

definition ag_times :: "agreement \<Rightarrow> bool" where
  "ag_times a \<longleftrightarrow>
     (case ag_status a of
        StatusOpen \<Rightarrow> ag_locked_at a = None \<and> ag_closed_at a = None
      | StatusLocked \<Rightarrow> ag_locked_at a \<noteq> None \<and> ag_closed_at a = None
      | StatusAccepted \<Rightarrow> ag_locked_at a \<noteq> None \<and> ag_closed_at a \<noteq> None
      | StatusRejected \<Rightarrow> ag_locked_at a \<noteq> None \<and> ag_closed_at a \<noteq> None
      | StatusExpired \<Rightarrow> ag_closed_at a \<noteq> None
      | _ \<Rightarrow> False)"

definition same_deal :: "agreement \<Rightarrow> agreement \<Rightarrow> bool" where
  "same_deal a b \<longleftrightarrow> ag_id b = ag_id a \<and> ag_kind b = ag_kind a \<and> ag_buyer b = ag_buyer a \<and> ag_seller b = ag_seller a
     \<and> ag_amount b = ag_amount a \<and> ag_meter b = ag_meter a \<and> ag_created_at b = ag_created_at a"

text \<open>The same deal in the same unit; no call but \<open>WithUnit\<close> leaves it.\<close>

definition same_terms :: "agreement \<Rightarrow> agreement \<Rightarrow> bool" where
  "same_terms a b \<longleftrightarrow> same_deal a b \<and> ag_unit b = ag_unit a"

lemmas same_terms_defs = same_terms_def same_deal_def

text \<open>The invariant of every agreement the package opens.\<close>

definition ag_wf :: "agreement \<Rightarrow> bool" where
  "ag_wf a \<longleftrightarrow>
     ag_buyer a \<noteq> [] \<and> ag_seller a \<noteq> [] \<and> ag_buyer a \<noteq> ag_seller a \<and> 0 < sint (ag_amount a)
     \<and> ag_steps a = int (length (ag_receipts a)) \<and> 1 \<le> ag_steps a \<and> ag_steps a \<le> max_steps (ag_meter a)
     \<and> \<not> over_budget (ag_meter a)
     \<and> verify_receipts (ag_id a) (ag_receipts a) = None
     \<and> replay (ag_receipts a) = journal_of a
     \<and> (\<forall>r \<in> set (ag_receipts a). authored a r)
     \<and> ag_status a \<in> {StatusOpen, StatusLocked, StatusAccepted, StatusRejected, StatusExpired}
     \<and> ag_times a \<and> ag_released_to a = payee a"

lemma open_agreement_with_Inr:
  assumes "open_agreement_with aid kind buyer seller amount meter now note = Inr a"
  shows "ag_wf a \<and> ag_status a = StatusOpen \<and> ag_buyer a = buyer \<and> ag_seller a = seller \<and> ag_amount a = amount
    \<and> ag_sealed a = None \<and> ag_sealed_locks a = [] \<and> ag_sealed_sum a = [] \<and> length (ag_receipts a) = 1 \<and> ag_id a = aid \<and> ag_kind a = kind
    \<and> (0 < max_steps meter \<longrightarrow> mt_effort meter \<noteq> [] \<longrightarrow> ag_meter a = meter)"
  using assms
  by (auto simp: open_agreement_with_def ag_append_eq Let_def ag_wf_def can_append_def pushed_def journal_of_def
      replay_def replay_one_def authored_def payee_def ag_times_def verify_receipts_new [of _ "[]", simplified]
      split: if_splits)

lemma open_agreement_Inr:
  "open_agreement aid kind buyer seller amount meter now = Inr a \<Longrightarrow>
   open_agreement_with aid kind buyer seller amount meter now ''agreement opened'' = Inr a"
  by (simp add: open_agreement_def split: if_splits)

lemma ag_move_wf: "ag_move a ev b \<Longrightarrow> ag_wf a \<Longrightarrow> ag_wf b"
  by (induction rule: ag_move.induct)
    (auto simp: ag_wf_def can_append_def journal_of_def replay_one_def authored_def payee_def ag_times_def ag_terminal_iff)

lemma ag_move_deal: "ag_move a ev b \<Longrightarrow> same_deal a b"
  by (induction rule: ag_move.induct) (simp_all add: same_deal_def)

lemma ag_move_terms: "ag_move a ev b \<Longrightarrow> ev \<noteq> EvUnit \<Longrightarrow> same_terms a b"
  by (induction rule: ag_move.induct) (simp_all add: same_terms_defs)

lemma same_deal_refl [simp]: "same_deal a a"
  by (simp add: same_deal_def)

lemma same_deal_trans: "same_deal a b \<Longrightarrow> same_deal b c \<Longrightarrow> same_deal a c"
  by (simp add: same_deal_def)

lemma same_terms_trans: "same_terms a b \<Longrightarrow> same_terms b c \<Longrightarrow> same_terms a c"
  by (simp add: same_terms_defs)

lemma ag_moves_wf: "ag_moves a evs b \<Longrightarrow> ag_wf a \<Longrightarrow> ag_wf b \<and> same_deal a b"
proof (induction rule: ag_moves.induct)
  case (more evs b ev c)
  then show ?case
    using ag_move_wf ag_move_deal same_deal_trans by blast
qed simp

lemma ag_moves_terms: "ag_moves a evs b \<Longrightarrow> EvUnit \<notin> set evs \<Longrightarrow> same_terms a b"
proof (induction rule: ag_moves.induct)
  case (more evs b ev c)
  then show ?case
    using ag_move_terms [OF more.hyps(2)] same_terms_trans by auto
qed (simp add: same_terms_defs)

lemma ag_step_wf:
  assumes "ag_wf a" and "ag_step dec a c = (a', r)"
  shows "ag_wf a' \<and> same_deal a a'"
proof (cases r)
  case None
  with assms show ?thesis
    using ag_step_moves ag_moves_wf by blast
next
  case (Some e)
  with assms have "a' = a"
    using ag_step_error by blast
  with assms show ?thesis
    by simp
qed

lemma ag_step_unit:
  assumes "ag_step dec a c = (a', r)" and "\<not> is_with_unit c"
  shows "ag_unit a' = ag_unit a"
proof (cases r)
  case None
  moreover have "EvUnit \<notin> set (call_events c)"
    using assms(2) by (cases c) auto
  ultimately show ?thesis
    using assms(1) ag_step_moves ag_moves_terms unfolding same_terms_def by blast
next
  case (Some e)
  with assms(1) ag_step_error show ?thesis
    by blast
qed

interpretation ag_good: machine_invariant "ag_step dec" "\<lambda>b. ag_wf b \<and> same_deal a b" for dec a
  using ag_step_wf same_deal_trans by unfold_locales blast

lemma ag_run_wf: "ag_wf a \<Longrightarrow> ag_wf (run (ag_step dec) a cs) \<and> same_deal a (run (ag_step dec) a cs)"
  by (rule ag_good.run_good) simp

lemma ag_wf_can_append: "ag_wf a \<Longrightarrow> can_append a \<longleftrightarrow> ag_steps a < max_steps (ag_meter a)"
  by (simp add: ag_wf_def can_append_def)

subsection \<open>The abstract escrow\<close>

text \<open>
  What the package promises a pair of parties, with no ledger, no steps and no ciphertext: the value is committed
  once, and a committed value goes to the seller only by the seller's own act, or back to the buyer by the seller's
  act or by the passing of a deadline. There is no move of the buyer that takes a committed value back.
\<close>

datatype phase = Drafted | Committed | Settled | Returned | Lapsed

inductive escrow :: "party \<Rightarrow> party \<Rightarrow> phase \<Rightarrow> party \<Rightarrow> phase \<Rightarrow> bool" for buyer seller where
  commit: "escrow buyer seller Drafted buyer Committed"
| settle: "escrow buyer seller Committed seller Settled"
| return: "escrow buyer seller Committed seller Returned"
| lapse: "ph \<in> {Drafted, Committed} \<Longrightarrow> p \<in> {buyer, seller} \<Longrightarrow> escrow buyer seller ph p Lapsed"
| remain: "ph \<in> {Drafted, Committed} \<Longrightarrow> escrow buyer seller ph p ph"

inductive_simps escrow_from [simp]:
  "escrow buyer seller Drafted p ph"
  "escrow buyer seller Committed p ph"
  "escrow buyer seller Settled p ph"
  "escrow buyer seller Returned p ph"
  "escrow buyer seller Lapsed p ph"

definition ag_phase :: "agreement \<Rightarrow> phase" where
  "ag_phase a = (case ag_status a of StatusLocked \<Rightarrow> Committed | StatusAccepted \<Rightarrow> Settled
                   | StatusRejected \<Rightarrow> Returned | StatusExpired \<Rightarrow> Lapsed | _ \<Rightarrow> Drafted)"

lemma ag_phase_status:
  "ag_status a = StatusOpen \<Longrightarrow> ag_phase a = Drafted"
  "ag_status a = StatusLocked \<Longrightarrow> ag_phase a = Committed"
  "ag_status a = StatusAccepted \<Longrightarrow> ag_phase a = Settled"
  "ag_status a = StatusRejected \<Longrightarrow> ag_phase a = Returned"
  "ag_status a = StatusExpired \<Longrightarrow> ag_phase a = Lapsed"
  by (simp_all add: ag_phase_def)

lemma ag_wf_status: "ag_wf a \<Longrightarrow> \<not> ag_terminal a \<Longrightarrow> ag_status a \<in> {StatusOpen, StatusLocked}"
  by (auto simp: ag_wf_def ag_terminal_iff)

text \<open>The simulation, one operation at a time.\<close>

lemma op_refines:
  assumes "ag_wf a"
  shows "ag_lock a p t = (a', None) \<Longrightarrow> escrow (ag_buyer a) (ag_seller a) (ag_phase a) p (ag_phase a')"
    "ag_accept dec rnd a p t = (a', None) \<Longrightarrow> escrow (ag_buyer a) (ag_seller a) (ag_phase a) p (ag_phase a')"
    "ag_reject a p t = (a', None) \<Longrightarrow> escrow (ag_buyer a) (ag_seller a) (ag_phase a) p (ag_phase a')"
    "set_deadline a p d t = (a', None) \<Longrightarrow> escrow (ag_buyer a) (ag_seller a) (ag_phase a) p (ag_phase a')"
    "ag_expire a p t = (a', None) \<Longrightarrow> escrow (ag_buyer a) (ag_seller a) (ag_phase a) p (ag_phase a')"
    "ag_note a p act cit t = (a', None) \<Longrightarrow> escrow (ag_buyer a) (ag_seller a) (ag_phase a) p (ag_phase a')"
    "ag_seal_lock rnd a p x t = (a', None) \<Longrightarrow> escrow (ag_buyer a) (ag_seller a) (ag_phase a) p (ag_phase a')"
  using ag_wf_status [OF assms]
  by (auto dest!: ag_lock_ok ag_accept_ok ag_reject_ok set_deadline_ok ag_expire_ok ag_note_ok ag_seal_lock_ok
      simp: ag_phase_def)

lemma ag_step_refines:
  assumes "ag_wf a" and "ag_step dec a c = (a', None)" and "\<not> is_with_unit c"
  shows "escrow (ag_buyer a) (ag_seller a) (ag_phase a) (call_actor c) (ag_phase a')"
proof (cases c)
  case (AcceptWithEvidence author p cit t rnd)
  with assms(2) obtain n where n: "ag_note a author ''evidence'' cit t = (n, None)"
      and acc: "ag_accept dec rnd n p t = (a', None)"
    by (auto dest: accept_with_evidence_ok)
  have "ag_wf n \<and> same_deal a n"
    using ag_step_wf [OF assms(1), of dec "Note author ''evidence'' cit t"] n by simp
  moreover have "ag_phase n = ag_phase a"
    using ag_note_ok [OF n] by (simp add: ag_phase_def)
  ultimately show ?thesis
    using op_refines(2) [OF _ acc] AcceptWithEvidence by (simp add: same_deal_def)
next
  case (Apply m t rnd)
  with assms(2) have "ag_apply dec rnd a m t = (a', None)"
    by simp
  from ag_apply_ok [OF this] Apply show ?thesis
    using op_refines [OF assms(1)] by (elim disjE conjE) simp_all
next
  case (StartSealed ds)
  with assms(2) have "start_sealed a ds = Some (a', None)"
    by (simp split: option.splits)
  then show ?thesis
    by (auto dest!: start_sealed_ok simp: ag_phase_def)
qed (use assms(2,3) op_refines [OF assms(1)] in simp_all)

subsection \<open>Sealed agreements\<close>

text \<open>
  \<open>sealed_state ms a\<close>: the locks of the agreement are the ciphertexts of the amounts \<open>ms\<close> under the ledger's key, and
  its sealed sum is their aggregate, up to the accept that clears it.
\<close>

definition sealed_state :: "int list \<Rightarrow> agreement \<Rightarrow> bool" where
  "sealed_state ms a \<longleftrightarrow>
     (case ag_sealed a of
        None \<Rightarrow> ms = [] \<and> ag_sealed_locks a = []
      | Some l \<Rightarrow> sealed_as l (ag_sealed_locks a) ms
          \<and> (ms \<noteq> [] \<longrightarrow> (\<exists>sm. aggregate l (ag_sealed_locks a) = Inr sm
               \<and> (ag_status a \<noteq> StatusAccepted \<longrightarrow> sm = ag_sealed_sum a))))
     \<and> (ag_status a = StatusOpen \<longrightarrow> ms = [])
     \<and> (ms = [] \<or> ag_status a = StatusAccepted \<longrightarrow> ag_sealed_sum a = [])"

fun event_amounts :: "event \<Rightarrow> int list" where
  "event_amounts (EvSeal x) = [x]"
| "event_amounts _ = []"

definition sealed_amounts :: "event list \<Rightarrow> int list" where
  "sealed_amounts evs = concat (map event_amounts evs)"

lemma sealed_amounts_simps [simp]:
  "sealed_amounts [] = []"
  "sealed_amounts (ev # evs) = event_amounts ev @ sealed_amounts evs"
  "sealed_amounts (evs @ es) = sealed_amounts evs @ sealed_amounts es"
  by (simp_all add: sealed_amounts_def)

lemma new_ledger_empty: "new_ledger ds = Some (Inr l) \<Longrightarrow> lg_rs l = []"
  by (auto simp: new_ledger_def split: option.splits sum.splits)

lemma sealed_as_nil: "sealed_as l [] [] \<longleftrightarrow> lg_rs l = []"
  by (auto simp: sealed_as_def)

lemma ag_move_sealed: "ag_move a ev b \<Longrightarrow> sealed_state ms a \<Longrightarrow> sealed_state (ms @ event_amounts ev) b"
proof (induction rule: ag_move.induct)
  case (seal a l0 x rnd l ct sm t)
  then show ?case
    using seal_lock_sealed_as [of l0 x rnd l ct "ag_sealed_locks a" ms] by (auto simp: sealed_state_def)
next
  case (start a ds l)
  then have "ms = []" "ag_sealed_locks a = []"
    by (auto simp: sealed_state_def split: option.splits dest: sealed_as_lengths)
  with start show ?case
    by (simp add: sealed_state_def sealed_as_nil new_ledger_empty)
qed (auto simp: sealed_state_def is_sealed_def split: option.splits)

lemma ag_moves_sealed: "ag_moves a evs b \<Longrightarrow> sealed_state [] a \<Longrightarrow> sealed_state (sealed_amounts evs) b"
proof (induction rule: ag_moves.induct)
  case (more evs b ev c)
  with ag_move_sealed show ?case
    by fastforce
qed simp

lemma opened_sealed_state:
  "open_agreement_with aid kind buyer seller amount meter now note = Inr a \<Longrightarrow> sealed_state [] a"
  by (drule open_agreement_with_Inr) (simp add: sealed_state_def)

text \<open>The keys: every ledger comes from the key generator.\<close>

definition sealed_key :: "agreement \<Rightarrow> bool" where
  "sealed_key a \<longleftrightarrow> (\<forall>l. ag_sealed a = Some l \<longrightarrow> (\<exists>p q. valid_key p q (lg_p l) \<and> 2 ^ 511 \<le> p \<and> 2 ^ 511 \<le> q))"

definition sound_event :: "event \<Rightarrow> bool" where
  "sound_event ev = (case ev of EvStart ds \<Rightarrow> (\<exists>bits. prime_draws bits ds) | _ \<Rightarrow> True)"

lemma new_ledger_valid:
  assumes "new_ledger ds = Some (Inr l)" and "prime_draws bits ds"
  shows "\<exists>p q. valid_key p q (lg_p l) \<and> 2 ^ 511 \<le> p \<and> 2 ^ 511 \<le> q"
proof -
  have "new_paillier ds = Some (Inr (lg_p l))"
    using assms(1) by (auto simp: new_ledger_def split: option.splits sum.splits)
  then obtain p q where "valid_key p q (lg_p l)"
    and "2 ^ nat (prime_bits bits - 1) \<le> p" "2 ^ nat (prime_bits bits - 1) \<le> q"
    using new_paillier_valid [OF _ assms(2)] by blast
  moreover have "(2 :: int) ^ 511 \<le> 2 ^ nat (prime_bits bits - 1)"
    by (intro power_increasing) (auto simp: prime_bits_def)
  ultimately show ?thesis
    by (meson order_trans)
qed

lemma ag_move_key: "ag_move a ev b \<Longrightarrow> sound_event ev \<Longrightarrow> sealed_key a \<Longrightarrow> sealed_key b"
proof (induction rule: ag_move.induct)
  case (seal a l0 x rnd l ct sm t)
  moreover have "lg_p l = lg_p l0"
    using seal_lock_Inr [OF seal.hyps(4)] by auto
  ultimately show ?case
    by (simp add: sealed_key_def)
next
  case (start a ds l)
  then show ?case
    using new_ledger_valid by (auto simp: sealed_key_def sound_event_def)
qed (simp_all add: sealed_key_def)

lemma ag_moves_key: "ag_moves a evs b \<Longrightarrow> list_all sound_event evs \<Longrightarrow> sealed_key a \<Longrightarrow> sealed_key b"
  by (induction rule: ag_moves.induct) (auto dest: ag_move_key)

lemma sealed_run_state:
  assumes "open_agreement aid kind buyer seller amount meter now = Inr a0"
  shows "sealed_state (sealed_amounts (run_events dec a0 cs)) (run (ag_step dec) a0 cs)"
  using ag_moves_sealed [OF run_moves opened_sealed_state [OF open_agreement_Inr [OF assms]]] .

lemma opened_wf:
  "open_agreement aid kind buyer seller amount meter now = Inr a0 \<Longrightarrow>
   ag_wf a0 \<and> ag_buyer a0 = buyer \<and> ag_seller a0 = seller \<and> ag_amount a0 = amount"
  using open_agreement_with_Inr [OF open_agreement_Inr] by simp

text \<open>What \<open>Accept\<close> does on a sealed and locked agreement, by the amounts that were sealed.\<close>

lemma accept_sealed_decision:
  assumes wf: "ag_wf a" and st: "sealed_state ms a" and l: "ag_sealed a = Some l" and key: "valid_key p q (lg_p l)"
    and locked: "ag_status a = StatusLocked" and ms: "ms \<noteq> []"
    and small: "sum_list ms < min p q" "sint (ag_amount a) < min p q"
    and draw: "rnd 0 = Some s" "unit_factor (pl_n (lg_p l)) s" and dec: "\<And>pf. dec (zk_marshal pf) = Some pf"
    and steps: "ag_steps a < max_steps (ag_meter a)"
  shows "if sum_list ms = sint (ag_amount a)
    then \<exists>n. ag_accept dec rnd a (ag_seller a) t = ok ((pushed a (ag_seller a) ''accept'' n t)\<lparr>ag_closed_at := Some t,
            ag_released_to := ag_seller a, ag_status := StatusAccepted, ag_sealed_sum := []\<rparr>)
    else ag_accept dec rnd a (ag_seller a) t
           = fail a (Wrapf ''%w: equality proof rejected on ciphertext'' [] ErrSumMismatch)"
proof -
  let ?c = "ag_amount a"
  have seal: "sealed_as l (ag_sealed_locks a) ms" and agg: "aggregate l (ag_sealed_locks a) = Inr (ag_sealed_sum a)"
    using st l locked ms by (auto simp: sealed_state_def)
  have locks: "ag_sealed_locks a \<noteq> []"
    using ms sealed_as_lengths [OF seal] by auto
  have pq: "1 < p" "1 < q" "pl_n (lg_p l) = p * q"
    using key is_prime_gt by (auto simp: valid_key_def)
  then have "p \<le> pl_n (lg_p l)"
    by simp
  then have c: "0 < sint ?c" "sint ?c < pl_n (lg_p l)"
    using wf small(2) by (auto simp: ag_wf_def)
  have "0 \<le> sum_list ms"
    using seal by (auto simp: sealed_as_def intro!: sum_list_nonneg)
  with c small have diff: "\<bar>sum_list ms - sint ?c\<bar> < p" "\<bar>sum_list ms - sint ?c\<bar> < q"
    by auto
  from settle_decision [OF key seal locks agg _ c(2) draw(2) dec] c(1) obtain pr where
    prove: "ledger_prove_equal l (ag_sealed_sum a) ?c (Some s) = Inr pr" and
    verify: "ledger_verify_equal dec l (ag_sealed_sum a) ?c pr \<longleftrightarrow> sum_list ms = sint ?c"
    unfolding settle_decision_exact [OF key diff] by auto
  have "can_append a"
    using wf steps ag_wf_can_append by simp
  with prove verify locked l locks draw(1) show ?thesis
    by (auto simp: ag_accept_def accept_sealed_def ag_append_eq ag_terminal_def)
qed

lemma seal_lock_progress:
  assumes l0: "ag_sealed a = Some l0" and key: "valid_key p q (lg_p l0)" and st: "sealed_state ms a"
    and a: "\<not> ag_terminal a" "can_append a" and x: "0 < sint x" "sint x < pl_n (lg_p l0)"
    and draw: "rnd 0 = Some r" "unit_factor (pl_n (lg_p l0)) r"
  shows "\<exists>a' l. ag_seal_lock rnd a (ag_buyer a) x t = ok a' \<and> ag_move a (EvSeal (sint x)) a'
    \<and> ag_sealed a' = Some l \<and> lg_p l = lg_p l0 \<and> ag_status a' = StatusLocked \<and> ag_steps a' = ag_steps a + 1"
proof -
  let ?ct = "big_bytes (cipher (lg_p l0) (sint x) r)"
  let ?l = "l0\<lparr>lg_rs := lg_rs l0 @ [r]\<rparr>"
  have lock: "seal_lock l0 x rnd = (?l, Inr ?ct)"
    using x draw by (rule seal_lock_succeeds)
  moreover have "sealed_as l0 (ag_sealed_locks a) ms"
    using st l0 by (simp add: sealed_state_def)
  ultimately have "sealed_as ?l (ag_sealed_locks a @ [?ct]) (ms @ [sint x])"
    using seal_lock_sealed_as by blast
  then obtain sm where "aggregate ?l (ag_sealed_locks a @ [?ct]) = Inr sm"
    using aggregate_sealed [of p q ?l] key by fastforce
  with lock l0 a have "\<exists>a' l. ag_seal_lock rnd a (ag_buyer a) x t = ok a' \<and> ag_sealed a' = Some l
      \<and> lg_p l = lg_p l0 \<and> ag_status a' = StatusLocked \<and> ag_steps a' = ag_steps a + 1"
    by (simp add: ag_seal_lock_def ag_append_eq)
  then show ?thesis
    using op_move(7) by blast
qed

text \<open>An agreement on which the amounts 1 and 2 are sealed under the small key.\<close>

lemma ex_ledger: "new_ledger [(Some 5, Some 7)] = Some (Inr \<lparr>lg_p = ex_key, lg_rs = []\<rparr>)"
  by (simp add: new_ledger_def ex_key_generated del: new_paillier.simps)

definition ex_seal :: "int \<Rightarrow> i64 \<Rightarrow> ag_call" where
  "ex_seal r x = Apply \<lparr>mv_actor = ''ada'', mv_action = ''seal'', mv_partial = x\<rparr> 20 (\<lambda>i. Some r)"

definition ex_calls :: "ag_call list" where
  "ex_calls = [StartSealed [(Some 5, Some 7)], ex_seal 2 1, ex_seal 3 2]"

lemma ex_sealed:
  assumes "open_agreement ''deal-1'' ''escrow'' ''ada'' ''bob'' amount (plain_meter 8) 10 = Inr a0"
  shows "\<exists>l. ag_sealed (run (ag_step dec) a0 ex_calls) = Some l \<and> lg_p l = ex_key
    \<and> ag_status (run (ag_step dec) a0 ex_calls) = StatusLocked \<and> ag_steps (run (ag_step dec) a0 ex_calls) = 3
    \<and> max_steps (ag_meter (run (ag_step dec) a0 ex_calls)) = 8
    \<and> sealed_amounts (run_events dec a0 ex_calls) = [1, 2]"
proof -
  let ?l = "\<lparr>lg_p = ex_key, lg_rs = []\<rparr>"
  let ?a = "a0\<lparr>ag_sealed := Some ?l\<rparr>"
  have a0: "ag_wf a0" "ag_buyer a0 = ''ada''" "ag_status a0 = StatusOpen" "ag_steps a0 = 1" "ag_meter a0 = plain_meter 8"
    "ag_sealed_locks a0 = []" "ag_sealed_sum a0 = []"
    using open_agreement_with_Inr [OF open_agreement_Inr [OF assms]] by (auto simp: ag_wf_def plain_meter_def)
  have 0: "ag_step dec a0 (StartSealed [(Some 5, Some 7)]) = ok ?a"
    by (simp add: start_sealed_def ex_ledger a0)
  have unit: "unit_factor (pl_n ex_key) 2" "unit_factor (pl_n ex_key) 3"
    by code_simp+
  have n: "pl_n ex_key = 35"
    by (simp add: ex_key_def)
  have "sealed_state [] ?a" "can_append ?a" "\<not> ag_terminal ?a"
    using a0 by (simp_all add: sealed_state_def can_append_def ag_terminal_def sealed_as_nil)
  from seal_lock_progress [of ?a ?l 5 7 "[]" 1 "\<lambda>i. Some 2" 2 20, OF _ _ this(1,3,2)] obtain b l where
    1: "ag_seal_lock (\<lambda>i. Some 2) ?a ''ada'' 1 20 = ok b" and m1: "ag_move ?a (EvSeal 1) b"
    and b: "ag_sealed b = Some l" "lg_p l = ex_key" "ag_status b = StatusLocked" "ag_steps b = 2"
    using ex_key_valid unit a0 n by auto
  have tb: "same_deal ?a b" "sealed_state [1] b"
    using ag_move_deal [OF m1] ag_move_sealed [OF m1 \<open>sealed_state [] ?a\<close>] by simp_all
  then have "ag_buyer b = ''ada''" "ag_meter b = plain_meter 8" "can_append b" "\<not> ag_terminal b"
    using a0 b by (simp_all add: same_deal_def can_append_def ag_terminal_def)
  with seal_lock_progress [of b l 5 7 "[1]" 2 "\<lambda>i. Some 3" 3 20] tb(2) obtain c l' where
    2: "ag_seal_lock (\<lambda>i. Some 3) b ''ada'' 2 20 = ok c" and m2: "ag_move b (EvSeal 2) c"
    and c: "ag_sealed c = Some l'" "lg_p l' = ex_key" "ag_status c = StatusLocked" "ag_steps c = 3"
    using ex_key_valid unit b n by auto
  have "ag_meter c = plain_meter 8"
    using ag_move_deal [OF m2] \<open>ag_meter b = plain_meter 8\<close> by (simp add: same_deal_def)
  moreover have "run (ag_step dec) a0 ex_calls = c" "run_events dec a0 ex_calls = [EvStart [(Some 5, Some 7)], EvSeal 1, EvSeal 2]"
    using 0 1 2 by (simp_all add: ex_calls_def ex_seal_def ag_apply_def)
  ultimately show ?thesis
    using c by simp
qed

subsection \<open>Properties of agreements\<close>

text \<open>
  C2. The settlement decision of a sealed agreement is exact: after any calls on an opened agreement, the seller's
  \<open>Accept\<close> on the sealed and locked agreement succeeds and releases the value to the seller when the amounts that were
  sealed sum to the agreed amount, and otherwise fails with \<open>ErrSumMismatch\<close> and changes nothing. Nothing is decrypted;
  the primes of the key need only exceed the two sums.
\<close>

theorem sealed_accept_exact:
  assumes "open_agreement aid kind buyer seller amount meter now = Inr a0"
    and "a = run (ag_step dec) a0 cs" and "ms = sealed_amounts (run_events dec a0 cs)"
    and "ag_sealed a = Some l" and "valid_key p q (lg_p l)" and "ag_status a = StatusLocked" and "ms \<noteq> []"
    and "sum_list ms < min p q" and "sint amount < min p q"
    and "rnd 0 = Some s" and "unit_factor (pl_n (lg_p l)) s" and "\<And>pf. dec (zk_marshal pf) = Some pf"
    and "ag_steps a < max_steps (ag_meter a)"
  shows "if sum_list ms = sint amount
    then \<exists>a'. ag_accept dec rnd a seller t = ok a' \<and> ag_status a' = StatusAccepted \<and> ag_released_to a' = seller
           \<and> ag_closed_at a' = Some t
    else ag_accept dec rnd a seller t
           = fail a (Wrapf ''%w: equality proof rejected on ciphertext'' [] ErrSumMismatch)"
proof -
  have wf: "ag_wf a" "same_deal a0 a"
    using opened_wf [OF assms(1)] ag_run_wf assms(2) by auto
  then have [simp]: "ag_seller a = seller" "ag_amount a = amount"
    using opened_wf [OF assms(1)] by (simp_all add: same_deal_def)
  have "sealed_state ms a"
    using sealed_run_state [OF assms(1)] assms(2,3) by simp
  from accept_sealed_decision [where rnd = rnd and t = t, OF wf(1) this assms(4-8) _ assms(10-13)] assms(9)
  show ?thesis
    by auto
qed

theorem sealed_accept_exact_witness:
  "\<exists>a0 a1. open_agreement ''deal-1'' ''escrow'' ''ada'' ''bob'' 3 (plain_meter 8) 10 = Inr a0
     \<and> open_agreement ''deal-1'' ''escrow'' ''ada'' ''bob'' 4 (plain_meter 8) 10 = Inr a1
     \<and> (\<exists>a'. ag_accept zk_unmarshal (\<lambda>i. Some 2) (run (ag_step zk_unmarshal) a0 ex_calls) ''bob'' 30 = ok a'
          \<and> ag_released_to a' = ''bob'')
     \<and> snd (ag_accept zk_unmarshal (\<lambda>i. Some 2) (run (ag_step zk_unmarshal) a1 ex_calls) ''bob'' 30)
       = Some (Wrapf ''%w: equality proof rejected on ciphertext'' [] ErrSumMismatch)"
proof -
  have opens: "\<exists>a. open_agreement ''deal-1'' ''escrow'' ''ada'' ''bob'' amount (plain_meter 8) 10 = Inr a"
    if "0 < sint amount" for amount
    using that by (simp add: open_agreement_def open_agreement_with_def ag_append_eq can_append_def Let_def plain_meter_def
        over_budget_def f64_gt_def)
  have "let a = run (ag_step zk_unmarshal) a0 ex_calls in
      if 3 = sint amount
      then \<exists>a'. ag_accept zk_unmarshal (\<lambda>i. Some 2) a ''bob'' 30 = ok a' \<and> ag_status a' = StatusAccepted
         \<and> ag_released_to a' = ''bob'' \<and> ag_closed_at a' = Some 30
      else ag_accept zk_unmarshal (\<lambda>i. Some 2) a ''bob'' 30
         = fail a (Wrapf ''%w: equality proof rejected on ciphertext'' [] ErrSumMismatch)"
    if a0: "open_agreement ''deal-1'' ''escrow'' ''ada'' ''bob'' amount (plain_meter 8) 10 = Inr a0"
      and small: "sint amount < 5" for amount a0
  proof -
    let ?a = "run (ag_step zk_unmarshal) a0 ex_calls"
    from ex_sealed [OF a0, of zk_unmarshal] obtain l where "ag_sealed ?a = Some l" "lg_p l = ex_key"
      "ag_status ?a = StatusLocked" "ag_steps ?a < max_steps (ag_meter ?a)"
      "sealed_amounts (run_events zk_unmarshal a0 ex_calls) = [1, 2]"
      by auto
    moreover have "unit_factor (pl_n ex_key) 2"
      by code_simp
    ultimately show ?thesis
      using sealed_accept_exact [OF a0 refl refl, of zk_unmarshal ex_calls l 5 7 "\<lambda>i. Some 2" 2 30]
        ex_key_valid small zk_unmarshal_marshal by (simp add: Let_def)
  qed
  from this [of 3] this [of 4] opens [of 3] opens [of 4] show ?thesis
    by (fastforce simp: Let_def)
qed

text \<open>
  C12. The ledger of an agreement is append-only and consistent: after any calls the receipts verify, what was recorded
  before further calls is never changed by them, there is one step for each receipt, and the meter's bound holds.
\<close>

theorem agreement_ledger_consistent:
  assumes "open_agreement_with aid kind buyer seller amount meter now note = Inr a0"
    and "a = run (ag_step dec) a0 cs"
  shows "ag_verify_receipts a = None
    \<and> extends (ag_receipts a) (ag_receipts (run (ag_step dec) a0 (cs @ ds)))
    \<and> ag_steps a = int (length (ag_receipts a)) \<and> 1 \<le> ag_steps a \<and> ag_steps a \<le> max_steps (ag_meter a0)"
proof -
  have "ag_wf a \<and> same_deal a0 a"
    unfolding assms(2) using open_agreement_with_Inr [OF assms(1)] ag_run_wf by blast
  moreover have "extends (ag_receipts a) (ag_receipts (run (ag_step dec) a0 (cs @ ds)))"
    unfolding assms(2) run_append by (rule ag.run_extends)
  ultimately show ?thesis
    by (auto simp: ag_wf_def same_deal_def ag_verify_receipts_def)
qed

lemma ex_opens:
  "0 < sint amount \<Longrightarrow> \<exists>a. open_agreement_with ''deal-1'' ''escrow'' ''ada'' ''bob'' amount (plain_meter 8) 10
     ''agreement opened'' = Inr a"
  by (simp add: open_agreement_with_def ag_append_eq can_append_def Let_def plain_meter_def over_budget_def f64_gt_def)

theorem agreement_ledger_consistent_witness:
  "\<exists>a0. open_agreement_with ''deal-1'' ''escrow'' ''ada'' ''bob'' 3 (plain_meter 8) 10 ''agreement opened'' = Inr a0
     \<and> ag_verify_receipts (run (ag_step zk_unmarshal) a0 [Lock ''ada'' 11, Reject ''bob'' 12]) = None"
  using ex_opens [of 3] agreement_ledger_consistent [OF _ refl] by fastforce

text \<open>
  A settled agreement is frozen: once it is accepted, rejected or expired, every further call of a method with an error
  fails and nothing of it but the unit ever changes again. \<open>WithUnit\<close> is documented as to be called before \<open>Lock\<close>, but
  nothing checks that: it still changes the unit.
\<close>

theorem agreement_terminal_frozen:
  assumes "ag_terminal a"
  shows "but_unit (run (ag_step dec) a cs) = but_unit a \<and> (is_with_unit c \<or> snd (ag_step dec a c) \<noteq> None)
    \<and> takeback a p t = Some ErrTakeback
    \<and> ag_unit (fst (ag_step dec a (WithUnit ''NEX''))) = \<lparr>un_symbol = ''NEX''\<rparr>"
  using ag.run_closed [OF assms] ag_closed_refuses [where dec = dec, OF assms prod.collapse [symmetric], of c] assms
  by (auto simp: takeback_def with_unit_def)

theorem agreement_terminal_frozen_witness:
  "\<exists>a. ag_status a = StatusExpired \<and> snd (ag_step zk_unmarshal a (Lock ''ada'' 11)) \<noteq> None"
proof -
  obtain a :: agreement where "ag_status a = StatusExpired"
    by (metis agreement.select_convs(7))
  then show ?thesis
    using agreement_terminal_frozen [of a zk_unmarshal "[]" "Lock ''ada'' 11"] by (auto simp: ag_terminal_def)
qed

text \<open>
  C3. The agreement refines the abstract escrow: from any state an opened agreement reaches, a call of any method other
  than \<open>WithUnit\<close> either fails and leaves the agreement untouched, or is a move of the abstract escrow made by the call's
  own actor, and keeps the unit. \<open>WithUnit\<close> never fails and replaces nothing but the unit, in every phase, also after the
  agreement is closed. Every call keeps the parties, the amount, the meter and the identity.
\<close>

theorem agreement_refines_escrow:
  assumes "open_agreement_with aid kind buyer seller amount meter now note = Inr a0"
    and "a = run (ag_step dec) a0 cs" and "ag_step dec a c = (a', r)"
  shows "(case c of
       WithUnit symbol \<Rightarrow> r = None \<and> a' = (if symbol = [] then a else a\<lparr>ag_unit := \<lparr>un_symbol = symbol\<rparr>\<rparr>)
     | _ \<Rightarrow> if r = None then escrow buyer seller (ag_phase a) (call_actor c) (ag_phase a') \<and> ag_unit a' = ag_unit a
            else a' = a)
    \<and> same_deal a0 a'"
proof -
  have wf: "ag_wf a" "same_deal a0 a" and parties: "ag_buyer a0 = buyer" "ag_seller a0 = seller"
    unfolding assms(2) using open_agreement_with_Inr [OF assms(1)] ag_run_wf by blast+
  then have [simp]: "ag_buyer a = buyer" "ag_seller a = seller"
    by (simp_all add: same_deal_def)
  have deal: "same_deal a0 a'"
    using ag_step_wf [OF wf(1) assms(3)] wf(2) same_deal_trans by blast
  show ?thesis
  proof (cases "is_with_unit c")
    case True
    with assms(3) deal show ?thesis
      by (cases c) (auto simp: with_unit_def)
  next
    case False
    then have "if r = None then escrow buyer seller (ag_phase a) (call_actor c) (ag_phase a') \<and> ag_unit a' = ag_unit a
        else a' = a"
      using ag_step_refines [OF wf(1), of dec c a'] ag_step_error [of dec a c a'] ag_step_unit [OF assms(3)] assms(3)
      by (cases r) simp_all
    with False deal show ?thesis
      by (cases c) simp_all
  qed
qed

theorem agreement_refines_escrow_witness:
  "\<exists>a0. open_agreement_with ''deal-1'' ''escrow'' ''ada'' ''bob'' 3 (plain_meter 8) 10 ''agreement opened'' = Inr a0
     \<and> (\<exists>a1. ag_step zk_unmarshal a0 (Lock ''ada'' 11) = ok a1 \<and> escrow ''ada'' ''bob'' (ag_phase a0) ''ada'' (ag_phase a1)
          \<and> ag_unit a1 = ag_unit a0
          \<and> fst (ag_step zk_unmarshal a1 (WithUnit ''NEX'')) = a1\<lparr>ag_unit := \<lparr>un_symbol = ''NEX''\<rparr>\<rparr>)"
proof -
  obtain a0 where a0: "open_agreement_with ''deal-1'' ''escrow'' ''ada'' ''bob'' 3 (plain_meter 8) 10
      ''agreement opened'' = Inr a0"
    using ex_opens [of 3] by auto
  have "snd (ag_step zk_unmarshal a0 (Lock ''ada'' 11)) = None"
    using open_agreement_with_Inr [OF a0] by (auto simp: ag_lock_def ag_append_eq ag_wf_can_append ag_wf_def plain_meter_def)
  then obtain a1 where a1: "ag_step zk_unmarshal a0 (Lock ''ada'' 11) = ok a1"
    by (metis prod.collapse)
  then have "a1 = run (ag_step zk_unmarshal) a0 [Lock ''ada'' 11]"
    by simp
  from agreement_refines_escrow [OF a0 this prod.collapse [symmetric], of "WithUnit ''NEX''"]
      agreement_refines_escrow [OF a0 _ a1, of "[]"] a0 a1 show ?thesis
    by (auto simp del: ag_step.simps)
qed

text \<open>
  C6. The receipts are the whole story: after any calls, the status, the lock and close times and the sealed locks of
  an agreement are what an auditor rebuilds from the receipts alone, each receipt was written by a party entitled to
  that action, and the value is with the party the status says.
\<close>

theorem agreement_receipts_tell_all:
  assumes "open_agreement_with aid kind buyer seller amount meter now note = Inr a0"
    and "a = run (ag_step dec) a0 cs"
  shows "replay (ag_receipts a) = journal_of a \<and> (\<forall>r \<in> set (ag_receipts a). authored a0 r) \<and> ag_released_to a = payee a"
proof -
  have "ag_wf a \<and> same_deal a0 a"
    unfolding assms(2) using open_agreement_with_Inr [OF assms(1)] ag_run_wf by blast
  then show ?thesis
    by (auto simp: ag_wf_def same_deal_def authored_def)
qed

theorem agreement_receipts_tell_all_witness:
  "\<exists>a0. open_agreement_with ''deal-1'' ''escrow'' ''ada'' ''bob'' 3 (plain_meter 8) 10 ''agreement opened'' = Inr a0
     \<and> replay (ag_receipts (run (ag_step zk_unmarshal) a0 [Lock ''ada'' 11, Reject ''bob'' 12]))
       = journal_of (run (ag_step zk_unmarshal) a0 [Lock ''ada'' 11, Reject ''bob'' 12])"
  using ex_opens [of 3] agreement_receipts_tell_all [OF _ refl] by fastforce

text \<open>
  \<open>AcceptWithEvidence\<close> is the atomic composition of \<open>Note\<close> and \<open>Accept\<close>: when both succeed one after the other it
  returns the same agreement, and when either fails it returns that failure and leaves the agreement untouched.
\<close>

theorem accept_with_evidence_atomic:
  "accept_with_evidence dec rnd a author p cit t =
     (let two = and_then (ag_note a author ''evidence'' cit t) (\<lambda>n. ag_accept dec rnd n p t)
      in if snd two = None then two else (a, snd two))"
  by (auto simp: accept_with_evidence_def and_then_def split: prod.splits option.splits)

text \<open>
  C29. When each transition of an unsealed agreement succeeds: exactly when its actor holds the role, the status allows
  it, the clock allows it and a step is left.
\<close>

theorem agreement_guards_exact:
  assumes "ag_wf a" and "ag_sealed a = None"
  shows
    "(snd (ag_lock a p t) = None \<longleftrightarrow> p = ag_buyer a \<and> ag_status a = StatusOpen \<and> ag_steps a < max_steps (ag_meter a))
   \<and> (snd (ag_accept dec rnd a p t) = None
        \<longleftrightarrow> p = ag_seller a \<and> ag_status a = StatusLocked \<and> ag_steps a < max_steps (ag_meter a))
   \<and> (snd (ag_reject a p t) = None
        \<longleftrightarrow> p = ag_seller a \<and> ag_status a = StatusLocked \<and> ag_steps a < max_steps (ag_meter a))
   \<and> (snd (set_deadline a p d t) = None
        \<longleftrightarrow> p \<in> {ag_buyer a, ag_seller a} \<and> \<not> ag_terminal a \<and> t < d \<and> ag_steps a < max_steps (ag_meter a))
   \<and> (snd (ag_expire a p t) = None
        \<longleftrightarrow> p \<in> {ag_buyer a, ag_seller a} \<and> \<not> ag_terminal a \<and> ag_deadline a \<noteq> 0 \<and> ag_deadline a \<le> t
          \<and> ag_steps a < max_steps (ag_meter a))
   \<and> (snd (ag_note a p act cit t) = None
        \<longleftrightarrow> p \<in> {ag_buyer a, ag_seller a} \<and> \<not> ag_terminal a \<and> cit \<noteq> [] \<and> act = ''evidence''
          \<and> ag_steps a < max_steps (ag_meter a))"
proof -
  note append = ag_append_eq ag_wf_can_append [OF assms(1)]
  have open_or_locked: "ag_status a \<noteq> StatusOpen \<and> ag_status a \<noteq> StatusLocked \<longleftrightarrow> ag_terminal a"
    using ag_wf_status [OF assms(1)] by (auto simp: ag_terminal_iff)
  have "snd (ag_lock a p t) = None
      \<longleftrightarrow> p = ag_buyer a \<and> ag_status a = StatusOpen \<and> ag_steps a < max_steps (ag_meter a)"
    by (simp add: ag_lock_def append)
  moreover have "snd (ag_accept dec rnd a p t) = None
      \<longleftrightarrow> p = ag_seller a \<and> ag_status a = StatusLocked \<and> ag_steps a < max_steps (ag_meter a)"
    by (simp add: ag_accept_def assms(2) append)
  moreover have "snd (ag_reject a p t) = None
      \<longleftrightarrow> p = ag_seller a \<and> ag_status a = StatusLocked \<and> ag_steps a < max_steps (ag_meter a)"
    by (simp add: ag_reject_def is_sealed_def assms(2) append)
  moreover have "snd (set_deadline a p d t) = None \<longleftrightarrow>
      p \<in> {ag_buyer a, ag_seller a} \<and> \<not> ag_terminal a \<and> t < d \<and> ag_steps a < max_steps (ag_meter a)"
    by (auto simp: set_deadline_def append)
  moreover have "snd (ag_expire a p t) = None \<longleftrightarrow>
      p \<in> {ag_buyer a, ag_seller a} \<and> \<not> ag_terminal a \<and> ag_deadline a \<noteq> 0 \<and> ag_deadline a \<le> t
      \<and> ag_steps a < max_steps (ag_meter a)"
    unfolding ag_expire_def open_or_locked by (auto simp: is_zero_time_def append)
  moreover have "snd (ag_note a p act cit t) = None \<longleftrightarrow>
      p \<in> {ag_buyer a, ag_seller a} \<and> \<not> ag_terminal a \<and> cit \<noteq> [] \<and> act = ''evidence''
      \<and> ag_steps a < max_steps (ag_meter a)"
    by (auto simp: ag_note_def append)
  ultimately show ?thesis
    by blast
qed

theorem agreement_guards_exact_witness:
  "\<exists>a. ag_wf a \<and> ag_sealed a = None \<and> snd (ag_lock a ''ada'' 11) = None \<and> snd (ag_lock a ''bob'' 11) \<noteq> None"
proof -
  obtain a where "open_agreement_with ''deal-1'' ''escrow'' ''ada'' ''bob'' 3 (plain_meter 8) 10 ''agreement opened'' = Inr a"
    using ex_opens [of 3] by auto
  from open_agreement_with_Inr [OF this]
  have a: "ag_wf a" "ag_sealed a = None" "ag_status a = StatusOpen" "ag_buyer a = ''ada''"
      "length (ag_receipts a) = 1" "ag_meter a = plain_meter 8"
    by (simp_all add: plain_meter_def)
  then have "ag_steps a = 1"
    by (simp add: ag_wf_def)
  with a agreement_guards_exact [OF a(1,2), of _ 11] show ?thesis
    by (intro exI [of _ a]) simp
qed

subsubsection \<open>Taking back\<close>

fun call_time :: "ag_call \<Rightarrow> go_time" where
  "call_time (Lock p t) = t"
| "call_time (Accept p t rnd) = t"
| "call_time (Reject p t) = t"
| "call_time (SetDeadline p d t) = t"
| "call_time (Expire p t) = t"
| "call_time (Note p act cit t) = t"
| "call_time (AcceptWithEvidence author p cit t rnd) = t"
| "call_time (Apply m t rnd) = t"
| "call_time (StartSealed ds) = 0"
| "call_time (WithUnit symbol) = 0"

fun sets_deadline :: "ag_call \<Rightarrow> bool" where
  "sets_deadline (SetDeadline p d t) = True"
| "sets_deadline _ = False"

definition holds :: "agreement \<Rightarrow> agreement \<Rightarrow> bool" where
  "holds a b \<longleftrightarrow> ag_status b = StatusLocked \<and> ag_deadline b = ag_deadline a \<and> ag_seller b = ag_seller a
     \<and> ag_released_to b = ag_released_to a"

lemma holds_step:
  assumes "holds a b" and "ag_step dec b c = (b', r)" and "call_actor c \<noteq> ag_seller a" and "\<not> sets_deadline c"
    and "ag_deadline a = 0 \<or> call_time c < ag_deadline a"
  shows "holds a b'"
proof (cases r)
  case (Some e)
  with assms ag_step_error show ?thesis
    by blast
next
  case None
  show ?thesis
  proof (cases c)
    case (AcceptWithEvidence author p cit t rnd)
    with assms(2) None obtain n where "ag_note b author ''evidence'' cit t = (n, None)"
        and "ag_accept dec rnd n p t = (b', None)"
      by (auto dest: accept_with_evidence_ok)
    then have "p = ag_seller b"
      using ag_note_ok ag_accept_ok by fastforce
    with AcceptWithEvidence assms(1,3) show ?thesis
      by (simp add: holds_def)
  next
    case (Apply m t rnd)
    with assms None have "ag_apply dec rnd b m t = (b', None)"
      by simp
    from ag_apply_ok [OF this] Apply assms(1,3) show ?thesis
      by (auto simp: holds_def dest!: ag_lock_ok ag_accept_ok ag_reject_ok ag_seal_lock_ok)
  qed (use assms None in \<open>auto simp: holds_def with_unit_def split: option.splits
      dest!: ag_lock_ok ag_accept_ok ag_reject_ok ag_note_ok ag_expire_ok start_sealed_ok\<close>)
qed

text \<open>
  C14. No takeback: as long as the seller makes no call, nobody moves the deadline and the deadline has not come, a
  locked value stays locked and undelivered whatever calls are made, and \<open>Takeback\<close> itself is always refused.
\<close>

theorem agreement_no_takeback:
  assumes "ag_status a = StatusLocked"
    and "\<And>c. c \<in> set cs \<Longrightarrow> call_actor c \<noteq> ag_seller a \<and> \<not> sets_deadline c
          \<and> (ag_deadline a = 0 \<or> call_time c < ag_deadline a)"
  shows "ag_status (run (ag_step dec) a cs) = StatusLocked
    \<and> ag_released_to (run (ag_step dec) a cs) = ag_released_to a \<and> takeback (run (ag_step dec) a cs) p t \<noteq> None"
proof -
  have "holds a (run (ag_step dec) b cs)" if "holds a b" for b
    using that assms(2)
  proof (induction cs arbitrary: b)
    case (Cons c cs)
    obtain b' r where c: "ag_step dec b c = (b', r)"
      by fastforce
    have "holds a b'"
      using holds_step [OF Cons.prems(1) c] Cons.prems(2) [of c] by simp
    then have "holds a (run (ag_step dec) b' cs)"
      by (rule Cons.IH) (simp add: Cons.prems(2))
    with c show ?case
      by simp
  qed simp
  with assms(1) show ?thesis
    by (simp add: holds_def takeback_def)
qed

theorem agreement_no_takeback_witness:
  "\<exists>a0. open_agreement_with ''deal-1'' ''escrow'' ''ada'' ''bob'' 3 (plain_meter 8) 10 ''agreement opened'' = Inr a0
     \<and> (let a = a0\<lparr>ag_deadline := 20, ag_status := StatusLocked\<rparr>;
            tries = [Expire ''ada'' 19, Apply \<lparr>mv_actor = ''ada'', mv_action = ''takeback'', mv_partial = 0\<rparr> 19 (\<lambda>i. None)]
        in ag_status (run (ag_step zk_unmarshal) a tries) = StatusLocked)"
proof -
  obtain a0 where a0: "open_agreement_with ''deal-1'' ''escrow'' ''ada'' ''bob'' 3 (plain_meter 8) 10
      ''agreement opened'' = Inr a0"
    using ex_opens [of 3] by auto
  let ?a = "a0\<lparr>ag_deadline := 20, ag_status := StatusLocked\<rparr>"
  have "ag_seller ?a = ''bob''"
    using open_agreement_with_Inr [OF a0] by simp
  then have "ag_status (run (ag_step zk_unmarshal) ?a [Expire ''ada'' 19, Apply \<lparr>mv_actor = ''ada'',
      mv_action = ''takeback'', mv_partial = 0\<rparr> 19 (\<lambda>i. None)]) = StatusLocked"
    by (intro agreement_no_takeback [THEN conjunct1]) auto
  with a0 show ?thesis
    by (auto simp: Let_def)
qed

text \<open>
  A value is never stranded: while two steps are left, either party of an open or locked agreement can set a
  deadline and, once it has come, return the value to the buyer without the other party.
\<close>

theorem agreement_exit_by_deadline:
  assumes "ag_wf a" and "\<not> ag_terminal a" and "p \<in> {ag_buyer a, ag_seller a}"
    and "ag_steps a + 2 \<le> max_steps (ag_meter a)" and "now < d" and "d \<le> later" and "d \<noteq> 0"
  shows "\<exists>b c. set_deadline a p d now = ok b \<and> ag_expire b p later = ok c
    \<and> ag_status c = StatusExpired \<and> ag_released_to c = ag_buyer a \<and> ag_closed_at c = Some later"
proof -
  have s: "ag_status a = StatusOpen \<or> ag_status a = StatusLocked" and "can_append a"
    using ag_wf_status [OF assms(1,2)] ag_wf_can_append [OF assms(1)] assms(4) by auto
  let ?b = "(pushed a p ''deadline'' (format_rfc3339 d) now)\<lparr>ag_deadline := d\<rparr>"
  have "set_deadline a p d now = ok ?b"
    using assms(2,3,5) \<open>can_append a\<close> by (auto simp: set_deadline_def ag_append_eq)
  moreover have "can_append ?b"
    using assms(1,4) by (simp add: can_append_def ag_wf_def)
  then have "\<exists>c. ag_expire ?b p later = ok c \<and> ag_status c = StatusExpired \<and> ag_released_to c = ag_buyer a
      \<and> ag_closed_at c = Some later"
    using s assms(3,6,7) by (auto simp: ag_expire_def is_zero_time_def ag_append_eq)
  ultimately show ?thesis
    by blast
qed

theorem agreement_exit_by_deadline_witness:
  "\<exists>a0. open_agreement_with ''deal-1'' ''escrow'' ''ada'' ''bob'' 3 (plain_meter 8) 10 ''agreement opened'' = Inr a0
     \<and> (\<exists>b c. set_deadline a0 ''bob'' 15 11 = ok b \<and> ag_expire b ''bob'' 16 = ok c \<and> ag_released_to c = ''ada'')"
proof -
  obtain a where a: "open_agreement_with ''deal-1'' ''escrow'' ''ada'' ''bob'' 3 (plain_meter 8) 10
      ''agreement opened'' = Inr a"
    using ex_opens [of 3] by auto
  from open_agreement_with_Inr [OF this]
  have wf: "ag_wf a" and f: "ag_status a = StatusOpen" "ag_buyer a = ''ada''" "ag_seller a = ''bob''"
      "length (ag_receipts a) = 1" "ag_meter a = plain_meter 8"
    by (simp_all add: plain_meter_def)
  then have "ag_steps a = 1"
    by (simp add: ag_wf_def)
  with agreement_exit_by_deadline [OF wf, of "''bob''" 11 15 16] f a show ?thesis
    by (auto simp: ag_terminal_def)
qed

end
