(* ===== verification/Go_Json.thy ===== *)
theory Go_Json
  imports Go_Std
begin

text \<open>
  What \<open>encoding/json\<close> does to values that are marshalled and read back: a string is coerced to valid UTF-8, each
  byte that starts no valid sequence becoming the replacement character; a number that is not finite and a time whose
  year has not four digits are errors; everything else the checkpoints hold comes back as it was.
\<close>

text \<open>The length of the valid UTF-8 sequence at the head of a byte string, 0 when there is none.\<close>

definition cont_byte :: "nat \<Rightarrow> bool" where
  "cont_byte b \<longleftrightarrow> 0x80 \<le> b \<and> b \<le> 0xBF"

fun rune_length :: "nat list \<Rightarrow> nat" where
  "rune_length [] = 0"
| "rune_length (a # bs) =
     (if a < 0x80 then 1
      else if 0xC2 \<le> a \<and> a \<le> 0xDF then
        (case bs of b # _ \<Rightarrow> if cont_byte b then 2 else 0 | [] \<Rightarrow> 0)
      else if 0xE0 \<le> a \<and> a \<le> 0xEF then
        (case bs of b # c # _ \<Rightarrow>
           if cont_byte b \<and> cont_byte c \<and> (a = 0xE0 \<longrightarrow> 0xA0 \<le> b) \<and> (a = 0xED \<longrightarrow> b \<le> 0x9F) then 3 else 0
         | _ \<Rightarrow> 0)
      else if 0xF0 \<le> a \<and> a \<le> 0xF4 then
        (case bs of b # c # d # _ \<Rightarrow>
           if cont_byte b \<and> cont_byte c \<and> cont_byte d \<and> (a = 0xF0 \<longrightarrow> 0x90 \<le> b) \<and> (a = 0xF4 \<longrightarrow> b \<le> 0x8F)
           then 4 else 0
         | _ \<Rightarrow> 0)
      else 0)"

definition char_code :: "char \<Rightarrow> nat" where
  "char_code c = of_char c"

function json_string :: "string \<Rightarrow> string" where
  "json_string s =
     (if s = [] then []
      else let n = rune_length (map char_code s)
           in if n = 0 then [CHR 0xEF, CHR 0xBF, CHR 0xBD] @ json_string (drop 1 s)
              else take n s @ json_string (drop n s))"
  by pat_completeness auto
termination
  by (relation "measure length") auto

declare json_string.simps [simp del]

lemma json_string_nil [simp]: "json_string [] = []"
  by (simp add: json_string.simps)

definition utf8 :: "string \<Rightarrow> bool" where
  "utf8 s \<longleftrightarrow> json_string s = s"

lemma utf8_nil [simp]: "utf8 []"
  by (simp add: utf8_def)

lemma utf8_ascii_Cons [simp]: "char_code c < 0x80 \<Longrightarrow> utf8 (c # s) \<longleftrightarrow> utf8 s"
  by (simp add: utf8_def json_string.simps [of "c # s"])

lemma utf8_ascii: "\<forall>c \<in> set s. char_code c < 0x80 \<Longrightarrow> utf8 s"
  by (induction s) auto

definition f64_finite :: "f64 \<Rightarrow> bool" where
  "f64_finite x \<longleftrightarrow> uint x mod 2 ^ 63 < 2047 * 2 ^ 52"

definition json_year_ok :: "go_time \<Rightarrow> bool" where
  "json_year_ok t \<longleftrightarrow> (case civil_of_days (t div second div 86400) of (y, m, d) \<Rightarrow> 0 \<le> y \<and> y \<le> 9999)"

end
