(* ===== verification/Checkpoint.thy ===== *)
theory Checkpoint
  imports Agreement_Laws Go_Json
begin

text \<open>
  Private checkpoints of agreements (\<open>internal/nexum/checkpoint.go\<close>): what \<open>PrivateCheckpoint\<close> writes and what
  \<open>RestorePrivate\<close> accepts. The copy through JSON is modelled with what \<open>encoding/json\<close> does to the fields
  (\<open>Go_Json\<close>). The checkpoint holds the agreement itself and not a copy; sharing is not modelled, so a checkpoint here
  is that of the moment it was taken. The laws say exactly which agreements come back unchanged.
\<close>

subsection \<open>The code\<close>

record checkpoint_data =
  pc_version :: int
  pc_agreement :: "agreement option"
  pc_steps :: int
  pc_ledger :: "ledger_state option"

definition private_checkpoint :: "agreement \<Rightarrow> checkpoint_data" where
  "private_checkpoint a = \<lparr>pc_version = 1, pc_agreement = Some a, pc_steps = ag_steps a,
     pc_ledger = (case ag_sealed a of None \<Rightarrow> None | Some l \<Rightarrow> Some (ledger_private_state l))\<rparr>"

definition json_status :: "status \<Rightarrow> status" where
  "json_status st = (case st of StatusText s \<Rightarrow> StatusText (json_string s) | _ \<Rightarrow> st)"

definition json_receipt :: "receipt \<Rightarrow> receipt" where
  "json_receipt r = r\<lparr>r_action := json_string (r_action r), r_actor := json_string (r_actor r),
     r_note := json_string (r_note r), r_prev := json_string (r_prev r), r_hash := json_string (r_hash r)\<rparr>"

definition json_times :: "agreement \<Rightarrow> go_time list" where
  "json_times a = [ag_deadline a, ag_created_at a]
     @ (case ag_locked_at a of None \<Rightarrow> [] | Some t \<Rightarrow> [t]) @ (case ag_closed_at a of None \<Rightarrow> [] | Some t \<Rightarrow> [t])
     @ map r_at (ag_receipts a)"

text \<open>\<open>json.Marshal\<close> then \<open>json.Unmarshal\<close> into a new agreement: the ledger and the step counter are not serialized.\<close>

definition json_copy :: "agreement \<Rightarrow> go_error + agreement" where
  "json_copy a =
     (if \<not> f64_finite (mt_cost_usd (ag_meter a)) \<or> \<not> f64_finite (mt_budget_usd (ag_meter a))
        then Inl (Errorf ''json: unsupported value'' [])
      else if \<not> list_all json_year_ok (json_times a)
        then Inl (Errorf ''Time.MarshalJSON: year outside of range [0,9999]'' [])
      else Inr (a\<lparr>ag_id := json_string (ag_id a), ag_kind := json_string (ag_kind a),
        ag_buyer := json_string (ag_buyer a), ag_seller := json_string (ag_seller a),
        ag_unit := \<lparr>un_symbol = json_string (un_symbol (ag_unit a))\<rparr>, ag_status := json_status (ag_status a),
        ag_meter := (ag_meter a)\<lparr>mt_effort := json_string (mt_effort (ag_meter a))\<rparr>,
        ag_released_to := json_string (ag_released_to a), ag_receipts := map json_receipt (ag_receipts a),
        ag_sealed := None, ag_steps := 0\<rparr>))"

definition bad_checkpoint :: go_error where
  "bad_checkpoint = Errorf ''nexum: invalid private checkpoint'' []"

text \<open>The switch over the status.\<close>

definition status_fields_ok :: "agreement \<Rightarrow> bool" where
  "status_fields_ok a =
     (case ag_status a of
        StatusOpen \<Rightarrow> \<not> (ag_locked_at a \<noteq> None \<or> ag_closed_at a \<noteq> None \<or> ag_released_to a \<noteq> [])
      | StatusLocked \<Rightarrow> \<not> (ag_locked_at a = None \<or> ag_closed_at a \<noteq> None \<or> ag_released_to a \<noteq> [])
      | StatusAccepted \<Rightarrow> \<not> (ag_locked_at a = None \<or> ag_closed_at a = None \<or> ag_released_to a \<noteq> ag_seller a)
      | StatusRejected \<Rightarrow> \<not> (ag_locked_at a = None \<or> ag_closed_at a = None \<or> ag_released_to a \<noteq> ag_buyer a)
      | StatusExpired \<Rightarrow> \<not> (ag_closed_at a = None \<or> ag_released_to a \<noteq> ag_buyer a)
      | _ \<Rightarrow> False)"

definition restore_sealed :: "ledger_state option \<Rightarrow> agreement \<Rightarrow> go_error + agreement" where
  "restore_sealed ls a =
     (case ls of
        Some s \<Rightarrow>
          if length (ls_randomness s) \<noteq> length (ag_sealed_locks a) then Inl bad_checkpoint
          else (case ledger_restore s of
              Inl e \<Rightarrow> Inl bad_checkpoint
            | Inr l \<Rightarrow>
                if ag_sealed_locks a \<noteq> [] then
                  (case aggregate l (ag_sealed_locks a) of
                     Inl e \<Rightarrow> Inl bad_checkpoint
                   | Inr sm \<Rightarrow>
                       if ag_status a = StatusAccepted then
                         (if ag_sealed_sum a \<noteq> [] then Inl bad_checkpoint else Inr (a\<lparr>ag_sealed := Some l\<rparr>))
                       else if sm \<noteq> ag_sealed_sum a then Inl bad_checkpoint
                       else Inr (a\<lparr>ag_sealed := Some l\<rparr>))
                else if ag_sealed_sum a \<noteq> [] then Inl bad_checkpoint
                else Inr (a\<lparr>ag_sealed := Some l\<rparr>))
      | None \<Rightarrow>
          if ag_sealed_locks a \<noteq> [] \<or> ag_sealed_sum a \<noteq> [] then Inl bad_checkpoint else Inr a)"

definition restore_private :: "checkpoint_data \<Rightarrow> go_error + agreement" where
  "restore_private s =
     (if pc_version s \<noteq> 1 then Inl bad_checkpoint
      else case pc_agreement s of
          None \<Rightarrow> Inl bad_checkpoint
        | Some a0 \<Rightarrow>
            (case json_copy a0 of
               Inl e \<Rightarrow> Inl e
             | Inr a \<Rightarrow>
                 if ag_id a = [] \<or> ag_kind a = [] \<or> ag_buyer a = [] \<or> ag_seller a = [] \<or> ag_buyer a = ag_seller a
                    \<or> sint (ag_amount a) \<le> 0 \<or> pc_steps s \<noteq> int (length (ag_receipts a)) \<or> pc_steps s < 1
                    \<or> pc_steps s > max_steps (ag_meter a) \<or> max_steps (ag_meter a) > 128
                   then Inl bad_checkpoint
                 else if ag_verify_receipts a \<noteq> None then Inl bad_checkpoint
                 else let a = a\<lparr>ag_steps := pc_steps s\<rparr>
                      in if \<not> status_fields_ok a then Inl bad_checkpoint else restore_sealed (pc_ledger s) a))"

subsection \<open>Agreements that survive JSON\<close>

definition receipt_safe :: "receipt \<Rightarrow> bool" where
  "receipt_safe r \<longleftrightarrow> utf8 (r_action r) \<and> utf8 (r_actor r) \<and> utf8 (r_note r) \<and> utf8 (r_prev r) \<and> utf8 (r_hash r)"

definition json_safe :: "agreement \<Rightarrow> bool" where
  "json_safe a \<longleftrightarrow>
     f64_finite (mt_cost_usd (ag_meter a)) \<and> f64_finite (mt_budget_usd (ag_meter a)) \<and> list_all json_year_ok (json_times a)
     \<and> utf8 (ag_id a) \<and> utf8 (ag_kind a) \<and> utf8 (ag_buyer a) \<and> utf8 (ag_seller a) \<and> utf8 (un_symbol (ag_unit a))
     \<and> utf8 (mt_effort (ag_meter a)) \<and> utf8 (ag_released_to a) \<and> list_all receipt_safe (ag_receipts a)"

lemma json_receipt_safe: "receipt_safe r \<Longrightarrow> json_receipt r = r"
  by (simp add: json_receipt_def receipt_safe_def utf8_def)

lemma receipt_safe_json: "json_receipt r = r \<Longrightarrow> receipt_safe r"
  unfolding receipt_safe_def utf8_def
  by (frule arg_cong [of _ _ r_action], frule arg_cong [of _ _ r_actor], frule arg_cong [of _ _ r_note],
      frule arg_cong [of _ _ r_prev], drule arg_cong [of _ _ r_hash]) (simp add: json_receipt_def)

lemma json_copy_safe:
  assumes "json_safe a" and "ag_status a \<in> {StatusOpen, StatusLocked, StatusAccepted, StatusRejected, StatusExpired}"
  shows "json_copy a = Inr (a\<lparr>ag_sealed := None, ag_steps := 0\<rparr>)"
proof -
  have "map json_receipt (ag_receipts a) = ag_receipts a"
    using assms(1) by (auto simp: json_safe_def list_all_iff json_receipt_safe intro: map_idI)
  moreover have "json_status (ag_status a) = ag_status a"
    using assms(2) by (auto simp: json_status_def)
  ultimately show ?thesis
    using assms(1) by (simp add: json_copy_def json_safe_def utf8_def)
qed

lemma wf_status_fields: "ag_wf a \<Longrightarrow> status_fields_ok a"
  by (auto simp: ag_wf_def ag_times_def payee_def status_fields_ok_def)

lemma restore_sealed_none:
  "ledger_restore s = Inr l \<Longrightarrow> length (ls_randomness s) = 0 \<Longrightarrow> ag_sealed_locks b = [] \<Longrightarrow> ag_sealed_sum b = [] \<Longrightarrow>
   restore_sealed (Some s) b = Inr (b\<lparr>ag_sealed := Some l\<rparr>)"
  by (simp add: restore_sealed_def)

lemma restore_sealed_some:
  "ledger_restore s = Inr l \<Longrightarrow> length (ls_randomness s) = length (ag_sealed_locks b) \<Longrightarrow> ag_sealed_locks b \<noteq> [] \<Longrightarrow>
   aggregate l (ag_sealed_locks b) = Inr sm \<Longrightarrow> (ag_status b = StatusAccepted \<Longrightarrow> ag_sealed_sum b = []) \<Longrightarrow>
   (ag_status b \<noteq> StatusAccepted \<Longrightarrow> sm = ag_sealed_sum b) \<Longrightarrow>
   restore_sealed (Some s) b = Inr (b\<lparr>ag_sealed := Some l\<rparr>)"
  by (simp add: restore_sealed_def)

lemma restore_sealed_state:
  assumes "sealed_state ms a" and "\<forall>l. ag_sealed a = Some l \<longrightarrow> restorable_key (lg_p l)"
    and "length (ag_sealed_locks a) \<le> 128"
  shows "restore_sealed (pc_ledger (private_checkpoint a)) (a\<lparr>ag_sealed := None\<rparr>) = Inr a"
proof (cases "ag_sealed a")
  case None
  with assms(1) show ?thesis
    by (simp add: sealed_state_def restore_sealed_def private_checkpoint_def)
next
  case (Some l)
  then have seal: "sealed_as l (ag_sealed_locks a) ms"
    and agg: "ms \<noteq> [] \<Longrightarrow> \<exists>sm. aggregate l (ag_sealed_locks a) = Inr sm
        \<and> (ag_status a \<noteq> StatusAccepted \<longrightarrow> sm = ag_sealed_sum a)"
    and none: "ms = [] \<or> ag_status a = StatusAccepted \<Longrightarrow> ag_sealed_sum a = []"
    using assms(1) by (simp_all add: sealed_state_def)
  have len: "length (lg_rs l) = length (ag_sealed_locks a)" "ms = [] \<longleftrightarrow> ag_sealed_locks a = []"
    using sealed_as_lengths [OF seal] by auto
  have restored: "ledger_restore (ledger_private_state l) = Inr l"
  proof (rule ledger_restore_private_state)
    show "\<forall>r \<in> set (lg_rs l). unit_factor (pl_n (lg_p l)) r"
      using seal unfolding sealed_as_def by blast
  qed (use Some assms(2,3) len in simp_all)
  have "restore_sealed (Some (ledger_private_state l)) (a\<lparr>ag_sealed := None\<rparr>) = Inr (a\<lparr>ag_sealed := Some l\<rparr>)"
  proof (cases "ms = []")
    case True
    with none len show ?thesis
      using restore_sealed_none [OF restored, of "a\<lparr>ag_sealed := None\<rparr>"] by (simp add: ledger_private_state_def)
  next
    case False
    with agg obtain sm where "aggregate l (ag_sealed_locks a) = Inr sm" "ag_status a \<noteq> StatusAccepted \<longrightarrow> sm = ag_sealed_sum a"
      by blast
    with none len False show ?thesis
      using restore_sealed_some [OF restored, of "a\<lparr>ag_sealed := None\<rparr>" sm] by (simp add: ledger_private_state_def)
  qed
  moreover have "a\<lparr>ag_sealed := Some l\<rparr> = a"
    using Some by simp
  ultimately show ?thesis
    using Some by (simp add: private_checkpoint_def)
qed

lemma wf_locks_length: "ag_wf a \<Longrightarrow> int (length (ag_sealed_locks a)) \<le> ag_steps a"
  using replay_seals_length [of "ag_receipts a"] by (simp add: ag_wf_def journal_of_def)

lemma restore_checkpoint:
  assumes wf: "ag_wf a" and st: "sealed_state ms a" and safe: "json_safe a" and ids: "ag_id a \<noteq> []" "ag_kind a \<noteq> []"
    and small: "max_steps (ag_meter a) \<le> 128" and key: "\<forall>l. ag_sealed a = Some l \<longrightarrow> restorable_key (lg_p l)"
  shows "restore_private (private_checkpoint a) = Inr a"
proof -
  have copy: "json_copy a = Inr (a\<lparr>ag_sealed := None, ag_steps := 0\<rparr>)"
    using safe wf by (intro json_copy_safe) (auto simp: ag_wf_def)
  have "status_fields_ok (a\<lparr>ag_sealed := None\<rparr>) = status_fields_ok a"
    by (simp add: status_fields_ok_def cong: status.case_cong)
  then have "status_fields_ok (a\<lparr>ag_sealed := None\<rparr>)"
    using wf_status_fields [OF wf] by simp
  moreover have "length (ag_sealed_locks a) \<le> 128"
    using wf_locks_length [OF wf] wf small by (simp add: ag_wf_def)
  then have "restore_sealed (pc_ledger (private_checkpoint a)) (a\<lparr>ag_sealed := None\<rparr>) = Inr a"
    using st key by (intro restore_sealed_state)
  moreover have "pc_version (private_checkpoint a) = 1" "pc_agreement (private_checkpoint a) = Some a"
    "pc_steps (private_checkpoint a) = ag_steps a"
    by (simp_all add: private_checkpoint_def)
  moreover have "ag_buyer a \<noteq> []" "ag_seller a \<noteq> []" "ag_buyer a \<noteq> ag_seller a" "\<not> sint (ag_amount a) \<le> 0"
    "int (length (ag_receipts a)) = ag_steps a" "\<not> ag_steps a < 1" "\<not> max_steps (ag_meter a) < ag_steps a"
    "verify_receipts (ag_id a) (ag_receipts a) = None"
    using wf by (auto simp: ag_wf_def)
  ultimately show ?thesis
    using ids small copy by (simp add: restore_private_def ag_verify_receipts_def Let_def)
qed

subsection \<open>Properties of checkpoints\<close>

lemma utf8_hash: "utf8 (hash_receipt cid r)"
proof -
  have "char_code (hex_digit d) < 0x80" if "d < 16" for d
    using that by (auto simp: hex_digit_def char_code_def)
  moreover have "unat b div 16 < 16" for b :: "8 word"
    using unsigned_less [of b, where 'a = nat] by auto
  ultimately have "\<forall>c \<in> set (hex_encode bs). char_code c < 0x80" for bs
    by (auto simp: hex_encode_def hex_byte_def)
  then show ?thesis
    unfolding hash_receipt_def by (intro utf8_ascii) blast
qed

lemma receipt_safe_new:
  "utf8 act \<Longrightarrow> utf8 p \<Longrightarrow> utf8 n \<Longrightarrow> utf8 (head_hash rs) \<Longrightarrow> receipt_safe (new_receipt cid rs p act n t)"
  by (simp add: receipt_safe_def utf8_hash)

lemma ex_checkpoint:
  "\<exists>a0. open_agreement ''deal-1'' ''escrow'' ''ada'' ''bob'' 3 (plain_meter 8) 10 = Inr a0
     \<and> json_safe (run (ag_step zk_unmarshal) a0 [Lock ''ada'' 11])
     \<and> max_steps (ag_meter (run (ag_step zk_unmarshal) a0 [Lock ''ada'' 11])) = 8
     \<and> ag_sealed (run (ag_step zk_unmarshal) a0 [Lock ''ada'' 11]) = None"
proof -
  let ?r = "new_receipt ''deal-1'' [] ''ada'' ''open'' ''agreement opened'' 10"
  obtain a0 where a0: "open_agreement ''deal-1'' ''escrow'' ''ada'' ''bob'' 3 (plain_meter 8) 10 = Inr a0"
    and f: "a0 = \<lparr>ag_id = ''deal-1'', ag_kind = ''escrow'', ag_buyer = ''ada'', ag_seller = ''bob'', ag_amount = 3,
        ag_unit = \<lparr>un_symbol = []\<rparr>, ag_status = StatusOpen, ag_meter = plain_meter 8, ag_deadline = 0, ag_created_at = 10,
        ag_locked_at = None, ag_closed_at = None, ag_released_to = [], ag_receipts = [?r], ag_sealed = None,
        ag_sealed_locks = [], ag_sealed_sum = [], ag_steps = 1\<rparr>"
    by (simp add: open_agreement_def open_agreement_with_def ag_append_eq can_append_def Let_def plain_meter_def
        over_budget_def f64_gt_def pushed_def)
  let ?a = "run (ag_step zk_unmarshal) a0 [Lock ''ada'' 11]"
  have a: "?a = (pushed a0 ''ada'' ''lock'' ''value locked'' 11)\<lparr>ag_locked_at := Some 11, ag_status := StatusLocked\<rparr>"
    by (simp add: f ag_lock_def ag_append_eq can_append_def)
  have years: "json_year_ok 0" "json_year_ok 10" "json_year_ok 11"
    by code_simp+
  have finite: "f64_finite 0"
    by (simp add: f64_finite_def)
  have "receipt_safe ?r" "receipt_safe (new_receipt ''deal-1'' [?r] ''ada'' ''lock'' ''value locked'' 11)"
    by (intro receipt_safe_new; simp add: utf8_hash utf8_ascii char_code_def head_hash_def)+
  then have "json_safe ?a"
    using years finite
    unfolding a by (simp add: f json_safe_def json_times_def utf8_ascii char_code_def plain_meter_def)
  moreover have "max_steps (ag_meter ?a) = 8" "ag_sealed ?a = None"
    unfolding a by (simp_all add: f)
  ultimately show ?thesis
    using a0 by simp
qed

lemma restore_sealed_Inr:
  "restore_sealed ls b = Inr a \<Longrightarrow> ls = None \<and> a = b
     \<or> (\<exists>s l. ls = Some s \<and> ledger_restore s = Inr l \<and> a = b\<lparr>ag_sealed := Some l\<rparr>)"
  by (auto simp: restore_sealed_def split: if_splits option.splits sum.splits)

lemma restored_agreement:
  assumes "restore_private (private_checkpoint a) = Inr a"
  shows "ag_id a \<noteq> [] \<and> ag_kind a \<noteq> [] \<and> json_safe a \<and> max_steps (ag_meter a) \<le> 128
    \<and> (\<forall>l. ag_sealed a = Some l \<longrightarrow> restorable_key (lg_p l))"
proof -
  from assms obtain b where b: "json_copy a = Inr b" "ag_id b \<noteq> []" "ag_kind b \<noteq> []" "max_steps (ag_meter b) \<le> 128"
      "restore_sealed (pc_ledger (private_checkpoint a)) (b\<lparr>ag_steps := ag_steps a\<rparr>) = Inr a"
    by (auto simp: restore_private_def private_checkpoint_def Let_def not_less split: if_splits sum.splits)
  have copy: "b = a\<lparr>ag_id := json_string (ag_id a), ag_kind := json_string (ag_kind a),
        ag_buyer := json_string (ag_buyer a), ag_seller := json_string (ag_seller a),
        ag_unit := \<lparr>un_symbol = json_string (un_symbol (ag_unit a))\<rparr>, ag_status := json_status (ag_status a),
        ag_meter := (ag_meter a)\<lparr>mt_effort := json_string (mt_effort (ag_meter a))\<rparr>,
        ag_released_to := json_string (ag_released_to a), ag_receipts := map json_receipt (ag_receipts a),
        ag_sealed := None, ag_steps := 0\<rparr>"
    and plain: "f64_finite (mt_cost_usd (ag_meter a))" "f64_finite (mt_budget_usd (ag_meter a))" "list_all json_year_ok (json_times a)"
    using b(1) by (auto simp: json_copy_def split: if_splits)
  have "ag_sealed b = None"
    by (simp add: copy)
  then have "b = b\<lparr>ag_sealed := None\<rparr>"
    by (cases b) simp
  then obtain x where ab: "a = b\<lparr>ag_sealed := x, ag_steps := ag_steps a\<rparr>"
    using restore_sealed_Inr [OF b(5)] by (cases b) auto
  have key: "ledger_restore (ledger_private_state l) = Inr l" if "ag_sealed a = Some l" for l
    using restore_sealed_Inr [OF b(5)] that by (auto simp: private_checkpoint_def dest: arg_cong [of a _ ag_sealed])
  have same: "f a = f (b\<lparr>ag_sealed := x, ag_steps := ag_steps a\<rparr>)" for f :: "agreement \<Rightarrow> 'x"
    using ab by (rule arg_cong)
  have "json_receipt r = r" if "r \<in> set (ag_receipts a)" for r
    using same [of ag_receipts] that unfolding copy by (simp add: map_idI [symmetric]) (metis list.map_ident map_eq_conv)
  then have "list_all receipt_safe (ag_receipts a)"
    by (simp add: list_all_iff receipt_safe_json)
  moreover have "utf8 (ag_id a) \<and> utf8 (ag_kind a) \<and> utf8 (ag_buyer a) \<and> utf8 (ag_seller a) \<and> utf8 (un_symbol (ag_unit a))
     \<and> utf8 (mt_effort (ag_meter a)) \<and> utf8 (ag_released_to a)"
    using same [of ag_id] same [of ag_kind] same [of ag_buyer] same [of ag_seller] same [of "\<lambda>a. un_symbol (ag_unit a)"]
      same [of "\<lambda>a. mt_effort (ag_meter a)"] same [of ag_released_to]
    unfolding copy utf8_def by simp
  moreover have "ag_id a \<noteq> []" "ag_kind a \<noteq> []" "max_steps (ag_meter a) \<le> 128"
    using b(2-4) same [of ag_id] same [of ag_kind] unfolding copy by simp_all
  ultimately show ?thesis
    using plain key ledger_restored_key by (simp add: json_safe_def)
qed

text \<open>
  C18. A restart changes nothing, exactly for the checkpoints the code can restore: of any agreement that
  \<open>openAgreement\<close> opened and any calls changed, restoring the private checkpoint yields that very agreement (ledger head,
  sealed locks and sum, blinding factors, status and step counter) if and only if its identity and its kind are not
  empty, it survives JSON (\<open>json_safe\<close>: valid UTF-8, years from 0 to 9999, finite costs), its meter allows at most 128
  steps and its key, if it is sealed, has the shape and the length of 128 to 1024 bytes that the code insists on.
\<close>

theorem checkpoint_restores:
  assumes "open_agreement_with aid kind buyer seller amount meter now note = Inr a0" and "a = run (ag_step dec) a0 cs"
  shows "restore_private (private_checkpoint a) = Inr a
    \<longleftrightarrow> aid \<noteq> [] \<and> kind \<noteq> [] \<and> json_safe a \<and> max_steps (ag_meter a) \<le> 128
      \<and> (\<forall>l. ag_sealed a = Some l \<longrightarrow> restorable_key (lg_p l))"
proof -
  note opened = open_agreement_with_Inr [OF assms(1)]
  have "ag_id a = aid" "ag_kind a = kind" and wf: "ag_wf a"
    unfolding assms(2) using opened ag_run_wf [of a0 dec cs] by (auto simp: same_deal_def)
  moreover have "sealed_state (sealed_amounts (run_events dec a0 cs)) a"
    unfolding assms(2) by (rule ag_moves_sealed [OF run_moves opened_sealed_state [OF assms(1)]])
  ultimately show ?thesis
    using restore_checkpoint [OF wf] restored_agreement [of a] by blast
qed

text \<open>A locked agreement that is restored, and one that may take 200 steps, which is not.\<close>

theorem checkpoint_restores_witness:
  "\<exists>a0 b0. open_agreement_with ''deal-1'' ''escrow'' ''ada'' ''bob'' 3 (plain_meter 8) 10 ''agreement opened'' = Inr a0
     \<and> restore_private (private_checkpoint (run (ag_step zk_unmarshal) a0 [Lock ''ada'' 11]))
       = Inr (run (ag_step zk_unmarshal) a0 [Lock ''ada'' 11])
     \<and> open_agreement_with ''deal-1'' ''escrow'' ''ada'' ''bob'' 3 (plain_meter 200) 10 ''agreement opened'' = Inr b0
     \<and> restore_private (private_checkpoint b0) \<noteq> Inr b0"
proof -
  let ?run = "\<lambda>a. run (ag_step zk_unmarshal) a [Lock ''ada'' 11]"
  obtain a0 where "open_agreement ''deal-1'' ''escrow'' ''ada'' ''bob'' 3 (plain_meter 8) 10 = Inr a0"
    and ex: "json_safe (?run a0)" "max_steps (ag_meter (?run a0)) = 8" "ag_sealed (?run a0) = None"
    using ex_checkpoint by blast
  then have a0: "open_agreement_with ''deal-1'' ''escrow'' ''ada'' ''bob'' 3 (plain_meter 8) 10 ''agreement opened'' = Inr a0"
    using open_agreement_Inr by blast
  have "restore_private (private_checkpoint (?run a0)) = Inr (?run a0)"
    unfolding checkpoint_restores [OF a0 refl] using ex by simp
  moreover obtain b0 where b0: "open_agreement_with ''deal-1'' ''escrow'' ''ada'' ''bob'' 3 (plain_meter 200) 10
      ''agreement opened'' = Inr b0"
    by (simp add: open_agreement_with_def ag_append_eq can_append_def Let_def plain_meter_def over_budget_def f64_gt_def)
  moreover have "max_steps (ag_meter b0) = 200"
    using open_agreement_with_Inr [OF b0] by (simp add: plain_meter_def)
  then have "restore_private (private_checkpoint b0) \<noteq> Inr b0"
    using checkpoint_restores [OF b0 refl, of zk_unmarshal "[]"] by simp
  ultimately show ?thesis
    using a0 by blast
qed

text \<open>
  What \<open>RestorePrivate\<close> accepts is consistent: the receipts verify and are as many as the steps, within the bound of the
  meter and of 128, the parties are two, the status agrees with the times and the holder of the value, and the sealed sum
  of an unsettled agreement is the aggregate of its locks under the restored key. So any later calls keep a ledger
  that verifies.
\<close>

lemma restore_accepts_consistent:
  assumes "restore_private s = Inr a"
  shows "ag_verify_receipts (run (ag_step dec) a cs) = None \<and> ag_steps a = int (length (ag_receipts a)) \<and> 1 \<le> ag_steps a
    \<and> ag_steps a \<le> max_steps (ag_meter a) \<and> max_steps (ag_meter a) \<le> 128 \<and> ag_buyer a \<noteq> ag_seller a
    \<and> 0 < sint (ag_amount a) \<and> status_fields_ok a
    \<and> (case ag_sealed a of
         None \<Rightarrow> ag_sealed_locks a = [] \<and> ag_sealed_sum a = []
       | Some l \<Rightarrow> ag_sealed_locks a \<noteq> [] \<and> ag_status a \<noteq> StatusAccepted \<longrightarrow>
           aggregate l (ag_sealed_locks a) = Inr (ag_sealed_sum a))"
proof -
  obtain b where b: "restore_sealed (pc_ledger s) b = Inr a" "status_fields_ok b" "ag_verify_receipts b = None"
    "ag_steps b = int (length (ag_receipts b))" "1 \<le> ag_steps b" "ag_steps b \<le> max_steps (ag_meter b)"
    "max_steps (ag_meter b) \<le> 128" "ag_buyer b \<noteq> ag_seller b" "0 < sint (ag_amount b)" "ag_sealed b = None"
  proof -
    from assms obtain a0 c where c: "json_copy a0 = Inr c" "pc_steps s = int (length (ag_receipts c))"
      "ag_receipts c \<noteq> []" "pc_steps s \<le> max_steps (ag_meter c)" "max_steps (ag_meter c) \<le> 128"
      "ag_buyer c \<noteq> ag_seller c" "0 < sint (ag_amount c)" "ag_verify_receipts c = None"
      "status_fields_ok (c\<lparr>ag_steps := pc_steps s\<rparr>)" "restore_sealed (pc_ledger s) (c\<lparr>ag_steps := pc_steps s\<rparr>) = Inr a"
      by (auto simp: restore_private_def Let_def not_le not_less split: if_splits option.splits sum.splits)
    moreover have "ag_sealed c = None"
      using c(1) by (auto simp: json_copy_def split: if_splits)
    ultimately show thesis
      by (intro that [of "c\<lparr>ag_steps := pc_steps s\<rparr>"]) (simp_all add: ag_verify_receipts_def Suc_le_eq)
  qed
  have "status_fields_ok (b\<lparr>ag_sealed := x\<rparr>) = status_fields_ok b" for x
    by (simp add: status_fields_ok_def cong: status.case_cong)
  moreover have "a = b \<and> ag_sealed_locks b = [] \<and> ag_sealed_sum b = [] \<or> (\<exists>l. a = b\<lparr>ag_sealed := Some l\<rparr>
      \<and> (ag_sealed_locks b \<noteq> [] \<and> ag_status b \<noteq> StatusAccepted \<longrightarrow> aggregate l (ag_sealed_locks b) = Inr (ag_sealed_sum b)))"
    using b(1) by (auto simp: restore_sealed_def split: if_splits option.splits sum.splits)
  ultimately have a: "status_fields_ok a" "ag_verify_receipts a = None" "ag_steps a = int (length (ag_receipts a))"
    "1 \<le> ag_steps a" "ag_steps a \<le> max_steps (ag_meter a)" "max_steps (ag_meter a) \<le> 128" "ag_buyer a \<noteq> ag_seller a"
    "0 < sint (ag_amount a)"
    "case ag_sealed a of
         None \<Rightarrow> ag_sealed_locks a = [] \<and> ag_sealed_sum a = []
       | Some l \<Rightarrow> ag_sealed_locks a \<noteq> [] \<and> ag_status a \<noteq> StatusAccepted \<longrightarrow>
           aggregate l (ag_sealed_locks a) = Inr (ag_sealed_sum a)"
    using b(2-10) by (auto simp: ag_verify_receipts_def)
  moreover have "ag_verify_receipts (run (ag_step dec) a cs) = None"
    using a(2) ag.run_verifies [of a dec cs] by (simp add: ag_verify_receipts_def)
  ultimately show ?thesis
    by blast
qed

end
