(* ===== verification/Council.thy ===== *)
theory Council
  imports Kernel_Types "HOL-Library.List_Lexorder" "HOL-Library.Char_ord"
begin

text \<open>
  The council of \<open>internal/nexum/council.go\<close>: three to seven parties, codified requirements, unanimous opt-in, one
  execute. Unlike the agreement's, this \<open>append\<close> counts the step before it checks the limits, so a call refused for the
  limits leaves a changed step counter: "a failed call changes nothing" holds up to that counter (\<open>co_face\<close>).
\<close>

subsection \<open>State and operations\<close>

record requirement =
  rq_id :: string
  rq_holder :: party
  rq_satisfied :: bool
  rq_citation :: string

record council =
  co_id :: string
  co_kind :: string
  co_parties :: "party list"
  co_reqs :: "requirement list"
  co_opted :: "party \<rightharpoonup> bool"
  co_decision :: string
  co_status :: status
  co_meter :: meter
  co_created_at :: go_time
  co_closed_at :: "go_time option"
  co_receipts :: "receipt list"
  co_steps :: i64

definition kind_council :: string where
  "kind_council = ''council.optin''"

definition co_append :: "council \<Rightarrow> party \<Rightarrow> string \<Rightarrow> string \<Rightarrow> go_time \<Rightarrow> council outcome" where
  "co_append c0 actor action note now =
     (let c = c0\<lparr>co_steps := co_steps c0 + 1\<rparr>
      in if sint (co_steps c) > max_steps (co_meter c) then fail c ErrDoS
         else if over_budget (co_meter c) then fail c ErrBudget
         else ok (c\<lparr>co_receipts := co_receipts c @ [new_receipt (co_id c) (co_receipts c) actor action note now]\<rparr>))"

fun check_parties :: "party set \<Rightarrow> party list \<Rightarrow> go_error + party set" where
  "check_parties seen [] = Inr seen"
| "check_parties seen (p # ps) =
     (if p = [] then Inl ErrMissingParty
      else if p \<in> seen then Inl ErrDupParty
      else check_parties (insert p seen) ps)"

fun clean_reqs :: "party set \<Rightarrow> string set \<Rightarrow> requirement list \<Rightarrow> go_error + requirement list" where
  "clean_reqs seen ids [] = Inr []"
| "clean_reqs seen ids (r # rs) =
     (if rq_id r = [] then Inl (Errorf ''nexum: requirement id required'' [])
      else if rq_id r \<in> ids then Inl ErrDupReq
      else if rq_holder r \<notin> seen then Inl ErrReqHolder
      else case clean_reqs seen (insert (rq_id r) ids) rs of
          Inl e \<Rightarrow> Inl e
        | Inr cs \<Rightarrow> Inr (r\<lparr>rq_satisfied := False, rq_citation := []\<rparr> # cs))"

definition open_council ::
  "string \<Rightarrow> party list \<Rightarrow> requirement list \<Rightarrow> string \<Rightarrow> meter \<Rightarrow> go_time \<Rightarrow> go_error + council" where
  "open_council cid parties reqs decision meter now =
     (if length parties < 3 \<or> length parties > 7 then Inl ErrPartyCount
      else if decision = [] then Inl ErrEmptyDecision
      else case check_parties {} parties of
          Inl e \<Rightarrow> Inl e
        | Inr seen \<Rightarrow>
            (case clean_reqs seen {} reqs of
               Inl e \<Rightarrow> Inl e
             | Inr clean \<Rightarrow>
                 (let m = (if max_steps meter \<le> 0 then meter\<lparr>mt_max_steps := 32\<rparr> else meter);
                      c = \<lparr>co_id = cid, co_kind = kind_council, co_parties = sort parties, co_reqs = clean,
                           co_opted = Map.empty, co_decision = decision, co_status = StatusOpen, co_meter = m,
                           co_created_at = now, co_closed_at = None, co_receipts = [], co_steps = 0\<rparr>
                  in case co_append c (hd (co_parties c)) ''open'' ''council opened'' now of
                       (c', None) \<Rightarrow> Inr c'
                     | (c', Some e) \<Rightarrow> Inl e)))"

definition is_party :: "council \<Rightarrow> party \<Rightarrow> bool" where
  "is_party c p \<longleftrightarrow> p \<in> set (co_parties c)"

definition opted_in :: "council \<Rightarrow> party \<Rightarrow> bool" where
  "opted_in c p \<longleftrightarrow> co_opted c p = Some True"

definition co_terminal :: "council \<Rightarrow> bool" where
  "co_terminal c = (case co_status c of StatusExecuted \<Rightarrow> True | StatusRefused \<Rightarrow> True | _ \<Rightarrow> False)"

fun req_index :: "string \<Rightarrow> requirement list \<Rightarrow> nat option" where
  "req_index rid [] = None"
| "req_index rid (r # rs) = (if rq_id r = rid then Some 0 else map_option Suc (req_index rid rs))"

definition refresh_ready :: "council \<Rightarrow> council" where
  "refresh_ready c =
     (if co_status c \<noteq> StatusOpen then c
      else if \<not> list_all rq_satisfied (co_reqs c) then c
      else c\<lparr>co_status := StatusReady\<rparr>)"

definition satisfy :: "council \<Rightarrow> party \<Rightarrow> string \<Rightarrow> string \<Rightarrow> go_time \<Rightarrow> council outcome" where
  "satisfy c actor req_id citation now =
     (if \<not> is_party c actor then fail c ErrUnknownParty
      else if co_terminal c then fail c ErrTakeback
      else if citation = [] then fail c ErrEmptyCitation
      else case req_index req_id (co_reqs c) of
          None \<Rightarrow> fail c (Errorf ''nexum: unknown requirement %q'' [req_id])
        | Some idx \<Rightarrow>
            if rq_holder (co_reqs c ! idx) \<noteq> actor then fail c ErrWrongParty
            else if rq_satisfied (co_reqs c ! idx) then fail c ErrBadState
            else and_then (co_append c actor ''satisfy'' (req_id @ '':'' @ citation) now) (\<lambda>c.
              ok (refresh_ready (c\<lparr>co_reqs := (co_reqs c)
                    [idx := (co_reqs c ! idx)\<lparr>rq_satisfied := True, rq_citation := citation\<rparr>]\<rparr>))))"

definition party_reqs_met :: "council \<Rightarrow> party \<Rightarrow> bool" where
  "party_reqs_met c p \<longleftrightarrow> list_all (\<lambda>r. \<not> (rq_holder r = p \<and> \<not> rq_satisfied r)) (co_reqs c)"

definition opt_in :: "council \<Rightarrow> party \<Rightarrow> go_time \<Rightarrow> council outcome" where
  "opt_in c actor now =
     (if \<not> is_party c actor then fail c ErrUnknownParty
      else if co_terminal c then fail c ErrTakeback
      else if co_status c \<noteq> StatusOpen \<and> co_status c \<noteq> StatusReady then fail c ErrBadState
      else if \<not> party_reqs_met c actor then fail c ErrNotSatisfied
      else if opted_in c actor then fail c ErrBadState
      else and_then (co_append c actor ''opt-in'' ''opted in'' now) (\<lambda>c.
        ok (refresh_ready (c\<lparr>co_opted := (co_opted c)(actor \<mapsto> True)\<rparr>))))"

definition refuse :: "council \<Rightarrow> party \<Rightarrow> go_time \<Rightarrow> council outcome" where
  "refuse c actor now =
     (if \<not> is_party c actor then fail c ErrUnknownParty
      else if co_terminal c then fail c ErrTakeback
      else and_then (co_append c actor ''refuse'' ''refused before execute'' now) (\<lambda>c.
        ok (c\<lparr>co_closed_at := Some now, co_status := StatusRefused\<rparr>)))"

definition co_execute :: "council \<Rightarrow> party \<Rightarrow> go_time \<Rightarrow> council outcome" where
  "co_execute c actor now =
     (if \<not> is_party c actor then fail c ErrUnknownParty
      else if co_terminal c then fail c ErrTakeback
      else if \<not> list_all rq_satisfied (co_reqs c) then fail c ErrNotSatisfied
      else if \<not> list_all (opted_in c) (co_parties c) then fail c ErrNotUnanimous
      else and_then (co_append c actor ''execute'' (co_decision c) now) (\<lambda>c.
        ok (c\<lparr>co_closed_at := Some now, co_status := StatusExecuted\<rparr>)))"

definition co_verify_receipts :: "council \<Rightarrow> go_error option" where
  "co_verify_receipts c = verify_receipts (co_id c) (co_receipts c)"

datatype co_call =
    Satisfy party string string go_time
  | OptIn party go_time
  | Refuse party go_time
  | Execute party go_time

fun co_step :: "council \<Rightarrow> co_call \<Rightarrow> council outcome" where
  "co_step c (Satisfy p rid cit t) = satisfy c p rid cit t"
| "co_step c (OptIn p t) = opt_in c p t"
| "co_step c (Refuse p t) = refuse c p t"
| "co_step c (Execute p t) = co_execute c p t"

subsection \<open>Appending\<close>

definition co_can_append :: "council \<Rightarrow> bool" where
  "co_can_append c \<longleftrightarrow> sint (co_steps c + 1) \<le> max_steps (co_meter c) \<and> \<not> over_budget (co_meter c)"

definition counted :: "council \<Rightarrow> council" where
  "counted c = c\<lparr>co_steps := co_steps c + 1\<rparr>"

definition co_pushed :: "council \<Rightarrow> party \<Rightarrow> string \<Rightarrow> string \<Rightarrow> go_time \<Rightarrow> council" where
  "co_pushed c p act n t =
     (counted c)\<lparr>co_receipts := co_receipts c @ [new_receipt (co_id c) (co_receipts c) p act n t]\<rparr>"

lemma co_append_eq:
  "co_append c p act n t =
     (if co_can_append c then ok (co_pushed c p act n t)
      else fail (counted c) (if sint (co_steps c + 1) > max_steps (co_meter c) then ErrDoS else ErrBudget))"
  by (auto simp: co_append_def co_can_append_def co_pushed_def counted_def Let_def)

lemma co_pushed_fields [simp]:
  "co_id (co_pushed c p act n t) = co_id c"
  "co_kind (co_pushed c p act n t) = co_kind c"
  "co_parties (co_pushed c p act n t) = co_parties c"
  "co_reqs (co_pushed c p act n t) = co_reqs c"
  "co_opted (co_pushed c p act n t) = co_opted c"
  "co_decision (co_pushed c p act n t) = co_decision c"
  "co_status (co_pushed c p act n t) = co_status c"
  "co_meter (co_pushed c p act n t) = co_meter c"
  "co_created_at (co_pushed c p act n t) = co_created_at c"
  "co_closed_at (co_pushed c p act n t) = co_closed_at c"
  "co_receipts (co_pushed c p act n t) = co_receipts c @ [new_receipt (co_id c) (co_receipts c) p act n t]"
  "co_steps (co_pushed c p act n t) = co_steps c + 1"
  by (simp_all add: co_pushed_def counted_def)

lemma co_terminal_iff: "co_terminal c \<longleftrightarrow> co_status c \<in> {StatusExecuted, StatusRefused}"
  by (cases "co_status c") (simp_all add: co_terminal_def)

text \<open>What the caller can see of a council; the step counter is private.\<close>

definition co_face :: "council \<Rightarrow> council" where
  "co_face c = c\<lparr>co_steps := 0\<rparr>"

lemma co_face_counted [simp]: "co_face (counted c) = co_face c"
  by (simp add: co_face_def counted_def)

interpretation co_log: receipt_log co_id co_receipts co_append
  by unfold_locales (auto simp: co_append_eq counted_def split: if_splits)

subsection \<open>The council as an event system\<close>

inductive co_move :: "council \<Rightarrow> party \<Rightarrow> council \<Rightarrow> bool" where
  satisfy: "p \<in> set (co_parties c) \<Longrightarrow> \<not> co_terminal c \<Longrightarrow> cit \<noteq> [] \<Longrightarrow> i < length (co_reqs c) \<Longrightarrow>
    r = co_reqs c ! i \<Longrightarrow> rq_holder r = p \<Longrightarrow> \<not> rq_satisfied r \<Longrightarrow> co_can_append c \<Longrightarrow>
    co_move c p (refresh_ready ((co_pushed c p ''satisfy'' (rq_id r @ CHR '':'' # cit) t)
      \<lparr>co_reqs := (co_reqs c)[i := r\<lparr>rq_satisfied := True, rq_citation := cit\<rparr>]\<rparr>))"
| opt_in: "p \<in> set (co_parties c) \<Longrightarrow> co_status c \<in> {StatusOpen, StatusReady} \<Longrightarrow> party_reqs_met c p \<Longrightarrow>
    \<not> opted_in c p \<Longrightarrow> co_can_append c \<Longrightarrow>
    co_move c p (refresh_ready ((co_pushed c p ''opt-in'' ''opted in'' t)\<lparr>co_opted := (co_opted c)(p \<mapsto> True)\<rparr>))"
| refuse: "p \<in> set (co_parties c) \<Longrightarrow> \<not> co_terminal c \<Longrightarrow> co_can_append c \<Longrightarrow>
    co_move c p ((co_pushed c p ''refuse'' ''refused before execute'' t)
      \<lparr>co_closed_at := Some t, co_status := StatusRefused\<rparr>)"
| execute: "p \<in> set (co_parties c) \<Longrightarrow> \<not> co_terminal c \<Longrightarrow> list_all rq_satisfied (co_reqs c) \<Longrightarrow>
    list_all (opted_in c) (co_parties c) \<Longrightarrow> co_can_append c \<Longrightarrow>
    co_move c p ((co_pushed c p ''execute'' (co_decision c) t)\<lparr>co_closed_at := Some t, co_status := StatusExecuted\<rparr>)"

lemma req_index_Some: "req_index rid rs = Some i \<Longrightarrow> i < length rs \<and> rq_id (rs ! i) = rid"
  by (induction rs arbitrary: i) (auto split: if_splits)

lemma req_index_None: "req_index rid rs = None \<longleftrightarrow> rid \<notin> rq_id ` set rs"
  by (induction rs) auto

fun co_actor :: "co_call \<Rightarrow> party" where
  "co_actor (Satisfy p rid cit t) = p"
| "co_actor (OptIn p t) = p"
| "co_actor (Refuse p t) = p"
| "co_actor (Execute p t) = p"

lemma co_step_move:
  assumes "co_step c call = (c', None)"
  shows "co_move c (co_actor call) c'"
proof (cases call)
  case (Satisfy p rid cit t)
  with assms obtain i where i: "req_index rid (co_reqs c) = Some i"
    by (auto simp: satisfy_def split: if_splits option.splits)
  from Satisfy assms i req_index_Some [OF i] show ?thesis
    by (auto simp: satisfy_def is_party_def and_then_def co_append_eq split: if_splits intro!: co_move.satisfy)
next
  case (OptIn p t)
  with assms show ?thesis
    by (auto simp: opt_in_def is_party_def and_then_def co_append_eq split: if_splits intro!: co_move.opt_in)
next
  case (Refuse p t)
  with assms show ?thesis
    by (auto simp: refuse_def is_party_def and_then_def co_append_eq split: if_splits intro!: co_move.refuse)
next
  case (Execute p t)
  with assms show ?thesis
    by (auto simp: co_execute_def is_party_def and_then_def co_append_eq split: if_splits intro!: co_move.execute)
qed

lemma co_step_error: "co_step c call = (c', Some e) \<Longrightarrow> c' = c \<or> \<not> co_terminal c \<and> \<not> co_can_append c \<and> c' = counted c"
  by (cases call)
    (auto simp: satisfy_def opt_in_def refuse_def co_execute_def and_then_def co_append_eq
      split: if_splits option.splits)

lemma refresh_ready_fields [simp]:
  "co_id (refresh_ready c) = co_id c"
  "co_kind (refresh_ready c) = co_kind c"
  "co_parties (refresh_ready c) = co_parties c"
  "co_reqs (refresh_ready c) = co_reqs c"
  "co_opted (refresh_ready c) = co_opted c"
  "co_decision (refresh_ready c) = co_decision c"
  "co_meter (refresh_ready c) = co_meter c"
  "co_created_at (refresh_ready c) = co_created_at c"
  "co_closed_at (refresh_ready c) = co_closed_at c"
  "co_receipts (refresh_ready c) = co_receipts c"
  "co_steps (refresh_ready c) = co_steps c"
  by (simp_all add: refresh_ready_def)

lemma refresh_ready_status:
  "co_status (refresh_ready c)
     = (if co_status c = StatusOpen \<and> list_all rq_satisfied (co_reqs c) then StatusReady else co_status c)"
  by (simp add: refresh_ready_def)

lemma co_move_grows: "co_move c p b \<Longrightarrow> log_grows (co_id c) (co_receipts c) (co_receipts b) \<and> co_id b = co_id c"
  by (induction rule: co_move.induct) auto

lemma co_move_open: "co_move c p b \<Longrightarrow> \<not> co_terminal c"
  by (induction rule: co_move.induct) (auto simp: co_terminal_iff)

lemma co_step_grows:
  assumes "co_step c call = (c', r)"
  shows "log_grows (co_id c) (co_receipts c) (co_receipts c') \<and> co_id c' = co_id c"
proof (cases r)
  case None
  with assms show ?thesis
    using co_step_move co_move_grows by blast
next
  case (Some e)
  with assms co_step_error show ?thesis
    by (fastforce simp: counted_def)
qed

lemma co_closed_refuses:
  assumes "co_terminal c" and "co_step c call = (c', r)"
  shows "r \<noteq> None \<and> c' = c \<and> co_terminal c'"
proof (cases r)
  case None
  with assms show ?thesis
    using co_step_move co_move_open by blast
next
  case (Some e)
  with assms co_step_error show ?thesis
    by blast
qed

interpretation co: refusing_machine co_id co_receipts co_append co_step co_terminal "\<lambda>c. c"
proof unfold_locales
  show "co_step c call = (c', r) \<Longrightarrow> log_grows (co_id c) (co_receipts c) (co_receipts c') \<and> co_id c' = co_id c"
    for c call c' r
    by (rule co_step_grows)
  show "co_terminal c \<Longrightarrow> co_step c call = (c', r) \<Longrightarrow> c' = c \<and> co_terminal c'" for c call c' r
    using co_closed_refuses by blast
  show "co_terminal c \<Longrightarrow> co_step c call = (c', r) \<Longrightarrow> r \<noteq> None" for c call c' r
    using co_closed_refuses by blast
qed

subsection \<open>The invariant\<close>

text \<open>The terms of a council: its parties, decision and requirements. \<open>written\<close> looks a receipt up.\<close>

definition written :: "receipt list \<Rightarrow> string \<Rightarrow> party \<Rightarrow> string \<Rightarrow> bool" where
  "written rs act p n \<longleftrightarrow> list_ex (\<lambda>r. r_action r = act \<and> r_actor r = p \<and> r_note r = n) rs"

definition co_shape :: "council \<Rightarrow> bool" where
  "co_shape c \<longleftrightarrow>
     3 \<le> length (co_parties c) \<and> length (co_parties c) \<le> 7 \<and> distinct (co_parties c) \<and> sorted (co_parties c)
     \<and> [] \<notin> set (co_parties c) \<and> co_decision c \<noteq> [] \<and> distinct (map rq_id (co_reqs c))
     \<and> (\<forall>r \<in> set (co_reqs c). rq_id r \<noteq> [] \<and> rq_holder r \<in> set (co_parties c))
     \<and> verify_receipts (co_id c) (co_receipts c) = None
     \<and> co_receipts c \<noteq> [] \<and> \<not> over_budget (co_meter c)"

definition co_facts :: "council \<Rightarrow> bool" where
  "co_facts c \<longleftrightarrow>
     (\<forall>r \<in> set (co_reqs c). if rq_satisfied r
        then rq_citation r \<noteq> [] \<and> written (co_receipts c) ''satisfy'' (rq_holder r) (rq_id r @ CHR '':'' # rq_citation r)
        else rq_citation r = [])
     \<and> (\<forall>p. opted_in c p \<longrightarrow>
          p \<in> set (co_parties c) \<and> party_reqs_met c p \<and> written (co_receipts c) ''opt-in'' p ''opted in'')"

definition co_states :: "council \<Rightarrow> bool" where
  "co_states c \<longleftrightarrow>
     (case co_status c of
        StatusOpen \<Rightarrow> co_reqs c = [] \<or> \<not> list_all rq_satisfied (co_reqs c)
      | StatusReady \<Rightarrow> list_all rq_satisfied (co_reqs c)
      | StatusExecuted \<Rightarrow> list_all rq_satisfied (co_reqs c) \<and> list_all (opted_in c) (co_parties c)
          \<and> (\<exists>p. written (co_receipts c) ''execute'' p (co_decision c))
      | StatusRefused \<Rightarrow> \<exists>p. written (co_receipts c) ''refuse'' p ''refused before execute''
      | _ \<Rightarrow> False)
     \<and> (co_closed_at c \<noteq> None \<longleftrightarrow> co_terminal c)"

definition co_wf :: "council \<Rightarrow> bool" where
  "co_wf c \<longleftrightarrow> co_shape c \<and> co_facts c \<and> co_states c"

lemma written_snoc [simp]:
  "written (rs @ [r]) act p n \<longleftrightarrow> written rs act p n \<or> r_action r = act \<and> r_actor r = p \<and> r_note r = n"
  by (auto simp: written_def)

lemma map_update_same: "f x = f (xs ! i) \<Longrightarrow> map f (xs[i := x]) = map f xs"
  by (metis list_update_id map_update)

lemma set_update_cases: "r \<in> set (xs[i := x]) \<Longrightarrow> r = x \<or> r \<in> set xs"
  using set_update_subset_insert by fastforce

lemma co_move_shape: "co_move c p b \<Longrightarrow> co_shape c \<Longrightarrow> co_shape b"
proof (induction rule: co_move.induct)
  case (satisfy p c cit i r t)
  then have "map rq_id ((co_reqs c)[i := r\<lparr>rq_satisfied := True, rq_citation := cit\<rparr>]) = map rq_id (co_reqs c)"
    by (intro map_update_same) simp
  moreover have "r \<in> set (co_reqs c)"
    using satisfy.hyps by simp
  ultimately show ?case
    using satisfy by (auto simp: co_shape_def co_can_append_def dest!: set_update_cases)
qed (auto simp: co_shape_def co_can_append_def)

lemma party_reqs_met_iff: "party_reqs_met c p \<longleftrightarrow> (\<forall>r \<in> set (co_reqs c). rq_holder r = p \<longrightarrow> rq_satisfied r)"
  by (auto simp: party_reqs_met_def list_all_iff)

lemma co_move_facts: "co_move c p b \<Longrightarrow> co_facts c \<Longrightarrow> co_facts b"
proof (induction rule: co_move.induct)
  case (satisfy p c cit i r t)
  then show ?case
    by (auto simp: co_facts_def opted_in_def party_reqs_met_iff split: if_splits dest!: set_update_cases)
qed (auto simp: co_facts_def opted_in_def party_reqs_met_iff)

lemma co_move_states: "co_move c p b \<Longrightarrow> co_states c \<Longrightarrow> co_states b"
proof (induction rule: co_move.induct)
  case (satisfy p c cit i r t)
  then have "co_status c = StatusOpen"
    by (auto simp: co_states_def co_terminal_iff list_all_iff split: status.splits)
  with satisfy show ?case
    by (auto simp: co_states_def co_terminal_iff refresh_ready_status)
next
  case (opt_in p c t)
  then show ?case
    by (auto simp: co_states_def co_terminal_iff refresh_ready_status)
next
  case (refuse p c t)
  then show ?case
    by (auto simp: co_states_def co_terminal_iff)
next
  case (execute p c t)
  then show ?case
    by (auto simp: co_states_def co_terminal_iff opted_in_def [abs_def])
qed

lemma co_wf_counted: "co_wf c \<Longrightarrow> co_wf (counted c)"
  by (simp add: co_wf_def co_shape_def co_facts_def co_states_def counted_def co_terminal_def
      opted_in_def [abs_def] party_reqs_met_def cong: status.case_cong)

lemma co_step_wf:
  assumes "co_wf c" and "co_step c call = (c', r)"
  shows "co_wf c'"
proof (cases r)
  case None
  with assms show ?thesis
    using co_step_move [of c call c'] co_move_shape co_move_facts co_move_states by (auto simp: co_wf_def)
next
  case (Some e)
  with assms co_step_error co_wf_counted show ?thesis
    by blast
qed

interpretation co_good: machine_invariant co_step co_wf
  using co_step_wf by unfold_locales

subsection \<open>Opening\<close>

lemma check_parties_Inr:
  "check_parties seen ps = Inr s \<longleftrightarrow> s = seen \<union> set ps \<and> distinct ps \<and> set ps \<inter> seen = {} \<and> [] \<notin> set ps"
  by (induction seen ps rule: check_parties.induct) auto

abbreviation cleaned :: "requirement \<Rightarrow> requirement" where
  "cleaned r \<equiv> r\<lparr>rq_satisfied := False, rq_citation := []\<rparr>"

lemma clean_reqs_Inr:
  "clean_reqs seen ids rs = Inr cs \<longleftrightarrow>
     cs = map cleaned rs \<and> distinct (map rq_id rs) \<and> rq_id ` set rs \<inter> ids = {}
     \<and> (\<forall>r \<in> set rs. rq_id r \<noteq> [] \<and> rq_holder r \<in> seen)"
  by (induction seen ids rs arbitrary: cs rule: clean_reqs.induct) (auto split: sum.splits)

definition council_terms :: "party list \<Rightarrow> requirement list \<Rightarrow> string \<Rightarrow> bool" where
  "council_terms parties reqs decision \<longleftrightarrow>
     3 \<le> length parties \<and> length parties \<le> 7 \<and> distinct parties \<and> [] \<notin> set parties \<and> decision \<noteq> []
     \<and> distinct (map rq_id reqs) \<and> (\<forall>r \<in> set reqs. rq_id r \<noteq> [] \<and> rq_holder r \<in> set parties)"

definition opened_council ::
  "string \<Rightarrow> party list \<Rightarrow> requirement list \<Rightarrow> string \<Rightarrow> meter \<Rightarrow> go_time \<Rightarrow> council" where
  "opened_council cid parties reqs decision meter now =
     \<lparr>co_id = cid, co_kind = kind_council, co_parties = sort parties, co_reqs = map cleaned reqs, co_opted = Map.empty,
      co_decision = decision, co_status = StatusOpen,
      co_meter = (if max_steps meter \<le> 0 then meter\<lparr>mt_max_steps := 32\<rparr> else meter), co_created_at = now,
      co_closed_at = None, co_receipts = [new_receipt cid [] (hd (sort parties)) ''open'' ''council opened'' now],
      co_steps = 1\<rparr>"

lemma over_budget_steps [simp]: "over_budget (m\<lparr>mt_max_steps := n\<rparr>) = over_budget m"
  by (simp add: over_budget_def)

lemma open_council_Inr:
  "open_council cid parties reqs decision meter now = Inr c \<longleftrightarrow>
     council_terms parties reqs decision \<and> \<not> over_budget meter \<and> c = opened_council cid parties reqs decision meter now"
proof (cases "council_terms parties reqs decision")
  case True
  then have "check_parties {} parties = Inr (set parties)" "clean_reqs (set parties) {} reqs = Inr (map cleaned reqs)"
    by (simp_all add: check_parties_Inr clean_reqs_Inr council_terms_def)
  with True show ?thesis
    by (auto simp: open_council_def council_terms_def opened_council_def Let_def co_append_eq co_can_append_def
        co_pushed_def counted_def split: if_splits)
next
  case False
  then have "check_parties {} parties = Inr seen \<Longrightarrow> clean_reqs seen {} reqs = Inr clean \<Longrightarrow>
      length parties < 3 \<or> 7 < length parties \<or> decision = []" for seen clean
    by (auto simp: check_parties_Inr clean_reqs_Inr council_terms_def)
  with False show ?thesis
    by (auto simp: open_council_def split: sum.splits)
qed

lemma opened_council_wf:
  assumes "council_terms parties reqs decision" and "\<not> over_budget meter"
  shows "co_wf (opened_council cid parties reqs decision meter now)"
  using assms verify_receipts_new [of cid "[]" "hd (sort parties)" "''open''" "''council opened''" now]
  by (auto simp: co_wf_def co_shape_def co_facts_def co_states_def opened_council_def council_terms_def opted_in_def
      list_all_iff co_terminal_def comp_def)

lemma open_council_wf: "open_council cid parties reqs decision meter now = Inr c \<Longrightarrow> co_wf c"
  by (auto simp: open_council_Inr opened_council_wf)

subsection \<open>Progress is never undone\<close>

definition co_progress :: "council \<Rightarrow> council \<Rightarrow> bool" where
  "co_progress c b \<longleftrightarrow>
     co_id b = co_id c \<and> co_parties b = co_parties c \<and> co_decision b = co_decision c \<and> co_meter b = co_meter c
     \<and> map (\<lambda>r. (rq_id r, rq_holder r)) (co_reqs b) = map (\<lambda>r. (rq_id r, rq_holder r)) (co_reqs c)
     \<and> list_all2 (\<lambda>r q. rq_satisfied r \<longrightarrow> q = r) (co_reqs c) (co_reqs b)
     \<and> (\<forall>p. opted_in c p \<longrightarrow> opted_in b p)"

lemma co_progress_refl: "co_progress c c"
  by (simp add: co_progress_def list_all2_refl)

lemma co_progress_trans:
  assumes "co_progress a b" and "co_progress b c"
  shows "co_progress a c"
proof -
  have "list_all2 (\<lambda>r q. rq_satisfied r \<longrightarrow> q = r) (co_reqs a) (co_reqs c)"
    using assms list_all2_trans [of "\<lambda>r q. rq_satisfied r \<longrightarrow> q = r" "\<lambda>r q. rq_satisfied r \<longrightarrow> q = r"
        "\<lambda>r q. rq_satisfied r \<longrightarrow> q = r" "co_reqs a" "co_reqs b" "co_reqs c"]
    by (auto simp: co_progress_def)
  with assms show ?thesis
    by (simp add: co_progress_def)
qed

lemma co_move_progress: "co_move c p b \<Longrightarrow> co_progress c b"
proof (induction rule: co_move.induct)
  case (satisfy p c cit i r t)
  then have "map (\<lambda>r. (rq_id r, rq_holder r)) ((co_reqs c)[i := r\<lparr>rq_satisfied := True, rq_citation := cit\<rparr>])
      = map (\<lambda>r. (rq_id r, rq_holder r)) (co_reqs c)"
    by (intro map_update_same) simp
  moreover have "list_all2 (\<lambda>r q. rq_satisfied r \<longrightarrow> q = r) (co_reqs c)
      ((co_reqs c)[i := r\<lparr>rq_satisfied := True, rq_citation := cit\<rparr>])"
    using satisfy.hyps by (auto simp: list_all2_conv_all_nth nth_list_update)
  ultimately show ?case
    by (simp add: co_progress_def opted_in_def)
qed (auto simp: co_progress_def opted_in_def list_all2_refl)

lemma co_step_progress:
  assumes "co_step c call = (c', r)"
  shows "co_progress c c'"
proof (cases r)
  case None
  with assms co_step_move co_move_progress show ?thesis
    by blast
next
  case (Some e)
  have "co_progress c (counted c)"
    by (simp add: co_progress_def counted_def opted_in_def list_all2_refl)
  with Some assms co_step_error co_progress_refl show ?thesis
    by blast
qed

interpretation co_forward: machine_invariant co_step "co_progress c" for c
  using co_step_progress co_progress_trans by unfold_locales blast

subsection \<open>A council can always get to execute\<close>

text \<open>The calls of a council that agrees: everyone satisfies their requirements, everyone opts in, one executes.\<close>

definition agree_calls :: "(requirement \<Rightarrow> string) \<Rightarrow> council \<Rightarrow> go_time \<Rightarrow> co_call list" where
  "agree_calls cite c t =
     map (\<lambda>r. Satisfy (rq_holder r) (rq_id r) (cite r) t) (co_reqs c) @ map (\<lambda>p. OptIn p t) (co_parties c)
     @ [Execute (hd (co_parties c)) t]"

lemma req_index_nth: "distinct (map rq_id rs) \<Longrightarrow> i < length rs \<Longrightarrow> req_index (rq_id (rs ! i)) rs = Some i"
proof (induction rs arbitrary: i)
  case (Cons r rs)
  then show ?case
    by (cases i) auto
qed simp

lemma satisfy_next:
  assumes "co_reqs c = done @ r # todo" "distinct (map rq_id (co_reqs c))" "\<not> rq_satisfied r"
    and "rq_holder r \<in> set (co_parties c)" "\<not> co_terminal c" "cit \<noteq> []" "co_can_append c"
  shows "satisfy c (rq_holder r) (rq_id r) cit t
    = ok (refresh_ready ((co_pushed c (rq_holder r) ''satisfy'' (rq_id r @ '':'' @ cit) t)
        \<lparr>co_reqs := done @ r\<lparr>rq_satisfied := True, rq_citation := cit\<rparr> # todo\<rparr>))"
proof -
  have "req_index (rq_id r) (co_reqs c) = Some (length done)"
    using req_index_nth [OF assms(2), of "length done"] assms(1) by simp
  with assms show ?thesis
    by (simp add: satisfy_def is_party_def co_append_eq)
qed

lemma satisfy_all:
  assumes "co_reqs c = done @ todo" "distinct (map rq_id (co_reqs c))" "list_all rq_satisfied done"
    and "\<forall>r \<in> set todo. \<not> rq_satisfied r \<and> rq_holder r \<in> set (co_parties c) \<and> cite r \<noteq> []"
    and "co_status c \<in> {StatusOpen, StatusReady}" "\<not> over_budget (co_meter c)"
    and "sint (co_steps c) + int (length todo) \<le> max_steps (co_meter c)"
  shows "\<exists>b. run co_step c (map (\<lambda>r. Satisfy (rq_holder r) (rq_id r) (cite r) t) todo) = b
    \<and> list_all rq_satisfied (co_reqs b) \<and> co_parties b = co_parties c \<and> co_opted b = co_opted c
    \<and> co_status b \<in> {StatusOpen, StatusReady} \<and> co_meter b = co_meter c
    \<and> sint (co_steps b) = sint (co_steps c) + int (length todo)"
  using assms
proof (induction todo arbitrary: "done" c)
  case (Cons r todo)
  let ?r = "r\<lparr>rq_satisfied := True, rq_citation := cite r\<rparr>"
  let ?b = "refresh_ready ((co_pushed c (rq_holder r) ''satisfy'' (rq_id r @ '':'' @ cite r) t)
        \<lparr>co_reqs := done @ ?r # todo\<rparr>)"
  have succ: "sint (co_steps c + 1) = sint (co_steps c) + 1"
    using Cons.prems(7) by (intro sint_succ [of _ "mt_max_steps (co_meter c)"]) auto
  then have "co_can_append c" "\<not> co_terminal c"
    using Cons.prems(5-7) by (auto simp: co_can_append_def co_terminal_iff)
  then have step: "satisfy c (rq_holder r) (rq_id r) (cite r) t = ok ?b"
    using Cons.prems by (intro satisfy_next) auto
  have status: "co_status ?b \<in> {StatusOpen, StatusReady}"
    using Cons.prems(5) by (auto simp: refresh_ready_status)
  have reqs: "co_reqs ?b = (done @ [?r]) @ todo" "distinct (map rq_id (co_reqs ?b))" "list_all rq_satisfied (done @ [?r])"
    using Cons.prems(1-3) by simp_all
  have "\<exists>b. run co_step ?b (map (\<lambda>r. Satisfy (rq_holder r) (rq_id r) (cite r) t) todo) = b
      \<and> list_all rq_satisfied (co_reqs b) \<and> co_parties b = co_parties ?b \<and> co_opted b = co_opted ?b
      \<and> co_status b \<in> {StatusOpen, StatusReady} \<and> co_meter b = co_meter ?b
      \<and> sint (co_steps b) = sint (co_steps ?b) + int (length todo)"
    by (rule Cons.IH [OF reqs _ status]) (use Cons.prems succ in simp_all)
  with step succ show ?case
    by simp
qed simp

lemma opt_in_next:
  assumes "p \<in> set (co_parties c)" "co_status c \<in> {StatusOpen, StatusReady}" "list_all rq_satisfied (co_reqs c)"
    and "\<not> opted_in c p" "co_can_append c"
  shows "opt_in c p t
    = ok (refresh_ready ((co_pushed c p ''opt-in'' ''opted in'' t)\<lparr>co_opted := (co_opted c)(p \<mapsto> True)\<rparr>))"
  using assms by (auto simp: opt_in_def is_party_def co_terminal_iff party_reqs_met_iff list_all_iff co_append_eq)

lemma opt_in_all:
  assumes "distinct ps" "set ps \<subseteq> set (co_parties c)" "\<forall>p \<in> set ps. \<not> opted_in c p"
    and "list_all rq_satisfied (co_reqs c)" "co_status c \<in> {StatusOpen, StatusReady}" "\<not> over_budget (co_meter c)"
    and "sint (co_steps c) + int (length ps) \<le> max_steps (co_meter c)"
  shows "\<exists>b. run co_step c (map (\<lambda>p. OptIn p t) ps) = b \<and> co_reqs b = co_reqs c \<and> co_parties b = co_parties c
    \<and> (\<forall>p. opted_in b p \<longleftrightarrow> opted_in c p \<or> p \<in> set ps) \<and> co_status b \<in> {StatusOpen, StatusReady}
    \<and> co_meter b = co_meter c \<and> sint (co_steps b) = sint (co_steps c) + int (length ps)"
  using assms
proof (induction ps arbitrary: c)
  case (Cons p ps)
  let ?b = "refresh_ready ((co_pushed c p ''opt-in'' ''opted in'' t)\<lparr>co_opted := (co_opted c)(p \<mapsto> True)\<rparr>)"
  have succ: "sint (co_steps c + 1) = sint (co_steps c) + 1"
    using Cons.prems(7) by (intro sint_succ [of _ "mt_max_steps (co_meter c)"]) auto
  then have "co_can_append c"
    using Cons.prems(6,7) by (auto simp: co_can_append_def)
  then have step: "opt_in c p t = ok ?b"
    using Cons.prems by (intro opt_in_next) auto
  have status: "co_status ?b \<in> {StatusOpen, StatusReady}" and opted: "\<And>q. opted_in ?b q \<longleftrightarrow> opted_in c q \<or> q = p"
    using Cons.prems(5) by (auto simp: refresh_ready_status opted_in_def)
  have "\<forall>q \<in> set ps. \<not> opted_in ?b q"
    using Cons.prems(1,3) opted by auto
  from Cons.IH [OF _ _ this _ status] Cons.prems succ have "\<exists>b. run co_step ?b (map (\<lambda>p. OptIn p t) ps) = b
      \<and> co_reqs b = co_reqs ?b \<and> co_parties b = co_parties ?b \<and> (\<forall>q. opted_in b q \<longleftrightarrow> opted_in ?b q \<or> q \<in> set ps)
      \<and> co_status b \<in> {StatusOpen, StatusReady} \<and> co_meter b = co_meter ?b
      \<and> sint (co_steps b) = sint (co_steps ?b) + int (length ps)"
    by simp
  with step opted succ show ?case
    by simp
qed auto

lemma agree_executes:
  assumes "co_wf c" "co_status c = StatusOpen" "\<forall>r \<in> set (co_reqs c). \<not> rq_satisfied r" "co_opted c = Map.empty"
    and "\<forall>r \<in> set (co_reqs c). cite r \<noteq> []"
    and "sint (co_steps c) + int (length (co_reqs c)) + int (length (co_parties c)) < max_steps (co_meter c)"
  shows "co_status (run co_step c (agree_calls cite c t)) = StatusExecuted"
proof -
  have wf: "distinct (map rq_id (co_reqs c))" "distinct (co_parties c)" "\<not> over_budget (co_meter c)" "co_parties c \<noteq> []"
    "\<forall>r \<in> set (co_reqs c). rq_holder r \<in> set (co_parties c)"
    using assms(1) by (auto simp: co_wf_def co_shape_def)
  obtain b where b: "run co_step c (map (\<lambda>r. Satisfy (rq_holder r) (rq_id r) (cite r) t) (co_reqs c)) = b"
    "list_all rq_satisfied (co_reqs b)" "co_parties b = co_parties c" "co_opted b = co_opted c"
    "co_status b \<in> {StatusOpen, StatusReady}" "co_meter b = co_meter c"
    "sint (co_steps b) = sint (co_steps c) + int (length (co_reqs c))"
    using satisfy_all [of c "[]" "co_reqs c" cite t] wf assms by auto
  obtain d where d: "run co_step b (map (\<lambda>p. OptIn p t) (co_parties c)) = d" "co_reqs d = co_reqs b"
    "co_parties d = co_parties b" "\<forall>p. opted_in d p \<longleftrightarrow> opted_in b p \<or> p \<in> set (co_parties c)"
    "co_status d \<in> {StatusOpen, StatusReady}" "co_meter d = co_meter b"
    "sint (co_steps d) = sint (co_steps b) + int (length (co_parties c))"
    using opt_in_all [of "co_parties c" b t] wf assms b by (auto simp: opted_in_def)
  have "co_can_append d" "\<not> co_terminal d" "is_party d (hd (co_parties c))"
    using b d wf assms(6) sint_succ [of "co_steps d"] by (auto simp: co_can_append_def co_terminal_iff is_party_def)
  then have "snd (co_execute d (hd (co_parties c)) t) = None"
    "co_status (fst (co_execute d (hd (co_parties c)) t)) = StatusExecuted"
    using b d by (auto simp: co_execute_def co_append_eq list_all_iff)
  with b(1) d(1) show ?thesis
    by (simp add: agree_calls_def run_append)
qed

subsection \<open>Properties of councils\<close>

text \<open>
  A council opens exactly when its terms are valid: three to seven distinct named parties, a decision, requirements
  with distinct non-empty ids held by parties, and a meter within its budget. It opens with nothing satisfied, nobody
  opted in and the parties in order.
\<close>

theorem council_opens_iff:
  "(\<exists>c. open_council cid parties reqs decision meter now = Inr c)
     \<longleftrightarrow> council_terms parties reqs decision \<and> \<not> over_budget meter"
  by (simp add: open_council_Inr)

text \<open>
  C17. An executed council was unanimous: whatever calls led there, every requirement it was opened with is satisfied with
  a citation, recorded by its holder, every party has opted in by a receipt of its own, and the decision that was executed
  is the one it was opened with.
\<close>

theorem council_executed_unanimous:
  assumes "open_council cid parties reqs decision meter now = Inr c0" and "c = run co_step c0 calls"
    and "co_status c = StatusExecuted"
  shows "map (\<lambda>r. (rq_id r, rq_holder r)) (co_reqs c) = map (\<lambda>r. (rq_id r, rq_holder r)) reqs
    \<and> (\<forall>r \<in> set (co_reqs c). rq_satisfied r
         \<and> written (co_receipts c) ''satisfy'' (rq_holder r) (rq_id r @ '':'' @ rq_citation r))
    \<and> (\<forall>p \<in> set parties. opted_in c p \<and> written (co_receipts c) ''opt-in'' p ''opted in'')
    \<and> (\<exists>p. written (co_receipts c) ''execute'' p decision) \<and> co_verify_receipts c = None"
proof -
  have wf: "co_wf c" and prog: "co_progress c0 c"
    unfolding assms(2) using open_council_wf [OF assms(1)] co_good.run_good co_forward.run_good co_progress_refl by auto
  have c0: "c0 = opened_council cid parties reqs decision meter now"
    using assms(1) open_council_Inr by blast
  have "co_parties c = sort parties" "co_decision c = decision"
    "map (\<lambda>r. (rq_id r, rq_holder r)) (co_reqs c) = map (\<lambda>r. (rq_id r, rq_holder r)) reqs"
    using prog by (simp_all add: co_progress_def c0 opened_council_def comp_def)
  moreover have "list_all rq_satisfied (co_reqs c)" "list_all (opted_in c) (co_parties c)"
    "\<exists>p. written (co_receipts c) ''execute'' p (co_decision c)"
    using wf assms(3) by (simp_all add: co_wf_def co_states_def)
  ultimately show ?thesis
    using wf by (auto simp: co_wf_def co_facts_def co_shape_def list_all_iff co_verify_receipts_def)
qed

definition ex_reqs :: "requirement list" where
  "ex_reqs = [\<lparr>rq_id = ''licence'', rq_holder = ''bob'', rq_satisfied = False, rq_citation = []\<rparr>]"

abbreviation ex_council :: council where
  "ex_council \<equiv> opened_council ''c-1'' [''cal'', ''ada'', ''bob''] ex_reqs ''release v2'' (plain_meter 9) 10"

lemma ex_council_terms: "council_terms [''cal'', ''ada'', ''bob''] ex_reqs ''release v2''"
  by (simp add: council_terms_def ex_reqs_def)

lemma ex_council_agrees: "co_status (run co_step ex_council (agree_calls (\<lambda>r. ''doc 7'') ex_council 11)) = StatusExecuted"
proof (rule agree_executes)
  show "co_wf ex_council"
    using opened_council_wf ex_council_terms by simp
qed (simp_all add: opened_council_def ex_reqs_def)

theorem council_executed_unanimous_witness:
  "open_council ''c-1'' [''cal'', ''ada'', ''bob''] ex_reqs ''release v2'' (plain_meter 9) 10 = Inr ex_council
   \<and> written (co_receipts (run co_step ex_council (agree_calls (\<lambda>r. ''doc 7'') ex_council 11))) ''opt-in'' ''ada'' ''opted in''"
proof -
  have "open_council ''c-1'' [''cal'', ''ada'', ''bob''] ex_reqs ''release v2'' (plain_meter 9) 10 = Inr ex_council"
    using ex_council_terms by (simp add: open_council_Inr)
  from this council_executed_unanimous [OF this refl ex_council_agrees] show ?thesis
    by simp
qed

text \<open>
  C28. A council can be brought to execute: when the meter leaves a step for each requirement, each party and the execute,
  the calls in which everyone satisfies, everyone opts in and one party executes all succeed in turn and end executed.
\<close>

theorem council_can_execute:
  assumes "open_council cid parties reqs decision meter now = Inr c" and "\<forall>r \<in> set reqs. cite (cleaned r) \<noteq> []"
    and "1 + int (length reqs) + int (length parties) < max_steps meter"
  shows "co_status (run co_step c (agree_calls cite c t)) = StatusExecuted"
proof (rule agree_executes)
  have c: "c = opened_council cid parties reqs decision meter now"
    using assms(1) open_council_Inr by blast
  show "co_wf c"
    using assms(1) by (rule open_council_wf)
  show "co_status c = StatusOpen" "\<forall>r \<in> set (co_reqs c). \<not> rq_satisfied r" "co_opted c = Map.empty"
    "\<forall>r \<in> set (co_reqs c). cite r \<noteq> []"
    using assms(2) by (auto simp: c opened_council_def)
  show "sint (co_steps c) + int (length (co_reqs c)) + int (length (co_parties c)) < max_steps (co_meter c)"
    using assms(3) by (simp add: c opened_council_def)
qed

theorem council_can_execute_witness:
  "co_status (run co_step ex_council (agree_calls (\<lambda>r. rq_id r) ex_council 11)) = StatusExecuted"
proof (rule council_can_execute)
  show "open_council ''c-1'' [''cal'', ''ada'', ''bob''] ex_reqs ''release v2'' (plain_meter 9) 10 = Inr ex_council"
    using ex_council_terms by (simp add: open_council_Inr)
qed (simp_all add: ex_reqs_def)

text \<open>
  Nothing a council records is undone: along any calls the parties, the decision and the requirements stay, what is
  satisfied and who opted in stays, receipts are only added and verify, and an executed or refused council never
  changes again.
\<close>

theorem council_never_undone:
  assumes "open_council cid parties reqs decision meter now = Inr c0" and "c = run co_step c0 calls"
  shows "co_progress c (run co_step c later) \<and> extends (co_receipts c) (co_receipts (run co_step c later))
    \<and> co_verify_receipts (run co_step c later) = None
    \<and> (if co_terminal c then run co_step c later = c else co_closed_at c = None)"
proof -
  have "co_wf c" "co_wf (run co_step c later)"
    unfolding assms(2) using open_council_wf [OF assms(1)] co_good.run_good by blast+
  then show ?thesis
    using co_forward.run_good [OF co_progress_refl] co.run_extends co.run_closed
    by (auto simp: co_wf_def co_shape_def co_states_def co_verify_receipts_def)
qed

theorem council_never_undone_witness:
  "co_verify_receipts (run co_step ex_council [OptIn ''ada'' 11, Refuse ''bob'' 12, OptIn ''cal'' 13]) = None"
proof -
  have "open_council ''c-1'' [''cal'', ''ada'', ''bob''] ex_reqs ''release v2'' (plain_meter 9) 10 = Inr ex_council"
    using ex_council_terms by (simp add: open_council_Inr)
  from council_never_undone [OF this refl, of "[]" "[OptIn ''ada'' 11, Refuse ''bob'' 12, OptIn ''cal'' 13]"] show ?thesis
    by simp
qed

text \<open>
  A failed call shows nothing: it leaves everything but the private step counter as it was, and the counter moves
  only when the call met every condition of its own and was refused for the limits. So a council at its bound counts
  every refused call.
\<close>

theorem council_failure_counts_step:
  "case co_step c call of
     (c', None) \<Rightarrow> co_steps c' = co_steps c + 1
   | (c', Some e) \<Rightarrow> co_face c' = co_face c
       \<and> (if e \<in> {ErrDoS, ErrBudget} then \<not> co_can_append c \<and> co_steps c' = co_steps c + 1 else c' = c)"
  by (cases call)
    (auto simp: satisfy_def opt_in_def refuse_def co_execute_def and_then_def co_append_eq co_face_def counted_def
      split: option.splits)

end
