(* ===== verification/Delegate.thy ===== *)
theory Delegate
  imports Kernel_Types
begin

text \<open>
  The delegate of \<open>internal/nexum/delegate.go\<close>: a parent offers work to an intern, who claims it and submits a proof; the
  parent pays or refuses. As in the council, \<open>append\<close> counts the step before it checks the limits.
\<close>

subsection \<open>State and operations\<close>

record task =
  tk_offer :: string
  tk_proof_kind :: string

record delegate =
  dg_id :: string
  dg_kind :: string
  dg_parent :: party
  dg_intern :: party
  dg_reward :: i64
  dg_unit :: token_unit
  dg_task :: task
  dg_status :: status
  dg_proof :: string
  dg_meter :: meter
  dg_created_at :: go_time
  dg_closed_at :: "go_time option"
  dg_released_to :: party
  dg_receipts :: "receipt list"
  dg_steps :: i64

definition kind_delegate :: string where
  "kind_delegate = ''delegate.intern''"

definition dg_append :: "delegate \<Rightarrow> party \<Rightarrow> string \<Rightarrow> string \<Rightarrow> go_time \<Rightarrow> delegate outcome" where
  "dg_append d0 actor action note now =
     (let d = d0\<lparr>dg_steps := dg_steps d0 + 1\<rparr>
      in if sint (dg_steps d) > max_steps (dg_meter d) then fail d ErrDoS
         else if over_budget (dg_meter d) then fail d ErrBudget
         else ok (d\<lparr>dg_receipts := dg_receipts d @ [new_receipt (dg_id d) (dg_receipts d) actor action note now]\<rparr>))"

definition open_delegate ::
  "string \<Rightarrow> party \<Rightarrow> party \<Rightarrow> i64 \<Rightarrow> task \<Rightarrow> meter \<Rightarrow> go_time \<Rightarrow> go_error + delegate" where
  "open_delegate did parent intern reward task meter now =
     (if parent = [] \<or> intern = [] then Inl ErrMissingParty
      else if parent = intern then Inl ErrSameParty
      else if sint reward \<le> 0 then Inl ErrZeroAmount
      else if tk_offer task = [] then Inl ErrEmptyOffer
      else let task1 = (if tk_proof_kind task = [] then task\<lparr>tk_proof_kind := ''citation''\<rparr> else task);
               m = (if max_steps meter \<le> 0 then meter\<lparr>mt_max_steps := 16\<rparr> else meter);
               d = \<lparr>dg_id = did, dg_kind = kind_delegate, dg_parent = parent, dg_intern = intern, dg_reward = reward,
                    dg_unit = \<lparr>un_symbol = []\<rparr>, dg_task = task1, dg_status = StatusOffered, dg_proof = [],
                    dg_meter = m, dg_created_at = now, dg_closed_at = None, dg_released_to = [], dg_receipts = [],
                    dg_steps = 0\<rparr>
           in case dg_append d parent ''offer'' (tk_offer task1) now of
                (d', None) \<Rightarrow> Inr d'
              | (d', Some e) \<Rightarrow> Inl e)"

definition dg_terminal :: "delegate \<Rightarrow> bool" where
  "dg_terminal d = (case dg_status d of StatusPaid \<Rightarrow> True | StatusRejected \<Rightarrow> True | _ \<Rightarrow> False)"

definition claim :: "delegate \<Rightarrow> party \<Rightarrow> go_time \<Rightarrow> delegate outcome" where
  "claim d actor now =
     (if actor \<noteq> dg_intern d then fail d ErrWrongParty
      else if dg_terminal d then fail d ErrTakeback
      else if dg_status d \<noteq> StatusOffered then fail d ErrBadState
      else and_then (dg_append d actor ''claim'' ''intern claimed'' now) (\<lambda>d.
        ok (d\<lparr>dg_status := StatusClaimed\<rparr>)))"

definition submit_proof :: "delegate \<Rightarrow> party \<Rightarrow> string \<Rightarrow> go_time \<Rightarrow> delegate outcome" where
  "submit_proof d actor citation now =
     (if actor \<noteq> dg_intern d then fail d ErrWrongParty
      else if dg_status d \<noteq> StatusClaimed then fail d ErrNotClaimed
      else if citation = [] then fail d ErrNoProof
      else and_then (dg_append d actor ''proof'' citation now) (\<lambda>d.
        ok (d\<lparr>dg_proof := citation, dg_status := StatusProven\<rparr>)))"

definition accept_proof :: "delegate \<Rightarrow> party \<Rightarrow> go_time \<Rightarrow> delegate outcome" where
  "accept_proof d actor now =
     (if actor \<noteq> dg_parent d then fail d ErrWrongParty
      else if dg_terminal d then fail d ErrTakeback
      else if dg_status d \<noteq> StatusProven then fail d ErrBadState
      else and_then (dg_append d actor ''pay''
          (''reward '' @ itoa (sint (dg_reward d)) @ '' released to intern'') now) (\<lambda>d.
        ok (d\<lparr>dg_closed_at := Some now, dg_released_to := dg_intern d, dg_status := StatusPaid\<rparr>)))"

definition reject_proof :: "delegate \<Rightarrow> party \<Rightarrow> go_time \<Rightarrow> delegate outcome" where
  "reject_proof d actor now =
     (if actor \<noteq> dg_parent d then fail d ErrWrongParty
      else if dg_status d \<noteq> StatusProven \<and> dg_status d \<noteq> StatusClaimed then
        (if dg_terminal d then fail d ErrTakeback else fail d ErrBadState)
      else and_then (dg_append d actor ''reject-proof'' ''proof refused, no reward'' now) (\<lambda>d.
        ok (d\<lparr>dg_closed_at := Some now, dg_released_to := dg_parent d, dg_status := StatusRejected\<rparr>)))"

definition cancel :: "delegate \<Rightarrow> party \<Rightarrow> go_time \<Rightarrow> delegate outcome" where
  "cancel d actor now =
     (if actor \<noteq> dg_parent d then fail d ErrWrongParty
      else if dg_status d \<noteq> StatusOffered then fail d ErrTakeback
      else and_then (dg_append d actor ''cancel'' ''offer cancelled before claim'' now) (\<lambda>d.
        ok (d\<lparr>dg_closed_at := Some now, dg_released_to := dg_parent d, dg_status := StatusRejected\<rparr>)))"

definition dg_verify_receipts :: "delegate \<Rightarrow> go_error option" where
  "dg_verify_receipts d = verify_receipts (dg_id d) (dg_receipts d)"

datatype dg_call =
    Claim party go_time
  | SubmitProof party string go_time
  | AcceptProof party go_time
  | RejectProof party go_time
  | Cancel party go_time

fun dg_step :: "delegate \<Rightarrow> dg_call \<Rightarrow> delegate outcome" where
  "dg_step d (Claim p t) = claim d p t"
| "dg_step d (SubmitProof p cit t) = submit_proof d p cit t"
| "dg_step d (AcceptProof p t) = accept_proof d p t"
| "dg_step d (RejectProof p t) = reject_proof d p t"
| "dg_step d (Cancel p t) = cancel d p t"

lemmas dg_ops = claim_def submit_proof_def accept_proof_def reject_proof_def cancel_def

subsection \<open>Events\<close>

definition dg_can_append :: "delegate \<Rightarrow> bool" where
  "dg_can_append d \<longleftrightarrow> sint (dg_steps d + 1) \<le> max_steps (dg_meter d) \<and> \<not> over_budget (dg_meter d)"

definition dg_counted :: "delegate \<Rightarrow> delegate" where
  "dg_counted d = d\<lparr>dg_steps := dg_steps d + 1\<rparr>"

definition dg_pushed :: "delegate \<Rightarrow> party \<Rightarrow> string \<Rightarrow> string \<Rightarrow> go_time \<Rightarrow> delegate" where
  "dg_pushed d p act n t =
     (dg_counted d)\<lparr>dg_receipts := dg_receipts d @ [new_receipt (dg_id d) (dg_receipts d) p act n t]\<rparr>"

lemma dg_append_eq:
  "dg_append d p act n t =
     (if dg_can_append d then ok (dg_pushed d p act n t)
      else fail (dg_counted d) (if sint (dg_steps d + 1) > max_steps (dg_meter d) then ErrDoS else ErrBudget))"
  by (auto simp: dg_append_def dg_can_append_def dg_pushed_def dg_counted_def Let_def)

lemma dg_pushed_fields [simp]:
  "dg_id (dg_pushed d p act n t) = dg_id d"
  "dg_kind (dg_pushed d p act n t) = dg_kind d"
  "dg_parent (dg_pushed d p act n t) = dg_parent d"
  "dg_intern (dg_pushed d p act n t) = dg_intern d"
  "dg_reward (dg_pushed d p act n t) = dg_reward d"
  "dg_unit (dg_pushed d p act n t) = dg_unit d"
  "dg_task (dg_pushed d p act n t) = dg_task d"
  "dg_status (dg_pushed d p act n t) = dg_status d"
  "dg_proof (dg_pushed d p act n t) = dg_proof d"
  "dg_meter (dg_pushed d p act n t) = dg_meter d"
  "dg_created_at (dg_pushed d p act n t) = dg_created_at d"
  "dg_closed_at (dg_pushed d p act n t) = dg_closed_at d"
  "dg_released_to (dg_pushed d p act n t) = dg_released_to d"
  "dg_receipts (dg_pushed d p act n t) = dg_receipts d @ [new_receipt (dg_id d) (dg_receipts d) p act n t]"
  "dg_steps (dg_pushed d p act n t) = dg_steps d + 1"
  by (simp_all add: dg_pushed_def dg_counted_def)

lemma dg_terminal_iff: "dg_terminal d \<longleftrightarrow> dg_status d \<in> {StatusPaid, StatusRejected}"
  by (cases "dg_status d") (simp_all add: dg_terminal_def)

inductive dg_move :: "delegate \<Rightarrow> delegate \<Rightarrow> bool" where
  claim: "dg_status d = StatusOffered \<Longrightarrow> dg_can_append d \<Longrightarrow>
    dg_move d ((dg_pushed d (dg_intern d) ''claim'' ''intern claimed'' t)\<lparr>dg_status := StatusClaimed\<rparr>)"
| prove: "dg_status d = StatusClaimed \<Longrightarrow> cit \<noteq> [] \<Longrightarrow> dg_can_append d \<Longrightarrow>
    dg_move d ((dg_pushed d (dg_intern d) ''proof'' cit t)\<lparr>dg_proof := cit, dg_status := StatusProven\<rparr>)"
| pay: "dg_status d = StatusProven \<Longrightarrow> dg_can_append d \<Longrightarrow>
    dg_move d ((dg_pushed d (dg_parent d) ''pay'' (''reward '' @ itoa (sint (dg_reward d)) @ '' released to intern'') t)
      \<lparr>dg_closed_at := Some t, dg_released_to := dg_intern d, dg_status := StatusPaid\<rparr>)"
| reject: "dg_status d \<in> {StatusProven, StatusClaimed} \<Longrightarrow> dg_can_append d \<Longrightarrow>
    dg_move d ((dg_pushed d (dg_parent d) ''reject-proof'' ''proof refused, no reward'' t)
      \<lparr>dg_closed_at := Some t, dg_released_to := dg_parent d, dg_status := StatusRejected\<rparr>)"
| cancel: "dg_status d = StatusOffered \<Longrightarrow> dg_can_append d \<Longrightarrow>
    dg_move d ((dg_pushed d (dg_parent d) ''cancel'' ''offer cancelled before claim'' t)
      \<lparr>dg_closed_at := Some t, dg_released_to := dg_parent d, dg_status := StatusRejected\<rparr>)"

lemma dg_step_move: "dg_step d c = (d', None) \<Longrightarrow> dg_move d d'"
  by (cases c) (auto simp: dg_ops and_then_def dg_append_eq split: if_splits intro!: dg_move.intros [simplified])

lemma dg_step_error:
  "dg_step d c = (d', Some e) \<Longrightarrow> d' = d \<or> \<not> dg_terminal d \<and> \<not> dg_can_append d \<and> d' = dg_counted d"
  by (cases c) (auto simp: dg_ops and_then_def dg_append_eq dg_terminal_iff split: if_splits)

interpretation dg_log: receipt_log dg_id dg_receipts dg_append
  by unfold_locales (auto simp: dg_append_eq dg_counted_def split: if_splits)

lemma dg_move_grows: "dg_move d e \<Longrightarrow> log_grows (dg_id d) (dg_receipts d) (dg_receipts e) \<and> dg_id e = dg_id d"
  by (induction rule: dg_move.induct) auto

lemma dg_step_cases:
  assumes "dg_step d c = (d', r)"
  obtains (move) "r = None" "dg_move d d'" | (same) "r \<noteq> None" "d' = d"
    | (counted) "r \<noteq> None" "d' = dg_counted d" "\<not> dg_terminal d"
  using assms dg_step_move dg_step_error by (cases r) blast+

interpretation dg: refusing_machine dg_id dg_receipts dg_append dg_step dg_terminal "\<lambda>d. d"
proof unfold_locales
  show "log_grows (dg_id d) (dg_receipts d) (dg_receipts d') \<and> dg_id d' = dg_id d" if "dg_step d c = (d', r)" for d c d' r
    using that by (cases rule: dg_step_cases) (auto simp: dg_move_grows dg_counted_def)
  show "d' = d \<and> dg_terminal d'" if "dg_terminal d" "dg_step d c = (d', r)" for d c d' r
    using that(2,1) by (cases rule: dg_step_cases) (auto simp: dg_terminal_iff elim: dg_move.cases)
  show "r \<noteq> None" if "dg_terminal d" "dg_step d c = (d', r)" for d c d' r
    using that(2,1) by (cases rule: dg_step_cases) (auto simp: dg_terminal_iff elim: dg_move.cases)
qed

subsection \<open>The stories of a delegate\<close>

text \<open>
  The action, the author and the note of each receipt. A delegate's receipts tell one of seven stories, and its status
  says which.
\<close>

definition told :: "receipt list \<Rightarrow> (string \<times> party \<times> string) list" where
  "told rs = map (\<lambda>r. (r_action r, r_actor r, r_note r)) rs"

definition offered_line :: "delegate \<Rightarrow> string \<times> party \<times> string" where
  "offered_line d = (''offer'', dg_parent d, tk_offer (dg_task d))"

definition claimed_line :: "delegate \<Rightarrow> string \<times> party \<times> string" where
  "claimed_line d = (''claim'', dg_intern d, ''intern claimed'')"

definition proof_line :: "delegate \<Rightarrow> string \<times> party \<times> string" where
  "proof_line d = (''proof'', dg_intern d, dg_proof d)"

definition paid_line :: "delegate \<Rightarrow> string \<times> party \<times> string" where
  "paid_line d = (''pay'', dg_parent d, ''reward '' @ itoa (sint (dg_reward d)) @ '' released to intern'')"

definition refused_line :: "delegate \<Rightarrow> string \<times> party \<times> string" where
  "refused_line d = (''reject-proof'', dg_parent d, ''proof refused, no reward'')"

definition cancelled_line :: "delegate \<Rightarrow> string \<times> party \<times> string" where
  "cancelled_line d = (''cancel'', dg_parent d, ''offer cancelled before claim'')"

lemmas dg_lines = offered_line_def claimed_line_def proof_line_def paid_line_def refused_line_def cancelled_line_def

definition stories :: "delegate \<Rightarrow> (string \<times> party \<times> string) list set" where
  "stories d = (case dg_status d of
      StatusOffered \<Rightarrow> {[offered_line d]}
    | StatusClaimed \<Rightarrow> {[offered_line d, claimed_line d]}
    | StatusProven \<Rightarrow> {[offered_line d, claimed_line d, proof_line d]}
    | StatusPaid \<Rightarrow> {[offered_line d, claimed_line d, proof_line d, paid_line d]}
    | StatusRejected \<Rightarrow> {[offered_line d, cancelled_line d], [offered_line d, claimed_line d, refused_line d],
        [offered_line d, claimed_line d, proof_line d, refused_line d]}
    | _ \<Rightarrow> {})"

definition dg_shape :: "delegate \<Rightarrow> bool" where
  "dg_shape d \<longleftrightarrow>
     dg_parent d \<noteq> [] \<and> dg_intern d \<noteq> [] \<and> dg_parent d \<noteq> dg_intern d \<and> 0 < sint (dg_reward d)
     \<and> tk_offer (dg_task d) \<noteq> [] \<and> verify_receipts (dg_id d) (dg_receipts d) = None
     \<and> \<not> over_budget (dg_meter d)
     \<and> (dg_status d \<in> {StatusProven, StatusPaid} \<longrightarrow> dg_proof d \<noteq> [])
     \<and> (dg_closed_at d \<noteq> None \<longleftrightarrow> dg_terminal d)
     \<and> dg_released_to d = (if dg_status d = StatusPaid then dg_intern d
          else if dg_status d = StatusRejected then dg_parent d else [])"

definition dg_wf :: "delegate \<Rightarrow> bool" where
  "dg_wf d \<longleftrightarrow> dg_shape d \<and> told (dg_receipts d) \<in> stories d"

definition dg_same :: "delegate \<Rightarrow> delegate \<Rightarrow> bool" where
  "dg_same d e \<longleftrightarrow> dg_id e = dg_id d \<and> dg_parent e = dg_parent d \<and> dg_intern e = dg_intern d
     \<and> dg_reward e = dg_reward d \<and> dg_task e = dg_task d \<and> dg_meter e = dg_meter d"

lemma told_snoc [simp]: "told (rs @ [r]) = told rs @ [(r_action r, r_actor r, r_note r)]"
  by (simp add: told_def)

lemma dg_move_shape: "dg_move d e \<Longrightarrow> dg_shape d \<Longrightarrow> dg_shape e"
  by (induction rule: dg_move.induct) (auto simp: dg_shape_def dg_can_append_def dg_terminal_iff)

lemma dg_move_told: "dg_move d e \<Longrightarrow> told (dg_receipts d) \<in> stories d \<Longrightarrow> told (dg_receipts e) \<in> stories e"
  by (induction rule: dg_move.induct) (auto simp: stories_def dg_lines)

lemma dg_move_same: "dg_move d e \<Longrightarrow> dg_same d e"
  by (induction rule: dg_move.induct) (simp_all add: dg_same_def)

lemma dg_counted_wf: "dg_wf d \<Longrightarrow> dg_wf (dg_counted d) \<and> dg_same d (dg_counted d)"
  by (simp add: dg_wf_def dg_shape_def stories_def dg_lines dg_counted_def dg_same_def dg_terminal_def
      cong: status.case_cong)

lemma dg_step_wf: "dg_wf d \<Longrightarrow> dg_step d c = (d', r) \<Longrightarrow> dg_wf d' \<and> dg_same d d'"
  by (erule dg_step_cases)
    (auto simp: dg_wf_def dg_move_shape dg_move_told dg_move_same dg_counted_wf [unfolded dg_wf_def], simp add: dg_same_def)

lemma dg_same_trans: "dg_same d e \<Longrightarrow> dg_same e f \<Longrightarrow> dg_same d f"
  by (simp add: dg_same_def)

interpretation dg_good: machine_invariant dg_step "\<lambda>e. dg_wf e \<and> dg_same d e" for d
  using dg_step_wf dg_same_trans by unfold_locales blast

lemma dg_run_wf: "dg_wf d \<Longrightarrow> dg_wf (run dg_step d cs) \<and> dg_same d (run dg_step d cs)"
  by (rule dg_good.run_good) (simp add: dg_same_def)

lemma open_delegate_Inr:
  assumes "open_delegate did parent intern reward task meter now = Inr d"
  shows "dg_wf d \<and> dg_status d = StatusOffered \<and> dg_parent d = parent \<and> dg_intern d = intern \<and> dg_reward d = reward
    \<and> tk_offer (dg_task d) = tk_offer task \<and> dg_steps d = 1
    \<and> dg_meter d = (if max_steps meter \<le> 0 then meter\<lparr>mt_max_steps := 16\<rparr> else meter)"
  using assms verify_receipts_new [of did "[]" parent "''offer''" "tk_offer task" now]
  by (auto simp: open_delegate_def Let_def dg_append_eq dg_pushed_def dg_counted_def dg_can_append_def dg_wf_def
      dg_shape_def stories_def dg_lines told_def dg_terminal_def split: if_splits)

subsection \<open>Properties of delegates\<close>

text \<open>
  C30. The status of a delegate is its history: after any calls the receipts verify and tell one of the seven legal stories,
  each line by its proper author, the terms are those offered, the reward is with the intern exactly when it was paid and
  with the parent exactly when the offer was cancelled or the work refused.
\<close>

theorem delegate_tells_its_story:
  assumes "open_delegate did parent intern reward task meter now = Inr d0" and "d = run dg_step d0 cs"
  shows "dg_verify_receipts d = None \<and> told (dg_receipts d) \<in> stories d \<and> dg_same d0 d
    \<and> dg_released_to d = (if dg_status d = StatusPaid then intern else if dg_status d = StatusRejected then parent else [])
    \<and> length (dg_receipts d) \<le> 4"
proof -
  have "dg_wf d \<and> dg_same d0 d" and "dg_parent d0 = parent" "dg_intern d0 = intern"
    unfolding assms(2) using open_delegate_Inr [OF assms(1)] dg_run_wf by blast+
  moreover have "length (told (dg_receipts d)) \<le> 4" if "told (dg_receipts d) \<in> stories d"
    using that by (auto simp: stories_def split: status.splits)
  ultimately show ?thesis
    by (auto simp: dg_wf_def dg_shape_def dg_same_def dg_verify_receipts_def told_def)
qed

lemma ex_delegate:
  "\<exists>d. open_delegate ''d-1'' ''ada'' ''ivy'' 5 \<lparr>tk_offer = ''index the docs'', tk_proof_kind = []\<rparr> (plain_meter 4) 10 = Inr d"
  by (simp add: open_delegate_def Let_def dg_append_eq dg_can_append_def)

theorem delegate_tells_its_story_witness:
  "\<exists>d. open_delegate ''d-1'' ''ada'' ''ivy'' 5 \<lparr>tk_offer = ''index the docs'', tk_proof_kind = []\<rparr> (plain_meter 4) 10 = Inr d
     \<and> dg_verify_receipts (run dg_step d [Claim ''ivy'' 11, Cancel ''ada'' 12]) = None"
  using ex_delegate delegate_tells_its_story [OF _ refl] by blast

text \<open>
  C20. The reward is never paid without proof: a paid delegate has a claim and a non-empty proof written by the intern and
  then a payment written by the parent, in that order, and nothing else.
\<close>

theorem delegate_paid_only_on_proof:
  assumes "open_delegate did parent intern reward task meter now = Inr d0" and "d = run dg_step d0 cs"
    and "dg_status d = StatusPaid"
  shows "dg_proof d \<noteq> [] \<and> told (dg_receipts d) =
      [(''offer'', parent, tk_offer task), (''claim'', intern, ''intern claimed''), (''proof'', intern, dg_proof d),
       (''pay'', parent, ''reward '' @ itoa (sint reward) @ '' released to intern'')]"
proof -
  have "dg_wf d \<and> dg_same d0 d"
    unfolding assms(2) using open_delegate_Inr [OF assms(1)] dg_run_wf by blast
  with open_delegate_Inr [OF assms(1)] assms(3) show ?thesis
    by (simp add: dg_wf_def dg_shape_def stories_def dg_lines dg_same_def)
qed

lemma dg_step_taken: "dg_status e \<noteq> StatusOffered \<Longrightarrow> dg_step e c = (e', r) \<Longrightarrow> dg_status e' \<noteq> StatusOffered"
  by (erule dg_step_cases) (auto simp: dg_counted_def elim: dg_move.cases)

interpretation dg_taken: machine_invariant dg_step "\<lambda>e. dg_status e \<noteq> StatusOffered"
  using dg_step_taken by unfold_locales

text \<open>The calls of a delegate that goes well, on any offered delegate with three steps left.\<close>

lemma dg_paid_run:
  assumes "dg_status d = StatusOffered" "\<not> over_budget (dg_meter d)" "sint (dg_steps d) + 3 \<le> max_steps (dg_meter d)"
    and "cit \<noteq> []"
  shows "dg_status (run dg_step d [Claim (dg_intern d) t, SubmitProof (dg_intern d) cit u, AcceptProof (dg_parent d) v])
    = StatusPaid"
proof -
  have "sint (dg_steps d + 1) = sint (dg_steps d) + 1" "sint (dg_steps d + 2) = sint (dg_steps d) + 2"
    "sint (dg_steps d + 3) = sint (dg_steps d) + 3"
    using assms(3) sint_add_below [of 1 "dg_steps d" "mt_max_steps (dg_meter d)"]
      sint_add_below [of 2 "dg_steps d" "mt_max_steps (dg_meter d)"]
      sint_add_below [of 3 "dg_steps d" "mt_max_steps (dg_meter d)"]
    by simp_all
  with assms show ?thesis
    by (simp add: dg_ops dg_append_eq dg_can_append_def dg_terminal_def add.assoc)
qed

text \<open>
  A claimed offer cannot be pulled and an honest intern can be paid: from the offer, with four steps on the meter, the
  calls claim, prove and accept succeed and end paid, and after the claim \<open>Cancel\<close> is refused in every later state.
\<close>

theorem delegate_claim_binds:
  assumes "open_delegate did parent intern reward task meter now = Inr d0" and "4 \<le> max_steps meter" and "cit \<noteq> []"
  shows "dg_status (run dg_step d0 [Claim intern t, SubmitProof intern cit u, AcceptProof parent v]) = StatusPaid
    \<and> snd (cancel (run dg_step d0 (Claim intern t # cs)) parent w) = Some ErrTakeback"
proof -
  note d0 = open_delegate_Inr [OF assms(1)]
  have can: "dg_can_append d0" "\<not> over_budget (dg_meter d0)"
    using d0 assms(2) by (auto simp: dg_can_append_def dg_wf_def dg_shape_def)
  have paid: "dg_status (run dg_step d0 [Claim intern t, SubmitProof intern cit u, AcceptProof parent v]) = StatusPaid"
    using dg_paid_run [OF _ can(2) _ assms(3), of t u v] d0 assms(2) by simp
  obtain d1 where d1: "claim d0 intern t = ok d1" "dg_status d1 = StatusClaimed" "dg_parent d1 = parent"
    using d0 can by (auto simp: claim_def dg_append_eq dg_terminal_def)
  have "dg_status (run dg_step d1 cs) \<noteq> StatusOffered"
    using d1 by (intro dg_taken.run_good) simp
  moreover have "dg_wf d1 \<and> dg_same d0 d1"
    using dg_step_wf [of d0 "Claim intern t" d1 None] d0 d1 by simp
  then have "dg_parent (run dg_step d1 cs) = parent"
    using dg_run_wf [of d1 cs] d0 by (simp add: dg_same_def)
  ultimately have "snd (cancel (run dg_step d1 cs) parent w) = Some ErrTakeback"
    by (simp add: cancel_def)
  with paid d1(1) show ?thesis
    by simp
qed

theorem delegate_paid_only_on_proof_witness:
  "\<exists>d. open_delegate ''d-1'' ''ada'' ''ivy'' 5 \<lparr>tk_offer = ''index the docs'', tk_proof_kind = []\<rparr> (plain_meter 4) 10 = Inr d
     \<and> length (told (dg_receipts (run dg_step d
         [Claim ''ivy'' 11, SubmitProof ''ivy'' ''commit 3f'' 12, AcceptProof ''ada'' 13]))) = 4"
proof -
  obtain d where d: "open_delegate ''d-1'' ''ada'' ''ivy'' 5 \<lparr>tk_offer = ''index the docs'', tk_proof_kind = []\<rparr>
      (plain_meter 4) 10 = Inr d"
    using ex_delegate by blast
  have "dg_status (run dg_step d [Claim ''ivy'' 11, SubmitProof ''ivy'' ''commit 3f'' 12, AcceptProof ''ada'' 13]) = StatusPaid"
    using dg_paid_run [of d "''commit 3f''" 11 12 13] open_delegate_Inr [OF d] by simp
  from delegate_paid_only_on_proof [OF d refl this] d show ?thesis
    by simp
qed

theorem delegate_claim_binds_witness:
  "\<exists>d. open_delegate ''d-1'' ''ada'' ''ivy'' 5 \<lparr>tk_offer = ''index the docs'', tk_proof_kind = []\<rparr> (plain_meter 4) 10 = Inr d
     \<and> snd (cancel (run dg_step d [Claim ''ivy'' 11]) ''ada'' 12) = Some ErrTakeback"
proof -
  obtain d where d: "open_delegate ''d-1'' ''ada'' ''ivy'' 5 \<lparr>tk_offer = ''index the docs'', tk_proof_kind = []\<rparr>
      (plain_meter 4) 10 = Inr d"
    using ex_delegate by blast
  from delegate_claim_binds [OF d, of "''commit 3f''" 11 12 13 "[]" 12] d show ?thesis
    by simp
qed

end
