(* ===== verification/Workflow.thy ===== *)
theory Workflow
  imports Kernel_Types "HOL-Library.AList"
begin

text \<open>
  The workflow of \<open>internal/nexum/workflow.go\<close>: a tree of gates and actions, the walk that facts select, and its
  recording. A Go map is an association list here: of the argument of \<open>OpenWorkflow\<close>, whose range order is unspecified,
  it lists the entries in the order the loop visits them, so what holds for every list holds for every order.
\<close>

subsection \<open>State and operations\<close>

record node =
  nd_id :: string
  nd_kind :: string
  nd_require :: "string list"
  nd_next :: "string list"

type_synonym nodes = "(string \<times> node) list"
type_synonym facts = "string \<rightharpoonup> bool"

record workflow =
  wk_id :: string
  wk_kind :: string
  wk_root :: string
  wk_nodes :: nodes
  wk_status :: status
  wk_path :: "string list"
  wk_action :: string
  wk_meter :: meter
  wk_created_at :: go_time
  wk_closed_at :: "go_time option"
  wk_receipts :: "receipt list"
  wk_actor :: party
  wk_steps :: i64

definition kind_workflow :: string where
  "kind_workflow = ''workflow.tree''"

definition wk_append :: "workflow \<Rightarrow> party \<Rightarrow> string \<Rightarrow> string \<Rightarrow> go_time \<Rightarrow> workflow outcome" where
  "wk_append w0 actor action note now =
     (let w = w0\<lparr>wk_steps := wk_steps w0 + 1\<rparr>
      in if sint (wk_steps w) > max_steps (wk_meter w) then fail w ErrDoS
         else ok (w\<lparr>wk_receipts := wk_receipts w @ [new_receipt (wk_id w) (wk_receipts w) actor action note now]\<rparr>))"

text \<open>The loop over the nodes. \<open>nodes\<close> is the whole argument, in which children are looked up.\<close>

fun clean_nodes :: "nodes \<Rightarrow> nodes \<Rightarrow> nodes \<Rightarrow> go_error + nodes" where
  "clean_nodes nodes cleaned [] = Inr cleaned"
| "clean_nodes nodes cleaned ((k, n0) # ns) =
     (let n = (if nd_id n0 = [] then n0\<lparr>nd_id := k\<rparr> else n0)
      in if nd_kind n \<noteq> ''gate'' \<and> nd_kind n \<noteq> ''action''
           then Inl (Wrapf ''%w: node %s kind %q'' [nd_id n, nd_kind n] ErrBadTree)
         else if nd_kind n = ''action'' \<and> nd_next n \<noteq> []
           then Inl (Wrapf ''%w: action %s has children'' [nd_id n] ErrBadTree)
         else if nd_kind n = ''gate'' \<and> nd_next n = []
           then Inl (Wrapf ''%w: gate %s has no children'' [nd_id n] ErrBadTree)
         else case find (\<lambda>ch. map_of nodes ch = None) (nd_next n) of
             Some ch \<Rightarrow> Inl (Wrapf (''%w: %s '' @ [CHR 0xE2, CHR 0x86, CHR 0x92] @ '' missing %s'') [nd_id n, ch] ErrBadTree)
           | None \<Rightarrow> clean_nodes nodes (AList.update (nd_id n) n cleaned) ns)"

definition open_workflow ::
  "string \<Rightarrow> party \<Rightarrow> string \<Rightarrow> nodes \<Rightarrow> meter \<Rightarrow> go_time \<Rightarrow> go_error + workflow" where
  "open_workflow wid actor start nodes meter now =
     (if actor = [] then Inl ErrMissingParty
      else if start = [] \<or> nodes = [] then Inl ErrBadTree
      else case clean_nodes nodes [] nodes of
          Inl e \<Rightarrow> Inl e
        | Inr cleaned \<Rightarrow>
            if map_of cleaned start = None then Inl (Wrapf ''%w: missing root %s'' [start] ErrBadTree)
            else let m = (if max_steps meter \<le> 0 then meter\<lparr>mt_max_steps := 64\<rparr> else meter);
                     w = \<lparr>wk_id = wid, wk_kind = kind_workflow, wk_root = start, wk_nodes = cleaned, wk_status = StatusOpen,
                          wk_path = [], wk_action = [], wk_meter = m, wk_created_at = now, wk_closed_at = None,
                          wk_receipts = [], wk_actor = actor, wk_steps = 0\<rparr>
                 in case wk_append w actor ''open'' ''workflow opened'' now of
                      (w', None) \<Rightarrow> Inr w'
                    | (w', Some e) \<Rightarrow> Inl e)"

definition reqs_met :: "string list \<Rightarrow> facts \<Rightarrow> bool" where
  "reqs_met req facts \<longleftrightarrow> list_all (\<lambda>r. facts r = Some True) req"

definition zero_node :: node where
  "zero_node = \<lparr>nd_id = [], nd_kind = [], nd_require = [], nd_next = []\<rparr>"

definition node_at :: "nodes \<Rightarrow> string \<Rightarrow> node" where
  "node_at nodes k = (case map_of nodes k of None \<Rightarrow> zero_node | Some n \<Rightarrow> n)"

text \<open>The child the inner loop settles on, the empty string when it finds none.\<close>

definition next_node :: "nodes \<Rightarrow> facts \<Rightarrow> node \<Rightarrow> string" where
  "next_node nodes facts n =
     (case find (\<lambda>ch. reqs_met (nd_require (node_at nodes ch)) facts) (nd_next n) of None \<Rightarrow> [] | Some ch \<Rightarrow> ch)"

lemma map_of_key: "map_of ns k = Some n \<Longrightarrow> k \<in> fst ` set ns"
  by (metis domI dom_map_of_conv_image_fst)

lemma unvisited_decreases:
  "k \<notin> seen \<Longrightarrow> map_of nodes k = Some n \<Longrightarrow>
   card (fst ` set nodes - insert k seen) < card (fst ` set nodes - seen)"
  using map_of_key [of nodes k n] by (intro psubset_card_mono) auto

text \<open>The loop of \<open>Walk\<close>; it ends because a node is visited at most once.\<close>

function walk_from :: "nodes \<Rightarrow> facts \<Rightarrow> string set \<Rightarrow> string list \<Rightarrow> string \<Rightarrow> go_error + string list \<times> string" where
  "walk_from nodes facts seen path cur =
     (if cur \<in> seen then Inl ErrWalkLoop
      else case map_of nodes cur of
          None \<Rightarrow> Inl (Wrapf ''%w: missing node %s'' [cur] ErrBadTree)
        | Some n \<Rightarrow>
            if \<not> reqs_met (nd_require n) facts then Inl ErrNoPath
            else if nd_kind n = ''action'' then Inr (path @ [cur], nd_id n)
            else let nxt = next_node nodes facts n
                 in if nxt = [] then Inl ErrNoPath
                    else if length (path @ [cur]) > length nodes + 1 then Inl ErrWalkLoop
                    else walk_from nodes facts (insert cur seen) (path @ [cur]) nxt)"
  by pat_completeness auto

termination
  by (relation "measure (\<lambda>(nodes, facts, seen, path, cur). card (fst ` set nodes - seen))")
    (simp_all add: unvisited_decreases)

declare walk_from.simps [simp del]

text \<open>\<open>Walk\<close>; \<open>None\<close> is the nil receiver.\<close>

definition walk :: "workflow option \<Rightarrow> facts \<Rightarrow> go_error + string list \<times> string" where
  "walk w facts =
     (case w of
        None \<Rightarrow> Inl ErrBadTree
      | Some w \<Rightarrow> if wk_nodes w = [] then Inl ErrBadTree else walk_from (wk_nodes w) facts {} [] (wk_root w))"

fun join_with :: "string \<Rightarrow> string list \<Rightarrow> string" where
  "join_with sep [] = []"
| "join_with sep [x] = x"
| "join_with sep (x # xs) = x @ sep @ join_with sep xs"

definition wk_execute :: "workflow \<Rightarrow> party \<Rightarrow> facts option \<Rightarrow> go_time \<Rightarrow> workflow outcome" where
  "wk_execute w actor facts now =
     (if actor \<noteq> wk_actor w then fail w ErrWrongParty
      else if wk_status w \<noteq> StatusOpen then fail w ErrTakeback
      else case facts of
          None \<Rightarrow> fail w ErrEmptyFact
        | Some fs \<Rightarrow>
            (case walk (Some w) fs of
               Inl e \<Rightarrow> fail w e
             | Inr (path, action) \<Rightarrow>
                 and_then (wk_append w actor ''execute'' (''path=['' @ join_with '' '' path @ ''] action='' @ action) now)
                   (\<lambda>w. ok (w\<lparr>wk_closed_at := Some now, wk_path := path, wk_action := action,
                              wk_status := StatusExecuted\<rparr>))))"

definition wk_verify_receipts :: "workflow \<Rightarrow> go_error option" where
  "wk_verify_receipts w = verify_receipts (wk_id w) (wk_receipts w)"

text \<open>The only call that changes a workflow.\<close>

datatype wk_call = ExecuteWith party "facts option" go_time

fun wk_step :: "workflow \<Rightarrow> wk_call \<Rightarrow> workflow outcome" where
  "wk_step w (ExecuteWith p fs t) = wk_execute w p fs t"

subsection \<open>The walk as a route through the tree\<close>

text \<open>
  What the documentation promises of the walk: start at the root, at each gate take the first child in order whose
  required facts are all true, stop at an action. It is stated on the tree and the facts alone, without the functions of
  the code, and mentions neither visited nodes nor bounds. A name that is not in the tree requires nothing; such a child
  is taken, and no route leads through it.
\<close>

definition facts_open :: "nodes \<Rightarrow> facts \<Rightarrow> string \<Rightarrow> bool" where
  "facts_open nodes facts k \<longleftrightarrow>
     (case map_of nodes k of None \<Rightarrow> True | Some n \<Rightarrow> list_all (\<lambda>r. facts r = Some True) (nd_require n))"

definition first_open :: "nodes \<Rightarrow> facts \<Rightarrow> node \<Rightarrow> string \<Rightarrow> bool" where
  "first_open nodes facts n ch \<longleftrightarrow> facts_open nodes facts ch
     \<and> (\<exists>pre post. nd_next n = pre @ ch # post \<and> (\<forall>c \<in> set pre. \<not> facts_open nodes facts c))"

inductive route :: "nodes \<Rightarrow> facts \<Rightarrow> string \<Rightarrow> string list \<Rightarrow> string \<Rightarrow> bool" for nodes facts where
  stop: "map_of nodes k = Some n \<Longrightarrow> facts_open nodes facts k \<Longrightarrow> nd_kind n = ''action'' \<Longrightarrow>
    route nodes facts k [k] (nd_id n)"
| turn: "map_of nodes k = Some n \<Longrightarrow> facts_open nodes facts k \<Longrightarrow> nd_kind n \<noteq> ''action'' \<Longrightarrow>
    first_open nodes facts n ch \<Longrightarrow> ch \<noteq> [] \<Longrightarrow> route nodes facts ch path act \<Longrightarrow> route nodes facts k (k # path) act"

inductive_cases routeE: "route nodes facts k path act"

text \<open>The helpers of the code decide what the route asks for.\<close>

lemma facts_open_reqs: "reqs_met (nd_require (node_at nodes k)) facts \<longleftrightarrow> facts_open nodes facts k"
  by (simp add: reqs_met_def node_at_def facts_open_def zero_node_def split: option.split)

lemma facts_open_node: "map_of nodes k = Some n \<Longrightarrow> reqs_met (nd_require n) facts \<longleftrightarrow> facts_open nodes facts k"
  using facts_open_reqs [of nodes k facts] by (simp add: node_at_def)

lemma find_first: "find P xs = Some x \<longleftrightarrow> P x \<and> (\<exists>pre post. xs = pre @ x # post \<and> (\<forall>c \<in> set pre. \<not> P c))"
proof
  show "P x \<and> (\<exists>pre post. xs = pre @ x # post \<and> (\<forall>c \<in> set pre. \<not> P c))" if "find P xs = Some x"
    using that
  proof (induction xs)
    case (Cons y ys)
    then show ?case
      by (cases "P y") (force intro: exI [of _ "[]"], fastforce intro: exI [of _ "y # _"])
  qed simp
  show "find P xs = Some x" if "P x \<and> (\<exists>pre post. xs = pre @ x # post \<and> (\<forall>c \<in> set pre. \<not> P c))"
  proof -
    have "find P (pre @ x # post) = Some x" if "\<forall>c \<in> set pre. \<not> P c" "P x" for pre post
      using that by (induction pre) auto
    with that show ?thesis
      by blast
  qed
qed

lemma next_node_first: "ch \<noteq> [] \<Longrightarrow> next_node nodes facts n = ch \<longleftrightarrow> first_open nodes facts n ch"
  unfolding next_node_def first_open_def facts_open_reqs find_first [symmetric] by (auto split: option.split)

lemma route_unique: "route nodes facts k path act \<Longrightarrow> route nodes facts k path' act' \<Longrightarrow> path' = path \<and> act' = act"
proof (induction arbitrary: path' act' rule: route.induct)
  case (stop k n)
  then show ?case
    by (auto elim: routeE)
next
  case (turn k n ch path act)
  from turn.prems turn.hyps(1,3) obtain p ch' where "path' = k # p" "route nodes facts ch' p act'"
      "first_open nodes facts n ch'" "ch' \<noteq> []"
    by (auto elim: routeE)
  moreover from this turn.hyps(4,5) have "ch' = ch"
    using next_node_first by metis
  ultimately have "path' = k # p" "route nodes facts ch p act'"
    by simp_all
  with turn.IH show ?case
    by simp
qed

text \<open>A route visits no node twice: from a node on it, the rest of the route is the only route.\<close>

lemma route_suffix: "route nodes facts k path act \<Longrightarrow> j \<in> set path \<Longrightarrow> \<exists>p. route nodes facts j p act \<and> length p \<le> length path"
proof (induction rule: route.induct)
  case (stop k n)
  then show ?case
    using route.stop by fastforce
next
  case (turn k n ch path act)
  show ?case
  proof (cases "j = k")
    case True
    with route.turn [OF turn.hyps(1-5)] turn.hyps(6) show ?thesis
      by blast
  next
    case False
    with turn obtain p where "route nodes facts j p act" "length p \<le> length path"
      by auto
    then show ?thesis
      by (intro exI [of _ p]) simp
  qed
qed

lemma route_head: "route nodes facts k path act \<Longrightarrow> \<exists>p. path = k # p"
  by (auto elim: routeE)

lemma route_distinct: "route nodes facts k path act \<Longrightarrow> distinct path \<and> set path \<subseteq> fst ` set nodes"
proof (induction rule: route.induct)
  case (turn k n ch path act)
  have "k \<notin> set path"
  proof
    assume "k \<in> set path"
    then obtain p where p: "route nodes facts k p act" and shorter: "length p \<le> length path"
      using route_suffix [OF turn.hyps(6)] by auto
    have "route nodes facts k (k # path) act"
      using turn.hyps by (rule route.turn)
    from route_unique [OF this p] shorter show False
      by simp
  qed
  with turn.IH map_of_key [OF turn.hyps(1)] show ?case
    by simp
qed (simp add: map_of_key)

lemma route_in_tree: "route nodes facts k path act \<Longrightarrow> \<exists>n. map_of nodes k = Some n \<and> facts_open nodes facts k"
  by (auto elim: routeE)

lemma visited_bound:
  assumes "distinct path" "set path \<subseteq> fst ` set (nodes :: nodes)"
  shows "length path \<le> length nodes"
proof -
  have "length path = card (set path)"
    using assms(1) by (simp add: distinct_card)
  also have "\<dots> \<le> card (fst ` set nodes)"
    using assms(2) by (intro card_mono) auto
  also have "\<dots> \<le> length nodes"
    using card_image_le [of "set nodes" fst] card_length [of nodes] by simp
  finally show ?thesis .
qed

text \<open>The walk finds the route there is, from any point it has come to, and neither of its two loop checks is ever the
  reason to give up on a route.\<close>

lemma route_walk:
  assumes "route nodes facts k path act" and "set path \<inter> seen = {}" and "set pre \<subseteq> seen" "distinct pre"
    and "seen \<subseteq> fst ` set nodes"
  shows "walk_from nodes facts seen pre k = Inr (pre @ path, act)"
  using assms
proof (induction arbitrary: seen pre rule: route.induct)
  case (stop k n)
  then show ?case
    by (simp add: walk_from.simps facts_open_node)
next
  case (turn k n ch path act)
  have "k \<notin> set path"
    using route_distinct [OF route.turn [OF turn.hyps]] by simp
  then have rest: "walk_from nodes facts (insert k seen) (pre @ [k]) ch = Inr ((pre @ [k]) @ path, act)"
    using turn.prems map_of_key [OF turn.hyps(1)] by (intro turn.IH) auto
  have "length pre \<le> length nodes"
    using turn.prems by (intro visited_bound) auto
  moreover have "reqs_met (nd_require n) facts" "next_node nodes facts n = ch"
    using facts_open_node turn.hyps(1,2,4,5) next_node_first by metis+
  ultimately show ?case
    using turn rest by (simp add: walk_from.simps [of nodes facts seen pre k])
qed

lemma walk_route: "walk_from nodes facts seen pre k = Inr (path, act) \<Longrightarrow> \<exists>p. path = pre @ p \<and> route nodes facts k p act"
proof (induction nodes facts seen pre k rule: walk_from.induct)
  case (1 nodes facts seen pre k)
  then obtain n where n: "k \<notin> seen" "map_of nodes k = Some n" "reqs_met (nd_require n) facts"
    by (auto simp: walk_from.simps [of nodes facts seen pre k] split: if_splits option.splits)
  show ?case
  proof (cases "nd_kind n = ''action''")
    case True
    with 1(2) n facts_open_node [OF n(2)] show ?thesis
      by (auto simp: walk_from.simps [of nodes facts seen pre k] intro: route.stop)
  next
    case False
    let ?ch = "next_node nodes facts n"
    have next_ok: "?ch \<noteq> []" "\<not> length (pre @ [k]) > length nodes + 1"
      and rest: "walk_from nodes facts (insert k seen) (pre @ [k]) ?ch = Inr (path, act)"
      using 1(2) n False by (auto simp: walk_from.simps [of nodes facts seen pre k] Let_def split: if_splits)
    from 1(1) [OF n(1,2) _ False refl next_ok rest] n(3) obtain p where "path = (pre @ [k]) @ p" "route nodes facts ?ch p act"
      by blast
    moreover have "facts_open nodes facts k" "first_open nodes facts n ?ch"
      using facts_open_node [OF n(2)] n(3) next_node_first [OF next_ok(1)] by blast+
    ultimately show ?thesis
      using route.turn [OF n(2) _ False _ next_ok(1)] by (intro exI [of _ "k # p"]) simp
  qed
qed

lemma walk_from_iff: "walk_from nodes facts {} [] k = Inr (path, act) \<longleftrightarrow> route nodes facts k path act"
  using walk_route [of nodes facts "{}" "[]" k path act] route_walk [of nodes facts k path act "{}" "[]"] by auto

lemma walk_iff: "walk (Some w) facts = Inr (path, act) \<longleftrightarrow> route (wk_nodes w) facts (wk_root w) path act"
  using route_in_tree [of "wk_nodes w" facts "wk_root w"] by (auto simp: walk_def walk_from_iff)

subsection \<open>The walk without its length check\<close>

function walk_plain :: "nodes \<Rightarrow> facts \<Rightarrow> string set \<Rightarrow> string list \<Rightarrow> string \<Rightarrow> go_error + string list \<times> string" where
  "walk_plain nodes facts seen path cur =
     (if cur \<in> seen then Inl ErrWalkLoop
      else case map_of nodes cur of
          None \<Rightarrow> Inl (Wrapf ''%w: missing node %s'' [cur] ErrBadTree)
        | Some n \<Rightarrow>
            if \<not> reqs_met (nd_require n) facts then Inl ErrNoPath
            else if nd_kind n = ''action'' then Inr (path @ [cur], nd_id n)
            else if next_node nodes facts n = [] then Inl ErrNoPath
            else walk_plain nodes facts (insert cur seen) (path @ [cur]) (next_node nodes facts n))"
  by pat_completeness auto
termination
  by (relation "measure (\<lambda>(nodes, facts, seen, path, cur). card (fst ` set nodes - seen))")
    (simp_all add: unvisited_decreases)

declare walk_plain.simps [simp del]

lemma walk_from_plain:
  "distinct path \<Longrightarrow> set path = seen \<Longrightarrow> seen \<subseteq> fst ` set nodes \<Longrightarrow>
   walk_from nodes facts seen path k = walk_plain nodes facts seen path k"
proof (induction nodes facts seen path k rule: walk_plain.induct)
  case (1 nodes facts seen path k)
  show ?case
  proof (cases "k \<in> seen \<or> map_of nodes k = None")
    case True
    then show ?thesis
      by (auto simp: walk_from.simps [of nodes facts seen path k] walk_plain.simps [of nodes facts seen path k])
  next
    case False
    then obtain n where n: "k \<notin> seen" "map_of nodes k = Some n"
      by auto
    then have "distinct (path @ [k])" "set (path @ [k]) = insert k seen" "insert k seen \<subseteq> fst ` set nodes"
      using 1(2-4) map_of_key [OF n(2)] by auto
    moreover from this have "\<not> length (path @ [k]) > length nodes + 1"
      using visited_bound [of "path @ [k]" nodes] by simp
    ultimately show ?thesis
      using 1(1) [OF n] n by (simp add: walk_from.simps [of nodes facts seen path k] walk_plain.simps [of nodes facts seen path k] Let_def)
  qed
qed

subsection \<open>Opened trees\<close>

definition node_ok :: "nodes \<Rightarrow> string \<Rightarrow> node \<Rightarrow> bool" where
  "node_ok nodes k n \<longleftrightarrow> nd_id n = k
     \<and> (nd_kind n = ''gate'' \<and> nd_next n \<noteq> [] \<or> nd_kind n = ''action'' \<and> nd_next n = [])
     \<and> list_all (\<lambda>ch. map_of nodes ch \<noteq> None) (nd_next n)"

definition well_keyed :: "nodes \<Rightarrow> bool" where
  "well_keyed nodes \<longleftrightarrow> list_all (\<lambda>(k, n). nd_id n = [] \<or> nd_id n = k) nodes"

lemma find_None_list_all: "find P xs = None \<longleftrightarrow> list_all (\<lambda>x. \<not> P x) xs"
  by (induction xs) auto

lemma clean_nodes_ok:
  assumes "clean_nodes nodes cleaned todo = Inr c" and "\<And>k n. map_of cleaned k = Some n \<Longrightarrow> node_ok nodes k n"
  shows "map_of c k = Some n \<Longrightarrow> node_ok nodes k n"
  using assms
proof (induction nodes cleaned todo rule: clean_nodes.induct)
  case (2 nodes cleaned k0 n0 ns)
  let ?n = "if nd_id n0 = [] then n0\<lparr>nd_id := k0\<rparr> else n0"
  have ok: "nd_kind ?n = ''gate'' \<and> nd_next ?n \<noteq> [] \<or> nd_kind ?n = ''action'' \<and> nd_next ?n = []"
    and found: "find (\<lambda>ch. map_of nodes ch = None) (nd_next ?n) = None"
    and rest: "clean_nodes nodes (AList.update (nd_id ?n) ?n cleaned) ns = Inr c"
    using 2(3) by (auto simp: Let_def split: if_splits option.splits)
  have "node_ok nodes (nd_id ?n) ?n"
    using ok found by (simp add: node_ok_def find_None_list_all)
  then have "\<And>j m. map_of (AList.update (nd_id ?n) ?n cleaned) j = Some m \<Longrightarrow> node_ok nodes j m"
    using 2(4) by (auto simp: update_conv' split: if_splits)
  then show ?case
    using 2(1) [OF refl] 2(2) ok found rest by auto
qed simp

lemma clean_nodes_dom:
  assumes "clean_nodes nodes cleaned todo = Inr c" and "well_keyed todo"
  shows "dom (map_of c) = dom (map_of cleaned) \<union> fst ` set todo"
  using assms
proof (induction nodes cleaned todo rule: clean_nodes.induct)
  case (2 nodes cleaned k0 n0 ns)
  let ?n = "if nd_id n0 = [] then n0\<lparr>nd_id := k0\<rparr> else n0"
  have "clean_nodes nodes (AList.update (nd_id ?n) ?n cleaned) ns = Inr c"
    "nd_kind ?n = ''gate'' \<or> nd_kind ?n = ''action''" "nd_kind ?n = ''action'' \<longrightarrow> nd_next ?n = []"
    "nd_kind ?n = ''gate'' \<longrightarrow> nd_next ?n \<noteq> []" "find (\<lambda>ch. map_of nodes ch = None) (nd_next ?n) = None"
    using 2(2) by (auto simp: Let_def split: if_splits option.splits)
  moreover have "nd_id ?n = k0"
    using 2(3) by (auto simp: well_keyed_def)
  moreover have "well_keyed ns"
    using 2(3) by (simp add: well_keyed_def)
  ultimately have "dom (map_of c) = dom (map_of (AList.update (nd_id ?n) ?n cleaned)) \<union> fst ` set ns"
    using 2(1) [OF refl] by auto
  with \<open>nd_id ?n = k0\<close> show ?case
    by (auto simp: update_conv')
qed simp

definition tree_ok :: "nodes \<Rightarrow> bool" where
  "tree_ok nodes \<longleftrightarrow> (\<forall>k n. map_of nodes k = Some n \<longrightarrow> node_ok nodes k n)"

lemma wk_append_Inr:
  "wk_append w p act n t = (w', None) \<longleftrightarrow> sint (wk_steps w + 1) \<le> max_steps (wk_meter w)
     \<and> w' = w\<lparr>wk_steps := wk_steps w + 1, wk_receipts := wk_receipts w @ [new_receipt (wk_id w) (wk_receipts w) p act n t]\<rparr>"
  by (auto simp: wk_append_def Let_def)

lemma open_workflow_Inr:
  assumes "open_workflow wid actor start nodes meter now = Inr w"
  shows "clean_nodes nodes [] nodes = Inr (wk_nodes w) \<and> wk_root w = start \<and> map_of (wk_nodes w) start \<noteq> None
    \<and> wk_actor w = actor \<and> wk_status w = StatusOpen \<and> wk_id w = wid \<and> wk_steps w = 1 \<and> wk_closed_at w = None
    \<and> wk_receipts w = [new_receipt wid [] actor ''open'' ''workflow opened'' now] \<and> 1 \<le> max_steps (wk_meter w)"
  using assms
  by (auto simp: open_workflow_def Let_def wk_append_def split: if_splits sum.splits)

lemma open_workflow_tree:
  assumes "open_workflow wid actor start nodes meter now = Inr w" and "well_keyed nodes"
  shows "tree_ok (wk_nodes w)" "start \<in> dom (map_of (wk_nodes w))"
proof -
  have c: "clean_nodes nodes [] nodes = Inr (wk_nodes w)"
    using open_workflow_Inr [OF assms(1)] by simp
  have "dom (map_of (wk_nodes w)) = dom (map_of nodes)"
    using clean_nodes_dom [OF c assms(2)] by (simp add: dom_map_of_conv_image_fst)
  then have "map_of (wk_nodes w) k = None \<longleftrightarrow> map_of nodes k = None" for k
    by (metis domIff)
  then show "tree_ok (wk_nodes w)"
    using clean_nodes_ok [OF c] by (simp add: tree_ok_def node_ok_def)
  show "start \<in> dom (map_of (wk_nodes w))"
    using open_workflow_Inr [OF assms(1)] by auto
qed

lemma find_SomeD: "find P xs = Some x \<Longrightarrow> x \<in> set xs \<and> P x"
  by (induction xs) (auto split: if_splits)

lemma next_node_child: "next_node nodes facts n \<noteq> [] \<Longrightarrow>
   next_node nodes facts n \<in> set (nd_next n) \<and> reqs_met (nd_require (node_at nodes (next_node nodes facts n))) facts"
  by (auto simp: next_node_def dest: find_SomeD split: option.splits)

lemma tree_next:
  assumes "tree_ok nodes" "map_of nodes k = Some n" "next_node nodes facts n \<noteq> []"
  shows "next_node nodes facts n \<in> dom (map_of nodes)"
  using next_node_child [OF assms(3)] assms(1,2) by (fastforce simp: tree_ok_def node_ok_def list_all_iff)

lemma tree_walk_errors:
  "tree_ok nodes \<Longrightarrow> k \<in> dom (map_of nodes) \<Longrightarrow> walk_plain nodes facts seen path k = Inl e \<Longrightarrow> e \<in> {ErrNoPath, ErrWalkLoop}"
proof (induction nodes facts seen path k rule: walk_plain.induct)
  case (1 nodes facts seen path k)
  then obtain n where n: "map_of nodes k = Some n"
    by auto
  show ?case
  proof (cases "k \<in> seen \<or> \<not> reqs_met (nd_require n) facts \<or> nd_kind n = ''action'' \<or> next_node nodes facts n = []")
    case True
    with 1(4) n show ?thesis
      by (auto simp: walk_plain.simps [of nodes facts seen path k] split: if_splits)
  next
    case False
    with 1(4) n have "walk_plain nodes facts (insert k seen) (path @ [k]) (next_node nodes facts n) = Inl e"
      by (simp add: walk_plain.simps [of nodes facts seen path k])
    with 1(1) [of n] False n 1(2) tree_next [OF 1(2) n] show ?thesis
      by blast
  qed
qed

text \<open>A tree in which every gate has a child that the facts open, and children lie below their parent.\<close>

definition descends :: "(string \<Rightarrow> nat) \<Rightarrow> nodes \<Rightarrow> bool" where
  "descends rank nodes \<longleftrightarrow> list_all (\<lambda>(k, n). list_all (\<lambda>ch. rank ch < rank k) (nd_next n)) nodes"

definition opens_somewhere :: "facts \<Rightarrow> nodes \<Rightarrow> bool" where
  "opens_somewhere facts nodes \<longleftrightarrow>
     list_all (\<lambda>(k, n). nd_kind n = ''gate'' \<longrightarrow> list_ex (facts_open nodes facts) (nd_next n)) nodes"

lemma first_open_exists: "list_ex (facts_open nodes facts) (nd_next n) \<Longrightarrow> \<exists>ch. first_open nodes facts n ch"
proof -
  assume "list_ex (facts_open nodes facts) (nd_next n)"
  then have "find (facts_open nodes facts) (nd_next n) \<noteq> None"
    by (auto simp: find_None_list_all list_ex_iff list_all_iff)
  then show ?thesis
    unfolding first_open_def find_first [symmetric] by blast
qed

lemma descending_route:
  assumes "tree_ok nodes" "descends rank nodes" "opens_somewhere facts nodes" "map_of nodes [] = None"
  shows "map_of nodes k = Some n \<Longrightarrow> facts_open nodes facts k \<Longrightarrow> \<exists>path act. route nodes facts k path act"
proof (induction "rank k" arbitrary: k n rule: less_induct)
  case less
  show ?case
  proof (cases "nd_kind n = ''action''")
    case True
    with less.prems show ?thesis
      by (blast intro: route.stop)
  next
    case False
    have ok: "node_ok nodes k n" "(k, n) \<in> set nodes"
      using assms(1) less.prems(1) map_of_SomeD by (auto simp: tree_ok_def)
    with False assms(2,3) have "list_ex (facts_open nodes facts) (nd_next n)" and below: "\<forall>c \<in> set (nd_next n). rank c < rank k"
      by (auto simp: node_ok_def opens_somewhere_def descends_def list_all_iff)
    then obtain ch where ch: "first_open nodes facts n ch" "ch \<in> set (nd_next n)" "facts_open nodes facts ch"
      using first_open_exists by (fastforce simp: first_open_def)
    with ok(1) obtain m where m: "map_of nodes ch = Some m"
      by (auto simp: node_ok_def list_all_iff)
    with below ch(2,3) obtain path act where "route nodes facts ch path act"
      using less.hyps by blast
    moreover have "ch \<noteq> []"
      using m assms(4) by auto
    ultimately show ?thesis
      using route.turn [OF less.prems False ch(1)] by blast
  qed
qed

subsection \<open>The workflow as a ledger machine\<close>

definition wk_counted :: "workflow \<Rightarrow> workflow" where
  "wk_counted w = w\<lparr>wk_steps := wk_steps w + 1\<rparr>"

lemma wk_append_err: "wk_append w p act n t = (w', Some e) \<Longrightarrow> w' = wk_counted w \<and> e = ErrDoS"
  by (auto simp: wk_append_def wk_counted_def Let_def split: if_splits)

interpretation wk_log: receipt_log wk_id wk_receipts wk_append
  by unfold_locales (auto simp: wk_append_Inr wk_counted_def dest: wk_append_err)

definition wk_terminal :: "workflow \<Rightarrow> bool" where
  "wk_terminal w \<longleftrightarrow> wk_status w = StatusExecuted"

lemma wk_execute_ok:
  assumes "wk_execute w p facts t = (w', None)"
  shows "p = wk_actor w \<and> wk_status w = StatusOpen \<and> (\<exists>fs path act. facts = Some fs \<and> walk (Some w) fs = Inr (path, act)
    \<and> sint (wk_steps w + 1) \<le> max_steps (wk_meter w)
    \<and> w' = w\<lparr>wk_steps := wk_steps w + 1, wk_receipts := wk_receipts w @ [new_receipt (wk_id w) (wk_receipts w) p
          ''execute'' (''path=['' @ join_with '' '' path @ ''] action='' @ act) t],
        wk_closed_at := Some t, wk_path := path, wk_action := act, wk_status := StatusExecuted\<rparr>)"
  using assms
  by (auto simp: wk_execute_def and_then_ok_iff wk_append_Inr split: if_splits option.splits sum.splits)

lemma wk_execute_error:
  "wk_execute w p facts t = (w', Some e) \<Longrightarrow> w' = w \<or> w' = wk_counted w \<and> wk_status w = StatusOpen"
  by (auto simp: wk_execute_def elim!: and_then_cases dest: wk_append_err split: if_splits option.splits sum.splits)

interpretation wk: refusing_machine wk_id wk_receipts wk_append wk_step wk_terminal "\<lambda>w. w"
proof unfold_locales
  show "log_grows (wk_id w) (wk_receipts w) (wk_receipts w') \<and> wk_id w' = wk_id w" if "wk_step w c = (w', r)" for w c w' r
    using that by (cases c; cases r) (auto dest!: wk_execute_ok wk_execute_error simp: wk_counted_def)
  show "w' = w \<and> wk_terminal w'" if "wk_terminal w" "wk_step w c = (w', r)" for w c w' r
    using that by (cases c; cases r) (auto dest!: wk_execute_ok wk_execute_error simp: wk_terminal_def)
  show "r \<noteq> None" if "wk_terminal w" "wk_step w c = (w', r)" for w c w' r
    using that by (cases c; cases r) (auto dest!: wk_execute_ok simp: wk_terminal_def)
qed

lemma run_execution:
  assumes "wk_status w = StatusOpen" and "w' = run wk_step w cs"
  shows "w' = w\<lparr>wk_steps := wk_steps w'\<rparr>
    \<or> (\<exists>fs t. ExecuteWith (wk_actor w) (Some fs) t \<in> set cs \<and> wk_status w' = StatusExecuted \<and> wk_closed_at w' = Some t
        \<and> wk_nodes w' = wk_nodes w \<and> route (wk_nodes w) fs (wk_root w) (wk_path w') (wk_action w')
        \<and> wk_receipts w' = wk_receipts w @ [new_receipt (wk_id w) (wk_receipts w) (wk_actor w) ''execute''
            (''path=['' @ join_with '' '' (wk_path w') @ ''] action='' @ wk_action w') t])"
  using assms
proof (induction cs arbitrary: w)
  case (Cons c cs)
  obtain p facts t where c: "c = ExecuteWith p facts t"
    by (cases c)
  obtain u r where u: "wk_execute w p facts t = (u, r)"
    by fastforce
  show ?case
  proof (cases r)
    case None
    with u wk_execute_ok [of w p facts t u] obtain fs path act where
      facts: "p = wk_actor w" "facts = Some fs" "walk (Some w) fs = Inr (path, act)" and
      eq: "u = w\<lparr>wk_steps := wk_steps w + 1, wk_receipts := wk_receipts w @ [new_receipt (wk_id w) (wk_receipts w) p
          ''execute'' (''path=['' @ join_with '' '' path @ ''] action='' @ act) t],
        wk_closed_at := Some t, wk_path := path, wk_action := act, wk_status := StatusExecuted\<rparr>"
      by blast
    then have "run wk_step u cs = u"
      using wk.run_closed [of u cs] by (simp add: wk_terminal_def)
    with u c Cons.prems(2) None have "w' = u"
      by simp
    with facts eq c show ?thesis
      by (simp add: walk_iff) blast
  next
    case (Some e)
    with u wk_execute_error [of w p facts t u e] have same: "u = w \<or> u = wk_counted w"
      by auto
    then have "wk_status u = StatusOpen" "w' = run wk_step u cs"
      using Cons.prems u c by (auto simp: wk_counted_def)
    from Cons.IH [OF this] same c show ?thesis
      by (auto simp: wk_counted_def)
  qed
qed simp

subsection \<open>Properties of workflows\<close>

definition ex_nodes :: nodes where
  "ex_nodes = [(''r'', \<lparr>nd_id = ''r'', nd_kind = ''gate'', nd_require = [], nd_next = [''a'', ''b'']\<rparr>),
     (''a'', \<lparr>nd_id = ''a'', nd_kind = ''action'', nd_require = [''hot''], nd_next = []\<rparr>),
     (''b'', \<lparr>nd_id = ''b'', nd_kind = ''action'', nd_require = [], nd_next = []\<rparr>)]"

definition looping_nodes :: nodes where
  "looping_nodes = [(''r'', \<lparr>nd_id = ''r'', nd_kind = ''gate'', nd_require = [], nd_next = [''r'']\<rparr>)]"

text \<open>
  C19. \<open>Walk\<close> computes the documented walk: it returns a path and an action exactly when they are the route that starts at
  the root and at every gate takes the first child in order whose required facts are all true (\<open>facts_open\<close>, \<open>first_open\<close>), with
  a nonempty name, up to an action whose own facts are true. So the visited set never
  rejects a route, the result does not depend on anything but the tree and the facts, and the path has no repetition.
\<close>

theorem walk_follows_tree:
  "(walk (Some w) facts = Inr (path, act) \<longleftrightarrow> route (wk_nodes w) facts (wk_root w) path act)
   \<and> (walk (Some w) facts = Inr (path, act) \<longrightarrow> distinct path)"
  using walk_iff route_distinct by blast

theorem walk_follows_tree_witness:
  "\<exists>w. wk_nodes w = ex_nodes \<and> walk (Some w) Map.empty = Inr ([''r'', ''b''], ''b'')
     \<and> walk (Some w) [''hot'' \<mapsto> True] = Inr ([''r'', ''a''], ''a'')
     \<and> route ex_nodes Map.empty ''r'' [''r'', ''b''] ''b'' \<and> \<not> route ex_nodes [''hot'' \<mapsto> True] ''r'' [''r'', ''b''] ''b''"
proof -
  obtain w where w: "open_workflow ''w-1'' ''ada'' ''r'' ex_nodes (plain_meter 4) 10 = Inr w" "wk_nodes w = ex_nodes"
      "wk_root w = ''r''"
    by (simp add: open_workflow_def Let_def wk_append_def ex_nodes_def)
  then have "walk (Some w) Map.empty = Inr ([''r'', ''b''], ''b'')" "walk (Some w) [''hot'' \<mapsto> True] = Inr ([''r'', ''a''], ''a'')"
    by (simp_all add: walk_def walk_from.simps next_node_def node_at_def reqs_met_def ex_nodes_def Let_def)
  with w(2,3) walk_follows_tree [of w Map.empty "[''r'', ''b'']" "''b''"]
    walk_follows_tree [of w "[''hot'' \<mapsto> True]" "[''r'', ''b'']" "''b''"] show ?thesis
    by (intro exI [of _ w]) auto
qed

text \<open>
  The length check in the loop of \<open>Walk\<close> is never the reason it stops: the walk without it is the same function, on every
  tree and all facts.
\<close>

theorem walk_length_check_dead:
  "walk (Some w) facts = (if wk_nodes w = [] then Inl ErrBadTree else walk_plain (wk_nodes w) facts {} [] (wk_root w))"
  by (simp add: walk_def walk_from_plain)

text \<open>
  An opened workflow whose node ids are their keys has a sound tree: \<open>Walk\<close> then never reports a broken tree, only
  \<open>ErrNoPath\<close> or \<open>ErrWalkLoop\<close>.
\<close>

theorem opened_workflow_walks:
  assumes "open_workflow wid actor start nodes meter now = Inr w" and "well_keyed nodes"
    and "walk (Some w) facts = Inl e"
  shows "e = ErrNoPath \<or> e = ErrWalkLoop"
proof -
  have "wk_nodes w \<noteq> []" "wk_root w = start"
    using open_workflow_Inr [OF assms(1)] by auto
  then show ?thesis
    using tree_walk_errors [OF open_workflow_tree [OF assms(1,2)], of facts "{}" "[]" e] assms(3)
    by (simp add: walk_def walk_from_plain)
qed

theorem opened_workflow_walks_witness:
  "well_keyed looping_nodes
   \<and> (\<exists>w. open_workflow ''w-2'' ''ada'' ''r'' looping_nodes (plain_meter 4) 10 = Inr w
        \<and> walk (Some w) Map.empty = Inl ErrWalkLoop)"
proof -
  have keyed: "well_keyed looping_nodes"
    by (simp add: well_keyed_def looping_nodes_def)
  obtain w where w: "open_workflow ''w-2'' ''ada'' ''r'' looping_nodes (plain_meter 4) 10 = Inr w"
    and "wk_nodes w = looping_nodes" "wk_root w = ''r''"
    by (simp add: open_workflow_def Let_def wk_append_def looping_nodes_def)
  then have loop: "walk (Some w) Map.empty = Inl ErrWalkLoop"
    by (simp add: walk_def walk_from.simps next_node_def node_at_def reqs_met_def Let_def looping_nodes_def)
  from opened_workflow_walks [OF w keyed loop] w keyed loop show ?thesis
    by blast
qed

text \<open>The nodes a route visits: gates, each with its successor as the first open child, and an action at the end.\<close>

definition gate_to :: "nodes \<Rightarrow> facts \<Rightarrow> string \<Rightarrow> string \<Rightarrow> bool" where
  "gate_to nodes facts k ch \<longleftrightarrow> (\<exists>n. map_of nodes k = Some n \<and> nd_kind n = ''gate'' \<and> first_open nodes facts n ch)"

lemma route_visits:
  "route nodes facts k path act \<Longrightarrow> tree_ok nodes \<Longrightarrow>
   path \<noteq> [] \<and> hd path = k \<and> successively (gate_to nodes facts) path \<and> list_all (facts_open nodes facts) path
   \<and> (\<exists>n. map_of nodes (last path) = Some n \<and> nd_kind n = ''action'' \<and> nd_id n = act)"
proof (induction rule: route.induct)
  case (turn k n ch path act)
  then have "nd_kind n = ''gate''"
    by (auto simp: tree_ok_def node_ok_def)
  with turn have "gate_to nodes facts k ch"
    by (auto simp: gate_to_def)
  with turn show ?case
    by (cases path) auto
qed auto

text \<open>
  C31. \<open>Walk\<close> reaches an action: on a tree that \<open>OpenWorkflow\<close> accepted, whose map has every node under its own ID, none
  of them with the empty ID, whose children lie below their parents (\<open>descends\<close>, for some rank), with facts that meet the
  requirements of the root and of some child of every gate, it returns a path that starts at the root, goes from gate to
  gate by the first open child, meets the requirements of every node it visits, and ends in a node of kind \<open>action\<close>,
  whose ID is the action it returns.
\<close>

theorem walk_reaches_action:
  assumes "open_workflow wid actor start nodes meter now = Inr w" and "well_keyed nodes" and "map_of (wk_nodes w) [] = None"
    and "descends rank (wk_nodes w)" and "opens_somewhere facts (wk_nodes w)" and "facts_open (wk_nodes w) facts start"
  shows "\<exists>path act n. walk (Some w) facts = Inr (path, act) \<and> path \<noteq> [] \<and> hd path = start
    \<and> successively (gate_to (wk_nodes w) facts) path \<and> list_all (facts_open (wk_nodes w) facts) path
    \<and> map_of (wk_nodes w) (last path) = Some n \<and> nd_kind n = ''action'' \<and> nd_id n = act"
proof -
  note tree = open_workflow_tree [OF assms(1,2)]
  obtain n where n: "map_of (wk_nodes w) start = Some n"
    using tree(2) by auto
  obtain path act where r: "route (wk_nodes w) facts start path act"
    using descending_route [OF tree(1) assms(4,5,3) n assms(6)] by blast
  then have "walk (Some w) facts = Inr (path, act)"
    using open_workflow_Inr [OF assms(1)] by (simp add: walk_iff)
  with route_visits [OF r tree(1)] show ?thesis
    by blast
qed

theorem walk_reaches_action_witness:
  "\<exists>w n. open_workflow ''w-1'' ''ada'' ''r'' ex_nodes (plain_meter 4) 10 = Inr w
     \<and> walk (Some w) Map.empty = Inr ([''r'', ''b''], ''b'') \<and> map_of (wk_nodes w) ''b'' = Some n \<and> nd_kind n = ''action''"
proof -
  obtain w where w: "open_workflow ''w-1'' ''ada'' ''r'' ex_nodes (plain_meter 4) 10 = Inr w" "wk_nodes w = ex_nodes"
      "wk_root w = ''r''"
    by (simp add: open_workflow_def Let_def wk_append_def ex_nodes_def)
  have "well_keyed ex_nodes" "map_of ex_nodes [] = None" "descends (\<lambda>k. if k = ''r'' then 1 else 0) ex_nodes"
    "opens_somewhere Map.empty ex_nodes" "facts_open ex_nodes Map.empty ''r''"
    by (simp_all add: well_keyed_def descends_def opens_somewhere_def facts_open_def ex_nodes_def)
  with walk_reaches_action [OF w(1), where facts = Map.empty] w obtain path act n where
    r: "walk (Some w) Map.empty = Inr (path, act)" "map_of ex_nodes (last path) = Some n" "nd_kind n = ''action''"
    by metis
  moreover have "walk (Some w) Map.empty = Inr ([''r'', ''b''], ''b'')"
    using w by (simp add: walk_def walk_from.simps next_node_def node_at_def reqs_met_def ex_nodes_def Let_def)
  ultimately show ?thesis
    using w by auto
qed

text \<open>
  The keys of the tree are not checked against the node ids: a map whose entry under \<open>b\<close> carries the id \<open>c\<close> opens
  without error, and the walk then reports a broken tree, because nodes are stored by id and children looked up by name.
\<close>

theorem mismatched_id_breaks_walk:
  "case open_workflow ''w-3'' ''ada'' ''a'' [(''a'', \<lparr>nd_id = ''a'', nd_kind = ''gate'', nd_require = [], nd_next = [''b'']\<rparr>),
       (''b'', \<lparr>nd_id = ''c'', nd_kind = ''action'', nd_require = [''hot''], nd_next = []\<rparr>)] (plain_meter 4) 10 of
     Inl e \<Rightarrow> False
   | Inr w \<Rightarrow> walk (Some w) Map.empty = Inl (Wrapf ''%w: missing node %s'' [''b''] ErrBadTree)"
  by (simp add: open_workflow_def Let_def wk_append_def walk_def walk_from.simps next_node_def node_at_def reqs_met_def
      zero_node_def)

text \<open>
  A workflow runs once and records what it ran: after any calls it is still as opened but for the private step counter,
  or it was executed by its actor with facts whose route is the recorded path and action, in a second receipt that
  quotes them, and no later call changes it. The receipts verify in both cases.
\<close>

theorem workflow_execution_recorded:
  assumes "open_workflow wid actor start nodes meter now = Inr w0" and "w = run wk_step w0 cs"
  shows "wk_verify_receipts w = None \<and>
    (w = w0\<lparr>wk_steps := wk_steps w\<rparr>
     \<or> (\<exists>fs t. ExecuteWith actor (Some fs) t \<in> set cs \<and> route (wk_nodes w0) fs start (wk_path w) (wk_action w)
          \<and> length (wk_receipts w) = 2 \<and> wk_closed_at w = Some t
          \<and> r_note (last (wk_receipts w)) = ''path=['' @ join_with '' '' (wk_path w) @ ''] action='' @ wk_action w
          \<and> (\<forall>later. run wk_step w later = w)))"
proof -
  note w0 = open_workflow_Inr [OF assms(1)]
  have "wk_verify_receipts w0 = None"
    using w0 verify_receipts_new [of wid "[]"] by (simp add: wk_verify_receipts_def)
  then have "wk_verify_receipts w = None"
    unfolding assms(2) wk_verify_receipts_def by (rule wk.run_verifies)
  moreover have "run wk_step w later = w" if "wk_status w = StatusExecuted" for later
    using wk.run_closed [of w later] that by (simp add: wk_terminal_def)
  ultimately show ?thesis
    using run_execution [OF _ assms(2)] w0 by fastforce
qed

theorem workflow_execution_recorded_witness:
  "\<exists>w. open_workflow ''w-1'' ''ada'' ''r'' ex_nodes (plain_meter 4) 10 = Inr w
     \<and> wk_verify_receipts (run wk_step w [ExecuteWith ''ada'' None 11, ExecuteWith ''ada'' (Some Map.empty) 12]) = None"
proof -
  obtain w where w: "open_workflow ''w-1'' ''ada'' ''r'' ex_nodes (plain_meter 4) 10 = Inr w"
    by (simp add: open_workflow_def Let_def wk_append_def ex_nodes_def)
  from workflow_execution_recorded [OF w refl, of "[ExecuteWith ''ada'' None 11, ExecuteWith ''ada'' (Some Map.empty) 12]"] w
  show ?thesis
    by blast
qed

end
