(* ===== verification/Merkle.thy ===== *)
theory Merkle
  imports Go_Std
begin

text \<open>
  Hash trees over lists. Both batch formats of the program fold a list of leaves pairwise, an odd last
  node being paired with itself; they differ in the hash, in how two nodes are encoded before hashing and
  in what a leaf is. The tree \<open>build_tree\<close> makes the pairing explicit, \<open>tree_value\<close> is the root. Two
  interfaces state what a format must promise (\<open>hash_tree\<close>, and \<open>tagged_hash_tree\<close> for leaves that are
  hashed in a domain of their own), and what follows: equal roots come from equal lists, or two different
  inputs that were hashed on the way have the same hash. The inputs are listed (\<open>tree_inputs\<close>), so that
  the second case exhibits a collision.
\<close>

datatype 'l mtree = Tip 'l | Fork "'l mtree" "'l mtree"

fun tree_leaves :: "'l mtree \<Rightarrow> 'l list" where
  "tree_leaves (Tip x) = [x]"
| "tree_leaves (Fork l r) = tree_leaves l @ tree_leaves r"

fun tree_value :: "(bytes \<Rightarrow> bytes) \<Rightarrow> (bytes \<Rightarrow> bytes \<Rightarrow> bytes) \<Rightarrow> ('l \<Rightarrow> bytes) \<Rightarrow> 'l mtree \<Rightarrow> bytes" where
  "tree_value H enc lv (Tip x) = lv x"
| "tree_value H enc lv (Fork l r) = H (enc (tree_value H enc lv l) (tree_value H enc lv r))"

fun tree_inputs :: "(bytes \<Rightarrow> bytes) \<Rightarrow> (bytes \<Rightarrow> bytes \<Rightarrow> bytes) \<Rightarrow> ('l \<Rightarrow> bytes) \<Rightarrow> 'l mtree \<Rightarrow> bytes list" where
  "tree_inputs H enc lv (Tip x) = []"
| "tree_inputs H enc lv (Fork l r) =
    enc (tree_value H enc lv l) (tree_value H enc lv r) # tree_inputs H enc lv l @ tree_inputs H enc lv r"

fun pair_trees :: "'l mtree list \<Rightarrow> 'l mtree list" where
  "pair_trees (t # u # ts) = Fork t u # pair_trees ts"
| "pair_trees [t] = [Fork t t]"
| "pair_trees [] = []"

lemma length_pair_trees [simp]: "length (pair_trees ts) = (length ts + 1) div 2"
  by (induction ts rule: pair_trees.induct) simp_all

fun build_tree :: "'l mtree list \<Rightarrow> 'l mtree" where
  "build_tree ts = (if length ts \<le> 1 then hd ts else build_tree (pair_trees ts))"

declare build_tree.simps [simp del]

definition collide :: "(bytes \<Rightarrow> bytes) \<Rightarrow> bytes list \<Rightarrow> bytes list \<Rightarrow> bool" where
  "collide H xs ys \<longleftrightarrow> list_ex (\<lambda>x. list_ex (\<lambda>y. x \<noteq> y \<and> H x = H y) ys) xs"

lemma collide_iff: "collide H xs ys \<longleftrightarrow> (\<exists>x \<in> set xs. \<exists>y \<in> set ys. x \<noteq> y \<and> H x = H y)"
  by (auto simp: collide_def list_ex_iff)

lemma collide_mono: "collide H xs ys \<Longrightarrow> set xs \<subseteq> set xs' \<Longrightarrow> set ys \<subseteq> set ys' \<Longrightarrow> collide H xs' ys'"
  unfolding collide_iff by blast

subsection \<open>The leaves of a tree\<close>

lemma tree_leaves_ne [simp]: "tree_leaves t \<noteq> []"
  by (induction t) simp_all

lemma pair_trees_leaves:
  "\<exists>ex. concat (map tree_leaves (pair_trees ts)) = concat (map tree_leaves ts) @ ex \<and>
    set ex \<subseteq> set (concat (map tree_leaves ts))"
  by (induction ts rule: pair_trees.induct) auto

text \<open>The leaves are those of the list, in order, followed by repetitions.\<close>

lemma build_tree_leaves:
  assumes "ts \<noteq> []"
  shows "\<exists>ex. tree_leaves (build_tree ts) = concat (map tree_leaves ts) @ ex \<and>
    set ex \<subseteq> set (concat (map tree_leaves ts))"
  using assms
proof (induction ts rule: build_tree.induct)
  case (1 ts)
  show ?case
  proof (cases "length ts \<le> 1")
    case True
    then obtain t where "ts = [t]" using 1 by (cases ts) auto
    then show ?thesis by (simp add: build_tree.simps)
  next
    case False
    then have "pair_trees ts \<noteq> []" by (auto simp flip: length_0_conv)
    then obtain ex where ex: "tree_leaves (build_tree (pair_trees ts)) = concat (map tree_leaves (pair_trees ts)) @ ex"
      "set ex \<subseteq> set (concat (map tree_leaves (pair_trees ts)))"
      using "1.IH" False by blast
    obtain ex' where ex': "concat (map tree_leaves (pair_trees ts)) = concat (map tree_leaves ts) @ ex'"
      "set ex' \<subseteq> set (concat (map tree_leaves ts))"
      using pair_trees_leaves [of ts] by blast
    have "tree_leaves (build_tree ts) = concat (map tree_leaves ts) @ (ex' @ ex)"
      using False ex(1) ex'(1) by (simp add: build_tree.simps [of ts])
    moreover have "set (ex' @ ex) \<subseteq> set (concat (map tree_leaves ts))"
      using ex(2) ex'(2) unfolding ex'(1) set_append by blast
    ultimately show ?thesis by blast
  qed
qed

corollary build_tips_leaves:
  assumes "xs \<noteq> []"
  obtains ex where "tree_leaves (build_tree (map Tip xs)) = xs @ ex" "set ex \<subseteq> set xs"
proof -
  have c: "concat (map tree_leaves (map Tip xs)) = xs" by (induction xs) simp_all
  from assms build_tree_leaves [of "map Tip xs", unfolded c] that show thesis by auto
qed

text \<open>Lists of the same length give trees of the same shape.\<close>

abbreviation tree_shape :: "'l mtree \<Rightarrow> unit mtree" where
  "tree_shape \<equiv> map_mtree (\<lambda>_. ())"

lemma pair_trees_map: "pair_trees (map (map_mtree f) ts) = map (map_mtree f) (pair_trees ts)"
  by (induction ts rule: pair_trees.induct) simp_all

lemma build_tree_map: "ts \<noteq> [] \<Longrightarrow> map_mtree f (build_tree ts) = build_tree (map (map_mtree f) ts)"
proof (induction ts rule: build_tree.induct)
  case (1 ts)
  show ?case
  proof (cases "length ts \<le> 1")
    case True
    with 1 show ?thesis by (simp add: build_tree.simps hd_map)
  next
    case False
    then have "pair_trees ts \<noteq> []" by (auto simp flip: length_0_conv)
    with 1 False show ?thesis
      by (simp add: build_tree.simps [of ts] build_tree.simps [of "map (map_mtree f) ts"] pair_trees_map)
  qed
qed

lemma build_tips_shape:
  assumes "length xs = length ys" "xs \<noteq> []"
  shows "tree_shape (build_tree (map Tip xs)) = tree_shape (build_tree (map Tip ys))"
proof -
  have "map tree_shape (map Tip xs) = map tree_shape (map Tip ys)"
    using assms(1) by (simp add: list_eq_iff_nth_eq)
  moreover have "map Tip xs \<noteq> []" "map Tip ys \<noteq> []" using assms by auto
  ultimately show ?thesis
    using build_tree_map by (metis (no_types))
qed

subsection \<open>Formats of trees\<close>

locale hash_tree =
  fixes H :: "bytes \<Rightarrow> bytes" and enc :: "bytes \<Rightarrow> bytes \<Rightarrow> bytes" and lv :: "'l \<Rightarrow> bytes" and good :: "'l \<Rightarrow> bool"
  assumes enc_inj: "length a = 32 \<Longrightarrow> length b = 32 \<Longrightarrow> length c = 32 \<Longrightarrow> length d = 32 \<Longrightarrow>
      enc a b = enc c d \<Longrightarrow> a = c \<and> b = d"
    and length_H: "length (H m) = 32"
    and length_lv: "good x \<Longrightarrow> length (lv x) = 32"
begin

lemma length_value: "(\<forall>x \<in> set (tree_leaves t). good x) \<Longrightarrow> length (tree_value H enc lv t) = 32"
  by (cases t) (simp_all add: length_H length_lv)

lemma same_shape_binds:
  assumes "tree_value H enc lv t = tree_value H enc lv u" "tree_shape t = tree_shape u"
    and "\<forall>x \<in> set (tree_leaves t). good x" "\<forall>x \<in> set (tree_leaves u). good x"
  shows "map lv (tree_leaves t) = map lv (tree_leaves u) \<or> collide H (tree_inputs H enc lv t) (tree_inputs H enc lv u)"
  using assms
proof (induction t arbitrary: u)
  case (Tip x)
  then show ?case by (cases u) auto
next
  case (Fork l r)
  then obtain l' r' where u: "u = Fork l' r'" by (cases u) auto
  let ?v = "tree_value H enc lv"
  show ?case
  proof (cases "enc (?v l) (?v r) = enc (?v l') (?v r')")
    case True
    then have "?v l = ?v l'" "?v r = ?v r'"
      using enc_inj [OF length_value length_value length_value length_value True] Fork.prems(3, 4) u by simp_all
    then have "map lv (tree_leaves l) = map lv (tree_leaves l') \<or> collide H (tree_inputs H enc lv l) (tree_inputs H enc lv l')"
      "map lv (tree_leaves r) = map lv (tree_leaves r') \<or> collide H (tree_inputs H enc lv r) (tree_inputs H enc lv r')"
      using Fork u by simp_all
    then show ?thesis
      using u by (auto simp: collide_iff)
  next
    case False
    then show ?thesis using Fork.prems(1) u by (auto simp: collide_iff)
  qed
qed

theorem same_length_binds:
  assumes "tree_value H enc lv (build_tree (map Tip xs)) = tree_value H enc lv (build_tree (map Tip ys))"
    and "length xs = length ys" "xs \<noteq> []" "\<forall>x \<in> set xs. good x" "\<forall>y \<in> set ys. good y"
  shows "map lv xs = map lv ys \<or>
    collide H (tree_inputs H enc lv (build_tree (map Tip xs))) (tree_inputs H enc lv (build_tree (map Tip ys)))"
proof -
  obtain ex where x: "tree_leaves (build_tree (map Tip xs)) = xs @ ex" "set ex \<subseteq> set xs"
    using build_tips_leaves assms(3) by blast
  have "ys \<noteq> []" using assms(2, 3) by auto
  then obtain ey where y: "tree_leaves (build_tree (map Tip ys)) = ys @ ey" "set ey \<subseteq> set ys"
    using build_tips_leaves by blast
  have "\<forall>x \<in> set (xs @ ex). good x" "\<forall>y \<in> set (ys @ ey). good y"
    using x(2) y(2) assms(4, 5) by auto
  then have "map lv (xs @ ex) = map lv (ys @ ey) \<or>
      collide H (tree_inputs H enc lv (build_tree (map Tip xs))) (tree_inputs H enc lv (build_tree (map Tip ys)))"
    using same_shape_binds [OF assms(1) build_tips_shape [OF assms(2, 3)]] unfolding x(1) y(1) by blast
  moreover have "map lv (xs @ ex) = map lv (ys @ ey) \<Longrightarrow> map lv xs = map lv ys"
    using assms(2) by simp
  ultimately show ?thesis by blast
qed

end

locale tagged_hash_tree = hash_tree H enc lv good
  for H :: "bytes \<Rightarrow> bytes" and enc :: "bytes \<Rightarrow> bytes \<Rightarrow> bytes" and lv :: "'l \<Rightarrow> bytes" and good :: "'l \<Rightarrow> bool" +
  fixes lenc :: "'l \<Rightarrow> bytes"
  assumes lv_hash: "lv x = H (lenc x)"
    and lenc_tag: "length a = 32 \<Longrightarrow> length b = 32 \<Longrightarrow> lenc x \<noteq> enc a b"
    and lenc_inj: "good x \<Longrightarrow> good y \<Longrightarrow> lenc x = lenc y \<Longrightarrow> x = y"
begin

abbreviation all_inputs :: "'l mtree \<Rightarrow> bytes list" where
  "all_inputs t \<equiv> tree_inputs H enc lv t @ map lenc (tree_leaves t)"

lemma value_binds:
  assumes "tree_value H enc lv t = tree_value H enc lv u"
    and "\<forall>x \<in> set (tree_leaves t). good x" "\<forall>x \<in> set (tree_leaves u). good x"
  shows "t = u \<or> collide H (all_inputs t) (all_inputs u)"
  using assms
proof (induction t arbitrary: u)
  case (Tip x)
  show ?case
  proof (cases u)
    case (Tip y)
    with Tip.prems show ?thesis using lenc_inj by (auto simp: collide_iff lv_hash [of x] lv_hash [of y])
  next
    case (Fork l r)
    then have "lenc x \<noteq> enc (tree_value H enc lv l) (tree_value H enc lv r)"
      using Tip.prems by (intro lenc_tag length_value) auto
    with Fork Tip.prems(1) show ?thesis by (simp add: collide_iff lv_hash [of x])
  qed
next
  case (Fork l r)
  let ?v = "tree_value H enc lv"
  show ?case
  proof (cases u)
    case (Tip y)
    then have "lenc y \<noteq> enc (?v l) (?v r)"
      using Fork.prems by (intro lenc_tag length_value) auto
    with Fork.prems(1) Tip show ?thesis by (auto simp: collide_iff lv_hash [of y])
  next
    case u: (Fork l' r')
    show ?thesis
    proof (cases "enc (?v l) (?v r) = enc (?v l') (?v r')")
      case True
      then have "?v l = ?v l'" "?v r = ?v r'"
        using enc_inj [OF length_value length_value length_value length_value True] Fork.prems(2, 3) u by simp_all
      then have "l = l' \<or> collide H (all_inputs l) (all_inputs l')" "r = r' \<or> collide H (all_inputs r) (all_inputs r')"
        using Fork u by simp_all
      then show ?thesis using u by (auto simp: collide_iff)
    next
      case False
      then show ?thesis using Fork.prems(1) u by (auto simp: collide_iff)
    qed
  qed
qed

theorem distinct_binds:
  assumes "tree_value H enc lv (build_tree (map Tip xs)) = tree_value H enc lv (build_tree (map Tip ys))"
    and "distinct xs" "distinct ys" "xs \<noteq> []" "ys \<noteq> []" "\<forall>x \<in> set xs. good x" "\<forall>y \<in> set ys. good y"
  shows "xs = ys \<or> collide H (all_inputs (build_tree (map Tip xs))) (all_inputs (build_tree (map Tip ys)))"
proof -
  obtain ex where x: "tree_leaves (build_tree (map Tip xs)) = xs @ ex" "set ex \<subseteq> set xs"
    using build_tips_leaves assms(4) by blast
  obtain ey where y: "tree_leaves (build_tree (map Tip ys)) = ys @ ey" "set ey \<subseteq> set ys"
    using build_tips_leaves assms(5) by blast
  have prefix: "vs = []" if eq: "vs @ vx = ux" and d: "distinct (us @ vs)" and "set ux \<subseteq> set us"
    for us vs vx ux :: "'l list"
  proof -
    have "set vs \<subseteq> set us" using eq that(3) by auto
    with d show ?thesis by (cases vs) auto
  qed
  have "xs = ys" if e: "xs @ ex = ys @ ey"
  proof -
    from e consider us where "ys @ us = xs" "us @ ex = ey" | us where "xs @ us = ys" "us @ ey = ex"
      unfolding append_eq_append_conv2 by metis
    then show ?thesis
    proof cases
      case (1 us)
      then have "us = []" using prefix [of us ex ey ys] assms(2) y(2) by simp
      with 1 show ?thesis by simp
    next
      case (2 us)
      then have "us = []" using prefix [of us ey ex xs] assms(3) x(2) by simp
      with 2 show ?thesis by simp
    qed
  qed
  moreover have "\<forall>x \<in> set (xs @ ex). good x" "\<forall>y \<in> set (ys @ ey). good y"
    using x(2) y(2) assms(6, 7) by auto
  ultimately show ?thesis
    using value_binds [OF assms(1)] x(1) y(1) by metis
qed

end

end
