(* ===== verification/Json_Text.thy ===== *)
theory Json_Text
  imports Go_Json
begin

text \<open>
  The text \<open>json.Marshal\<close> writes: strings quoted with the escapes of \<open>encoding/json\<close> (HTML escaping on,
  the default), and integers. The components hash and sign such texts, so what matters of them is that a
  text determines the value: \<open>json_quote\<close> is read back rune by rune by \<open>unquote_one\<close>, and two strings of
  valid UTF-8 with the same text are equal. Invalid bytes are all written \<open>\ufffd\<close>. The file also holds the
  facts on \<open>encoding/hex\<close> that the components share.
\<close>

subsection \<open>Hexadecimal digests\<close>

lemma unhex_hex_digit: "d < 16 \<Longrightarrow> unhex_digit (hex_digit d) = Some d"
  by (auto simp: hex_digit_def unhex_digit_def)

lemma hex_decode_encode [simp]: "hex_decode (hex_encode bs) = Some bs"
proof (induction bs)
  case (Cons b bs)
  have "unat b < 256" using unsigned_less [of b, where 'a = nat] by simp
  then have "unat b div 16 < 16" "unat b mod 16 < 16" by auto
  moreover have "word_of_nat (16 * (unat b div 16) + unat b mod 16) = b" by simp
  ultimately show ?case
    using Cons by (simp add: hex_encode_def hex_byte_def unhex_hex_digit)
qed (simp add: hex_encode_def)

lemma hex_encode_inj [simp]: "hex_encode bs = hex_encode cs \<longleftrightarrow> bs = cs"
  by (metis hex_decode_encode option.inject)

subsection \<open>Runes\<close>

text \<open>A string as the sequence of its UTF-8 sequences and of the bytes that start none.\<close>

datatype rune = Rune string | BadByte

function runes :: "string \<Rightarrow> rune list" where
  "runes s =
     (if s = [] then []
      else let n = rune_length (map char_code s)
           in if n = 0 then BadByte # runes (drop 1 s) else Rune (take n s) # runes (drop n s))"
  by pat_completeness auto
termination
  by (relation "measure length") auto

declare runes.simps [simp del]

lemma runes_Nil [simp]: "runes [] = []"
  by (simp add: runes.simps)

text \<open>\<open>utf8.ValidString\<close>.\<close>

definition utf8_valid :: "string \<Rightarrow> bool" where
  "utf8_valid s \<longleftrightarrow> BadByte \<notin> set (runes s)"

fun rune_text :: "rune \<Rightarrow> string" where
  "rune_text (Rune u) = u"
| "rune_text BadByte = [CHR 0xEF, CHR 0xBF, CHR 0xBD]"

lemma json_string_runes: "json_string s = concat (map rune_text (runes s))"
  by (induction s rule: runes.induct) (simp add: runes.simps json_string.simps Let_def)

lemma runes_concat: "utf8_valid s \<Longrightarrow> concat (map rune_text (runes s)) = s"
proof (induction s rule: runes.induct)
  case (1 s)
  show ?case
  proof (cases "s = []")
    case False
    let ?n = "rune_length (map char_code s)"
    have "?n \<noteq> 0" using "1.prems" False by (auto simp: utf8_valid_def runes.simps [of s] Let_def split: if_splits)
    moreover from this have "utf8_valid (drop ?n s)"
      using "1.prems" False by (auto simp: utf8_valid_def runes.simps [of s] Let_def)
    ultimately show ?thesis
      using "1.IH"(2) False by (simp add: runes.simps [of s] Let_def)
  qed simp
qed

lemma runes_inj: "utf8_valid s \<Longrightarrow> utf8_valid t \<Longrightarrow> runes s = runes t \<Longrightarrow> s = t"
  by (metis runes_concat)

lemma rune_length_le: "rune_length xs \<le> length xs"
  by (cases xs rule: rune_length.cases) (auto split: list.splits)

lemma rune_length_prefix:
  assumes "0 < rune_length xs"
  shows "rune_length (take (rune_length xs) xs @ ys) = rune_length xs"
proof (cases xs)
  case (Cons a bs)
  with assms show ?thesis
    by (auto split: list.splits if_splits)
qed (use assms in simp)

definition rune_ok :: "rune \<Rightarrow> bool" where
  "rune_ok r = (case r of BadByte \<Rightarrow> True
    | Rune u \<Rightarrow> u \<noteq> [] \<and> (\<forall>ys. rune_length (map char_code u @ ys) = length u))"

lemma runes_ok: "r \<in> set (runes s) \<Longrightarrow> rune_ok r"
proof (induction s rule: runes.induct)
  case (1 s)
  let ?n = "rune_length (map char_code s)"
  have "rune_ok (Rune (take ?n s))" if "0 < ?n"
    using that rune_length_prefix [OF that] rune_length_le [of "map char_code s"]
    by (auto simp: rune_ok_def take_map)
  with 1 show ?case
    by (auto simp: runes.simps [of s] rune_ok_def Let_def split: if_splits)
qed

lemma runes_ascii: "\<forall>c \<in> set s. char_code c < 0x80 \<Longrightarrow> runes s = map (\<lambda>c. Rune [c]) s"
  by (induction s) (simp_all add: runes.simps [of "_ # _"])

lemma utf8_valid_ascii: "\<forall>c \<in> set s. char_code c < 0x80 \<Longrightarrow> utf8_valid s"
  by (auto simp: utf8_valid_def runes_ascii)

subsection \<open>Quoting\<close>

fun quote_rune :: "rune \<Rightarrow> string" where
  "quote_rune BadByte = CHR 0x5C # ''ufffd''"
| "quote_rune (Rune [c]) =
    (if c = CHR 0x22 \<or> c = CHR 0x5C then [CHR 0x5C, c]
     else if c = CHR 0x08 then CHR 0x5C # ''b''
     else if c = CHR 0x0C then CHR 0x5C # ''f''
     else if c = CHR 0x0A then CHR 0x5C # ''n''
     else if c = CHR 0x0D then CHR 0x5C # ''r''
     else if c = CHR 0x09 then CHR 0x5C # ''t''
     else if char_code c < 0x20 \<or> c \<in> {CHR ''<'', CHR ''>'', CHR ''&''}
       then CHR 0x5C # ''u00'' @ [hex_digit (char_code c div 16), hex_digit (char_code c mod 16)]
     else [c])"
| "quote_rune (Rune u) =
    (if u = [CHR 0xE2, CHR 0x80, CHR 0xA8] then CHR 0x5C # ''u2028''
     else if u = [CHR 0xE2, CHR 0x80, CHR 0xA9] then CHR 0x5C # ''u2029''
     else u)"

definition json_quote :: "string \<Rightarrow> string" where
  "json_quote s = concat (map quote_rune (runes s))"

text \<open>A string value as it appears in a text.\<close>

definition json_str :: "string \<Rightarrow> string" where
  "json_str s = CHR 0x22 # json_quote s @ [CHR 0x22]"

text \<open>Reading one rune back: the escapes, or a UTF-8 sequence.\<close>

definition unquote_escape :: "string \<Rightarrow> rune \<times> string" where
  "unquote_escape s =
    (case s of
       [] \<Rightarrow> (BadByte, [])
     | e # t \<Rightarrow>
         if e = CHR 0x22 \<or> e = CHR 0x5C then (Rune [e], t)
         else if e = CHR ''b'' then (Rune [CHR 0x08], t)
         else if e = CHR ''f'' then (Rune [CHR 0x0C], t)
         else if e = CHR ''n'' then (Rune [CHR 0x0A], t)
         else if e = CHR ''r'' then (Rune [CHR 0x0D], t)
         else if e = CHR ''t'' then (Rune [CHR 0x09], t)
         else if take 4 t = ''fffd'' then (BadByte, drop 4 t)
         else if take 4 t = ''2028'' then (Rune [CHR 0xE2, CHR 0x80, CHR 0xA8], drop 4 t)
         else if take 4 t = ''2029'' then (Rune [CHR 0xE2, CHR 0x80, CHR 0xA9], drop 4 t)
         else (Rune [char_of (16 * the (unhex_digit (t ! 2)) + the (unhex_digit (t ! 3)))], drop 4 t))"

definition unquote_one :: "string \<Rightarrow> rune \<times> string" where
  "unquote_one s =
    (if s \<noteq> [] \<and> hd s = CHR 0x5C then unquote_escape (tl s)
     else let n = rune_length (map char_code s) in (Rune (take n s), drop n s))"

lemma hex_digit_inj: "d < 16 \<Longrightarrow> e < 16 \<Longrightarrow> hex_digit d = hex_digit e \<longleftrightarrow> d = e"
  by (metis option.inject unhex_hex_digit)

lemma char_code_less: "char_code c < 256"
  by (simp add: char_code_def)

lemma char_of_char_code: "char_of (char_code c) = c"
  by (simp add: char_code_def)

lemma unquote_hex_escape:
  assumes "v < 256"
  shows "unquote_escape (''u00'' @ [hex_digit (v div 16), hex_digit (v mod 16)] @ x) = (Rune [char_of v], x)"
  using assms by (simp add: unquote_escape_def unhex_hex_digit)

lemma unquote_quote_ascii:
  assumes "\<And>ys. rune_length (char_code c # ys) = 1"
  shows "unquote_one (quote_rune (Rune [c]) @ x) = (Rune [c], x)"
proof -
  let ?short = "{CHR 0x22, CHR 0x5C, CHR 0x08, CHR 0x0C, CHR 0x0A, CHR 0x0D, CHR 0x09}"
  consider (short) "c \<in> ?short" | (hex) "c \<notin> ?short" "char_code c < 0x20 \<or> c \<in> {CHR ''<'', CHR ''>'', CHR ''&''}"
    | (plain) "c \<notin> ?short" "\<not> (char_code c < 0x20 \<or> c \<in> {CHR ''<'', CHR ''>'', CHR ''&''})"
    by blast
  then show ?thesis
  proof cases
    case short
    then show ?thesis
      by (elim insertE emptyE) (simp_all add: unquote_one_def unquote_escape_def)
  next
    case hex
    then have "quote_rune (Rune [c]) = CHR 0x5C # ''u00'' @ [hex_digit (char_code c div 16), hex_digit (char_code c mod 16)]"
      by simp
    then show ?thesis
      using unquote_hex_escape [OF char_code_less, of c x] by (simp add: unquote_one_def char_of_char_code)
  next
    case plain
    then have "quote_rune (Rune [c]) = [c]" "c \<noteq> CHR 0x5C" by simp_all
    then show ?thesis using assms by (simp add: unquote_one_def)
  qed
qed

lemma unquote_quote_wide:
  assumes "\<And>ys. rune_length (map char_code (a # b # u) @ ys) = length (a # b # u)"
  shows "unquote_one (quote_rune (Rune (a # b # u)) @ x) = (Rune (a # b # u), x)"
proof -
  have "a \<noteq> CHR 0x5C"
  proof
    assume "a = CHR 0x5C"
    with assms [of "[]"] show False by (simp add: char_code_def)
  qed
  then show ?thesis
    using assms [of "map char_code x"]
    by (auto simp: unquote_one_def unquote_escape_def)
qed

lemma unquote_quote:
  assumes "rune_ok r"
  shows "unquote_one (quote_rune r @ x) = (r, x)"
proof (cases r)
  case BadByte
  then show ?thesis by (simp add: unquote_one_def unquote_escape_def)
next
  case r: (Rune s)
  then have len: "s \<noteq> []" "\<And>ys. rune_length (map char_code s @ ys) = length s"
    using assms by (auto simp: rune_ok_def)
  then obtain a t where s: "s = a # t" by (cases s) auto
  show ?thesis
  proof (cases t)
    case Nil
    then show ?thesis using unquote_quote_ascii [of a x] len(2) r s by simp
  next
    case t: (Cons b u)
    then show ?thesis using unquote_quote_wide [of a b u x] len(2) r s by simp
  qed
qed

lemma rune_start:
  assumes "rune_ok r"
  shows "\<exists>c u. quote_rune r = c # u \<and> c \<noteq> CHR 0x22"
proof -
  have "quote_rune r \<noteq> []"
    using assms by (cases r rule: quote_rune.cases) (auto simp: rune_ok_def)
  then obtain c u where q: "quote_rune r = c # u" by (cases "quote_rune r") auto
  moreover have "c \<noteq> CHR 0x22"
  proof
    assume c: "c = CHR 0x22"
    have "unquote_one (quote_rune r) = (Rune [CHR 0x22], u)"
      by (simp add: unquote_one_def q c char_code_def)
    then have "r = Rune [CHR 0x22]" using unquote_quote [OF assms, of "[]"] by simp
    with q c show False by simp
  qed
  ultimately show ?thesis by blast
qed

lemma quote_runes_unique:
  assumes "concat (map quote_rune rs) @ CHR 0x22 # x = concat (map quote_rune qs) @ CHR 0x22 # y"
    and "\<forall>r \<in> set rs. rune_ok r" "\<forall>q \<in> set qs. rune_ok q"
  shows "rs = qs \<and> x = y"
  using assms
proof (induction rs arbitrary: qs)
  case Nil
  then show ?case
    using rune_start by (cases qs) fastforce+
next
  case (Cons r rs)
  show ?case
  proof (cases qs)
    case Nil
    then show ?thesis using Cons.prems rune_start [of r] by fastforce
  next
    case C: (Cons q qs')
    let ?X = "concat (map quote_rune rs) @ CHR 0x22 # x" and ?Y = "concat (map quote_rune qs') @ CHR 0x22 # y"
    have eq: "quote_rune r @ ?X = quote_rune q @ ?Y" using Cons.prems(1) C by simp
    have "rune_ok r" "rune_ok q" using Cons.prems(2, 3) C by simp_all
    then have "(r, ?X) = (q, ?Y)" using eq unquote_quote [of r ?X] unquote_quote [of q ?Y] by metis
    then have "r = q" "?X = ?Y" by (blast dest: Pair_inject)+
    with Cons.IH [of qs'] Cons.prems(2, 3) C show ?thesis by simp
  qed
qed

text \<open>A quoted string followed by anything determines the runes of the string and what follows.\<close>

lemma json_str_unique:
  assumes "json_str s @ x = json_str t @ y"
  shows "runes s = runes t \<and> x = y"
proof -
  have "concat (map quote_rune (runes s)) @ CHR 0x22 # x = concat (map quote_rune (runes t)) @ CHR 0x22 # y"
    using assms by (simp add: json_str_def json_quote_def)
  then show ?thesis by (rule quote_runes_unique) (use runes_ok in blast)+
qed

lemma json_str_valid:
  assumes "json_str s @ x = json_str t @ y" "utf8_valid s" "utf8_valid t"
  shows "s = t \<and> x = y"
  using json_str_unique [OF assms(1)] runes_inj assms(2, 3) by blast

text \<open>
  What a text of JSON says of a string: everything but which bytes stood where the string was no valid UTF-8. Strings
  with the same runes are read back as one string, and a valid string has the runes of no other.
\<close>

definition same_text :: "string \<Rightarrow> string \<Rightarrow> bool" where
  "same_text s t \<longleftrightarrow> runes s = runes t"

lemma json_str_same: "json_str s @ x = json_str t @ y \<Longrightarrow> same_text s t \<and> x = y"
  unfolding same_text_def by (rule json_str_unique)

lemma same_text_refl [simp]: "same_text s s"
  by (simp add: same_text_def)

lemma same_text_read: "same_text s t \<Longrightarrow> json_string s = json_string t"
  by (simp add: same_text_def json_string_runes)

lemma same_text_valid: "same_text s t \<Longrightarrow> utf8_valid s \<Longrightarrow> s = t"
  using runes_inj by (simp add: same_text_def utf8_valid_def)

text \<open>Two strings of one byte that starts no UTF-8 sequence.\<close>

lemma same_text_bad: "same_text [CHR 0xFF] [CHR 0xFE]" "json_str [CHR 0xFF] = json_str [CHR 0xFE]"
  by (simp_all add: same_text_def json_str_def json_quote_def runes.simps [of "[_]"] char_code_def)

subsection \<open>Decimal numbers\<close>

definition is_digit :: "char \<Rightarrow> bool" where
  "is_digit c \<longleftrightarrow> 48 \<le> char_code c \<and> char_code c \<le> 57"

definition digits_value :: "string \<Rightarrow> int" where
  "digits_value s = foldl (\<lambda>a c. 10 * a + (int (char_code c) - 48)) 0 s"

lemma char_code_digit: "0 \<le> k \<Longrightarrow> k < 10 \<Longrightarrow> int (char_code (digit k)) = 48 + k"
proof -
  assume k: "0 \<le> k" "k < 10"
  have "int (char_code (digit k)) = (of_char (char_of (48 + k) :: char) :: int)"
    by (simp only: char_code_def digit_def of_nat_of_char)
  also have "\<dots> = 48 + k" using k by simp
  finally show ?thesis .
qed

lemma digits_facts: "0 \<le> n \<Longrightarrow> digits_value (digits n) = n \<and> (\<forall>c \<in> set (digits n). is_digit c) \<and> digits n \<noteq> []"
proof (induction n rule: digits.induct)
  case (1 n)
  show ?case
  proof (cases "n < 10")
    case True
    then show ?thesis
      using 1 char_code_digit [of n] by (simp add: digits.simps [of n] digits_value_def is_digit_def)
  next
    case False
    have m: "0 \<le> n mod 10" "n mod 10 < 10" by simp_all
    have "is_digit (digit (n mod 10))"
      using char_code_digit [OF m] m by (simp add: is_digit_def) linarith
    with 1 False show ?thesis
      using char_code_digit [OF m] by (simp add: digits.simps [of n] digits_value_def)
  qed
qed

lemma digits_unique:
  assumes "digits m @ x = digits n @ y" "0 \<le> m" "0 \<le> n"
    and "x = [] \<or> \<not> is_digit (hd x)" "y = [] \<or> \<not> is_digit (hd y)"
  shows "m = n \<and> x = y"
proof -
  have "takeWhile is_digit (digits k @ z) = digits k" if "0 \<le> k" "z = [] \<or> \<not> is_digit (hd z)" for k z
    using digits_facts [OF that(1)] that(2) by (cases z) (auto simp: takeWhile_append)
  then have "digits m = digits n" using assms by metis
  with assms show ?thesis by (metis append_same_eq digits_facts same_append_eq)
qed

lemma itoa_unique:
  assumes "itoa m @ x = itoa n @ y"
    and "x = [] \<or> \<not> is_digit (hd x)" "y = [] \<or> \<not> is_digit (hd y)"
  shows "m = n \<and> x = y"
proof -
  have start: "digits k @ z \<noteq> CHR ''-'' # w" if "0 \<le> k" for k z w
  proof
    assume "digits k @ z = CHR ''-'' # w"
    then have "hd (digits k) = CHR ''-''" using digits_facts [OF that] by (metis hd_append2 list.sel(1))
    moreover have "is_digit (hd (digits k))" using digits_facts [OF that] by simp
    ultimately show False by (simp add: is_digit_def char_code_def)
  qed
  show ?thesis
  proof (cases "m < 0"; cases "n < 0")
    assume "m < 0" "n < 0"
    then show ?thesis using assms digits_unique [of "- m" x "- n" y] by (simp add: itoa_def)
  next
    assume "m < 0" "\<not> n < 0"
    then show ?thesis using assms(1) start [of n y "digits (- m) @ x"] by (simp add: itoa_def)
  next
    assume "\<not> m < 0" "n < 0"
    then show ?thesis using assms(1) start [of m x "digits (- n) @ y"] by (simp add: itoa_def)
  next
    assume "\<not> m < 0" "\<not> n < 0"
    then show ?thesis using assms digits_unique [of m x n y] by (simp add: itoa_def)
  qed
qed

end
