(* ===== verification/Keccak_F.thy ===== *)
theory Keccak_F
  imports Nexum_Prelude
begin

text \<open>
  The Keccak permutation, \<open>quarry/keccak/keccakf.go\<close>: 25 lanes of 64 bits, 24 rounds.
  \<open>keccakF1600\<close> is the code: the loop body unrolls four rounds that work in place, each of
  which leaves its lanes at permuted slots (\<open>keccak_round1\<close> to \<open>keccak_round4\<close> follow the code's
  assignments one by one; the parameter \<open>k\<close> is the round constant \<open>rc[i]\<close> to \<open>rc[i+3]\<close>).
  \<open>keccak_p\<close> is the specification of FIPS 202, section 3: the step mappings theta, rho, pi, chi
  and iota on lanes addressed by coordinates, with the rotation offsets and the round constants
  computed from their definitions. The theorem is that the code computes the specification.
\<close>

unbundle bit_operations_syntax

type_synonym lanes = "64 word list"

definition rc :: "64 word list" where
  "rc =
  [1, 32898, 9223372036854808714, 9223372039002292224,
   32907, 2147483649, 9223372039002292353, 9223372036854808585,
   138, 136, 2147516425, 2147483658,
   2147516555, 9223372036854775947, 9223372036854808713, 9223372036854808579,
   9223372036854808578, 9223372036854775936, 32778, 9223372039002259466,
   9223372039002292353, 9223372036854808704, 2147483649, 9223372039002292232]"

subsection \<open>The code\<close>

definition keccak_round1 :: "lanes \<Rightarrow> 64 word \<Rightarrow> lanes" where
  "keccak_round1 a k =
    (let bc0 = a ! 0 XOR a ! 5 XOR a ! 10 XOR a ! 15 XOR a ! 20;
         bc1 = a ! 1 XOR a ! 6 XOR a ! 11 XOR a ! 16 XOR a ! 21;
         bc2 = a ! 2 XOR a ! 7 XOR a ! 12 XOR a ! 17 XOR a ! 22;
         bc3 = a ! 3 XOR a ! 8 XOR a ! 13 XOR a ! 18 XOR a ! 23;
         bc4 = a ! 4 XOR a ! 9 XOR a ! 14 XOR a ! 19 XOR a ! 24;
         d0 = bc4 XOR (push_bit 1 bc1 OR drop_bit 63 bc1);
         d1 = bc0 XOR (push_bit 1 bc2 OR drop_bit 63 bc2);
         d2 = bc1 XOR (push_bit 1 bc3 OR drop_bit 63 bc3);
         d3 = bc2 XOR (push_bit 1 bc4 OR drop_bit 63 bc4);
         d4 = bc3 XOR (push_bit 1 bc0 OR drop_bit 63 bc0);
         bc0 = a ! 0 XOR d0; t = a ! 6 XOR d1; bc1 = word_rotl 44 t; t = a ! 12 XOR d2;
         bc2 = word_rotl 43 t; t = a ! 18 XOR d3; bc3 = word_rotl 21 t; t = a ! 24 XOR d4;
         bc4 = word_rotl 14 t; a = a[0 := bc0 XOR (bc2 AND NOT bc1) XOR k];
         a = a[6 := bc1 XOR (bc3 AND NOT bc2)]; a = a[12 := bc2 XOR (bc4 AND NOT bc3)];
         a = a[18 := bc3 XOR (bc0 AND NOT bc4)]; a = a[24 := bc4 XOR (bc1 AND NOT bc0)];
         t = a ! 10 XOR d0; bc2 = word_rotl 3 t; t = a ! 16 XOR d1; bc3 = word_rotl 45 t;
         t = a ! 22 XOR d2; bc4 = word_rotl 61 t; t = a ! 3 XOR d3; bc0 = word_rotl 28 t;
         t = a ! 9 XOR d4; bc1 = word_rotl 20 t; a = a[10 := bc0 XOR (bc2 AND NOT bc1)];
         a = a[16 := bc1 XOR (bc3 AND NOT bc2)]; a = a[22 := bc2 XOR (bc4 AND NOT bc3)];
         a = a[3 := bc3 XOR (bc0 AND NOT bc4)]; a = a[9 := bc4 XOR (bc1 AND NOT bc0)];
         t = a ! 20 XOR d0; bc4 = word_rotl 18 t; t = a ! 1 XOR d1; bc0 = word_rotl 1 t;
         t = a ! 7 XOR d2; bc1 = word_rotl 6 t; t = a ! 13 XOR d3; bc2 = word_rotl 25 t;
         t = a ! 19 XOR d4; bc3 = word_rotl 8 t; a = a[20 := bc0 XOR (bc2 AND NOT bc1)];
         a = a[1 := bc1 XOR (bc3 AND NOT bc2)]; a = a[7 := bc2 XOR (bc4 AND NOT bc3)];
         a = a[13 := bc3 XOR (bc0 AND NOT bc4)]; a = a[19 := bc4 XOR (bc1 AND NOT bc0)];
         t = a ! 5 XOR d0; bc1 = word_rotl 36 t; t = a ! 11 XOR d1; bc2 = word_rotl 10 t;
         t = a ! 17 XOR d2; bc3 = word_rotl 15 t; t = a ! 23 XOR d3; bc4 = word_rotl 56 t;
         t = a ! 4 XOR d4; bc0 = word_rotl 27 t; a = a[5 := bc0 XOR (bc2 AND NOT bc1)];
         a = a[11 := bc1 XOR (bc3 AND NOT bc2)]; a = a[17 := bc2 XOR (bc4 AND NOT bc3)];
         a = a[23 := bc3 XOR (bc0 AND NOT bc4)]; a = a[4 := bc4 XOR (bc1 AND NOT bc0)];
         t = a ! 15 XOR d0; bc3 = word_rotl 41 t; t = a ! 21 XOR d1; bc4 = word_rotl 2 t;
         t = a ! 2 XOR d2; bc0 = word_rotl 62 t; t = a ! 8 XOR d3; bc1 = word_rotl 55 t;
         t = a ! 14 XOR d4; bc2 = word_rotl 39 t; a = a[15 := bc0 XOR (bc2 AND NOT bc1)];
         a = a[21 := bc1 XOR (bc3 AND NOT bc2)]; a = a[2 := bc2 XOR (bc4 AND NOT bc3)];
         a = a[8 := bc3 XOR (bc0 AND NOT bc4)]; a = a[14 := bc4 XOR (bc1 AND NOT bc0)]
     in a)"

definition keccak_round2 :: "lanes \<Rightarrow> 64 word \<Rightarrow> lanes" where
  "keccak_round2 a k =
    (let bc0 = a ! 0 XOR a ! 5 XOR a ! 10 XOR a ! 15 XOR a ! 20;
         bc1 = a ! 1 XOR a ! 6 XOR a ! 11 XOR a ! 16 XOR a ! 21;
         bc2 = a ! 2 XOR a ! 7 XOR a ! 12 XOR a ! 17 XOR a ! 22;
         bc3 = a ! 3 XOR a ! 8 XOR a ! 13 XOR a ! 18 XOR a ! 23;
         bc4 = a ! 4 XOR a ! 9 XOR a ! 14 XOR a ! 19 XOR a ! 24;
         d0 = bc4 XOR (push_bit 1 bc1 OR drop_bit 63 bc1);
         d1 = bc0 XOR (push_bit 1 bc2 OR drop_bit 63 bc2);
         d2 = bc1 XOR (push_bit 1 bc3 OR drop_bit 63 bc3);
         d3 = bc2 XOR (push_bit 1 bc4 OR drop_bit 63 bc4);
         d4 = bc3 XOR (push_bit 1 bc0 OR drop_bit 63 bc0);
         bc0 = a ! 0 XOR d0; t = a ! 16 XOR d1; bc1 = word_rotl 44 t; t = a ! 7 XOR d2;
         bc2 = word_rotl 43 t; t = a ! 23 XOR d3; bc3 = word_rotl 21 t; t = a ! 14 XOR d4;
         bc4 = word_rotl 14 t; a = a[0 := bc0 XOR (bc2 AND NOT bc1) XOR k];
         a = a[16 := bc1 XOR (bc3 AND NOT bc2)]; a = a[7 := bc2 XOR (bc4 AND NOT bc3)];
         a = a[23 := bc3 XOR (bc0 AND NOT bc4)]; a = a[14 := bc4 XOR (bc1 AND NOT bc0)];
         t = a ! 20 XOR d0; bc2 = word_rotl 3 t; t = a ! 11 XOR d1; bc3 = word_rotl 45 t;
         t = a ! 2 XOR d2; bc4 = word_rotl 61 t; t = a ! 18 XOR d3; bc0 = word_rotl 28 t;
         t = a ! 9 XOR d4; bc1 = word_rotl 20 t; a = a[20 := bc0 XOR (bc2 AND NOT bc1)];
         a = a[11 := bc1 XOR (bc3 AND NOT bc2)]; a = a[2 := bc2 XOR (bc4 AND NOT bc3)];
         a = a[18 := bc3 XOR (bc0 AND NOT bc4)]; a = a[9 := bc4 XOR (bc1 AND NOT bc0)];
         t = a ! 15 XOR d0; bc4 = word_rotl 18 t; t = a ! 6 XOR d1; bc0 = word_rotl 1 t;
         t = a ! 22 XOR d2; bc1 = word_rotl 6 t; t = a ! 13 XOR d3; bc2 = word_rotl 25 t;
         t = a ! 4 XOR d4; bc3 = word_rotl 8 t; a = a[15 := bc0 XOR (bc2 AND NOT bc1)];
         a = a[6 := bc1 XOR (bc3 AND NOT bc2)]; a = a[22 := bc2 XOR (bc4 AND NOT bc3)];
         a = a[13 := bc3 XOR (bc0 AND NOT bc4)]; a = a[4 := bc4 XOR (bc1 AND NOT bc0)];
         t = a ! 10 XOR d0; bc1 = word_rotl 36 t; t = a ! 1 XOR d1; bc2 = word_rotl 10 t;
         t = a ! 17 XOR d2; bc3 = word_rotl 15 t; t = a ! 8 XOR d3; bc4 = word_rotl 56 t;
         t = a ! 24 XOR d4; bc0 = word_rotl 27 t; a = a[10 := bc0 XOR (bc2 AND NOT bc1)];
         a = a[1 := bc1 XOR (bc3 AND NOT bc2)]; a = a[17 := bc2 XOR (bc4 AND NOT bc3)];
         a = a[8 := bc3 XOR (bc0 AND NOT bc4)]; a = a[24 := bc4 XOR (bc1 AND NOT bc0)];
         t = a ! 5 XOR d0; bc3 = word_rotl 41 t; t = a ! 21 XOR d1; bc4 = word_rotl 2 t;
         t = a ! 12 XOR d2; bc0 = word_rotl 62 t; t = a ! 3 XOR d3; bc1 = word_rotl 55 t;
         t = a ! 19 XOR d4; bc2 = word_rotl 39 t; a = a[5 := bc0 XOR (bc2 AND NOT bc1)];
         a = a[21 := bc1 XOR (bc3 AND NOT bc2)]; a = a[12 := bc2 XOR (bc4 AND NOT bc3)];
         a = a[3 := bc3 XOR (bc0 AND NOT bc4)]; a = a[19 := bc4 XOR (bc1 AND NOT bc0)]
     in a)"

definition keccak_round3 :: "lanes \<Rightarrow> 64 word \<Rightarrow> lanes" where
  "keccak_round3 a k =
    (let bc0 = a ! 0 XOR a ! 5 XOR a ! 10 XOR a ! 15 XOR a ! 20;
         bc1 = a ! 1 XOR a ! 6 XOR a ! 11 XOR a ! 16 XOR a ! 21;
         bc2 = a ! 2 XOR a ! 7 XOR a ! 12 XOR a ! 17 XOR a ! 22;
         bc3 = a ! 3 XOR a ! 8 XOR a ! 13 XOR a ! 18 XOR a ! 23;
         bc4 = a ! 4 XOR a ! 9 XOR a ! 14 XOR a ! 19 XOR a ! 24;
         d0 = bc4 XOR (push_bit 1 bc1 OR drop_bit 63 bc1);
         d1 = bc0 XOR (push_bit 1 bc2 OR drop_bit 63 bc2);
         d2 = bc1 XOR (push_bit 1 bc3 OR drop_bit 63 bc3);
         d3 = bc2 XOR (push_bit 1 bc4 OR drop_bit 63 bc4);
         d4 = bc3 XOR (push_bit 1 bc0 OR drop_bit 63 bc0);
         bc0 = a ! 0 XOR d0; t = a ! 11 XOR d1; bc1 = word_rotl 44 t; t = a ! 22 XOR d2;
         bc2 = word_rotl 43 t; t = a ! 8 XOR d3; bc3 = word_rotl 21 t; t = a ! 19 XOR d4;
         bc4 = word_rotl 14 t; a = a[0 := bc0 XOR (bc2 AND NOT bc1) XOR k];
         a = a[11 := bc1 XOR (bc3 AND NOT bc2)]; a = a[22 := bc2 XOR (bc4 AND NOT bc3)];
         a = a[8 := bc3 XOR (bc0 AND NOT bc4)]; a = a[19 := bc4 XOR (bc1 AND NOT bc0)];
         t = a ! 15 XOR d0; bc2 = word_rotl 3 t; t = a ! 1 XOR d1; bc3 = word_rotl 45 t;
         t = a ! 12 XOR d2; bc4 = word_rotl 61 t; t = a ! 23 XOR d3; bc0 = word_rotl 28 t;
         t = a ! 9 XOR d4; bc1 = word_rotl 20 t; a = a[15 := bc0 XOR (bc2 AND NOT bc1)];
         a = a[1 := bc1 XOR (bc3 AND NOT bc2)]; a = a[12 := bc2 XOR (bc4 AND NOT bc3)];
         a = a[23 := bc3 XOR (bc0 AND NOT bc4)]; a = a[9 := bc4 XOR (bc1 AND NOT bc0)];
         t = a ! 5 XOR d0; bc4 = word_rotl 18 t; t = a ! 16 XOR d1; bc0 = word_rotl 1 t;
         t = a ! 2 XOR d2; bc1 = word_rotl 6 t; t = a ! 13 XOR d3; bc2 = word_rotl 25 t;
         t = a ! 24 XOR d4; bc3 = word_rotl 8 t; a = a[5 := bc0 XOR (bc2 AND NOT bc1)];
         a = a[16 := bc1 XOR (bc3 AND NOT bc2)]; a = a[2 := bc2 XOR (bc4 AND NOT bc3)];
         a = a[13 := bc3 XOR (bc0 AND NOT bc4)]; a = a[24 := bc4 XOR (bc1 AND NOT bc0)];
         t = a ! 20 XOR d0; bc1 = word_rotl 36 t; t = a ! 6 XOR d1; bc2 = word_rotl 10 t;
         t = a ! 17 XOR d2; bc3 = word_rotl 15 t; t = a ! 3 XOR d3; bc4 = word_rotl 56 t;
         t = a ! 14 XOR d4; bc0 = word_rotl 27 t; a = a[20 := bc0 XOR (bc2 AND NOT bc1)];
         a = a[6 := bc1 XOR (bc3 AND NOT bc2)]; a = a[17 := bc2 XOR (bc4 AND NOT bc3)];
         a = a[3 := bc3 XOR (bc0 AND NOT bc4)]; a = a[14 := bc4 XOR (bc1 AND NOT bc0)];
         t = a ! 10 XOR d0; bc3 = word_rotl 41 t; t = a ! 21 XOR d1; bc4 = word_rotl 2 t;
         t = a ! 7 XOR d2; bc0 = word_rotl 62 t; t = a ! 18 XOR d3; bc1 = word_rotl 55 t;
         t = a ! 4 XOR d4; bc2 = word_rotl 39 t; a = a[10 := bc0 XOR (bc2 AND NOT bc1)];
         a = a[21 := bc1 XOR (bc3 AND NOT bc2)]; a = a[7 := bc2 XOR (bc4 AND NOT bc3)];
         a = a[18 := bc3 XOR (bc0 AND NOT bc4)]; a = a[4 := bc4 XOR (bc1 AND NOT bc0)]
     in a)"

definition keccak_round4 :: "lanes \<Rightarrow> 64 word \<Rightarrow> lanes" where
  "keccak_round4 a k =
    (let bc0 = a ! 0 XOR a ! 5 XOR a ! 10 XOR a ! 15 XOR a ! 20;
         bc1 = a ! 1 XOR a ! 6 XOR a ! 11 XOR a ! 16 XOR a ! 21;
         bc2 = a ! 2 XOR a ! 7 XOR a ! 12 XOR a ! 17 XOR a ! 22;
         bc3 = a ! 3 XOR a ! 8 XOR a ! 13 XOR a ! 18 XOR a ! 23;
         bc4 = a ! 4 XOR a ! 9 XOR a ! 14 XOR a ! 19 XOR a ! 24;
         d0 = bc4 XOR (push_bit 1 bc1 OR drop_bit 63 bc1);
         d1 = bc0 XOR (push_bit 1 bc2 OR drop_bit 63 bc2);
         d2 = bc1 XOR (push_bit 1 bc3 OR drop_bit 63 bc3);
         d3 = bc2 XOR (push_bit 1 bc4 OR drop_bit 63 bc4);
         d4 = bc3 XOR (push_bit 1 bc0 OR drop_bit 63 bc0);
         bc0 = a ! 0 XOR d0; t = a ! 1 XOR d1; bc1 = word_rotl 44 t; t = a ! 2 XOR d2;
         bc2 = word_rotl 43 t; t = a ! 3 XOR d3; bc3 = word_rotl 21 t; t = a ! 4 XOR d4;
         bc4 = word_rotl 14 t; a = a[0 := bc0 XOR (bc2 AND NOT bc1) XOR k];
         a = a[1 := bc1 XOR (bc3 AND NOT bc2)]; a = a[2 := bc2 XOR (bc4 AND NOT bc3)];
         a = a[3 := bc3 XOR (bc0 AND NOT bc4)]; a = a[4 := bc4 XOR (bc1 AND NOT bc0)];
         t = a ! 5 XOR d0; bc2 = word_rotl 3 t; t = a ! 6 XOR d1; bc3 = word_rotl 45 t; t = a ! 7 XOR d2;
         bc4 = word_rotl 61 t; t = a ! 8 XOR d3; bc0 = word_rotl 28 t; t = a ! 9 XOR d4;
         bc1 = word_rotl 20 t; a = a[5 := bc0 XOR (bc2 AND NOT bc1)];
         a = a[6 := bc1 XOR (bc3 AND NOT bc2)]; a = a[7 := bc2 XOR (bc4 AND NOT bc3)];
         a = a[8 := bc3 XOR (bc0 AND NOT bc4)]; a = a[9 := bc4 XOR (bc1 AND NOT bc0)];
         t = a ! 10 XOR d0; bc4 = word_rotl 18 t; t = a ! 11 XOR d1; bc0 = word_rotl 1 t;
         t = a ! 12 XOR d2; bc1 = word_rotl 6 t; t = a ! 13 XOR d3; bc2 = word_rotl 25 t;
         t = a ! 14 XOR d4; bc3 = word_rotl 8 t; a = a[10 := bc0 XOR (bc2 AND NOT bc1)];
         a = a[11 := bc1 XOR (bc3 AND NOT bc2)]; a = a[12 := bc2 XOR (bc4 AND NOT bc3)];
         a = a[13 := bc3 XOR (bc0 AND NOT bc4)]; a = a[14 := bc4 XOR (bc1 AND NOT bc0)];
         t = a ! 15 XOR d0; bc1 = word_rotl 36 t; t = a ! 16 XOR d1; bc2 = word_rotl 10 t;
         t = a ! 17 XOR d2; bc3 = word_rotl 15 t; t = a ! 18 XOR d3; bc4 = word_rotl 56 t;
         t = a ! 19 XOR d4; bc0 = word_rotl 27 t; a = a[15 := bc0 XOR (bc2 AND NOT bc1)];
         a = a[16 := bc1 XOR (bc3 AND NOT bc2)]; a = a[17 := bc2 XOR (bc4 AND NOT bc3)];
         a = a[18 := bc3 XOR (bc0 AND NOT bc4)]; a = a[19 := bc4 XOR (bc1 AND NOT bc0)];
         t = a ! 20 XOR d0; bc3 = word_rotl 41 t; t = a ! 21 XOR d1; bc4 = word_rotl 2 t;
         t = a ! 22 XOR d2; bc0 = word_rotl 62 t; t = a ! 23 XOR d3; bc1 = word_rotl 55 t;
         t = a ! 24 XOR d4; bc2 = word_rotl 39 t; a = a[20 := bc0 XOR (bc2 AND NOT bc1)];
         a = a[21 := bc1 XOR (bc3 AND NOT bc2)]; a = a[22 := bc2 XOR (bc4 AND NOT bc3)];
         a = a[23 := bc3 XOR (bc0 AND NOT bc4)]; a = a[24 := bc4 XOR (bc1 AND NOT bc0)]
     in a)"

text \<open>The loop \<open>for i := 0; i < 24; i += 4\<close>.\<close>

function keccak_loop :: "nat \<Rightarrow> lanes \<Rightarrow> lanes" where
  "keccak_loop i a =
    (if i < 24 then
       keccak_loop (i + 4)
         (keccak_round4 (keccak_round3 (keccak_round2 (keccak_round1 a (rc ! i)) (rc ! (i + 1)))
            (rc ! (i + 2))) (rc ! (i + 3)))
     else a)"
  by pat_completeness auto

termination by (relation "measure (\<lambda>(i, a). 24 - i)") auto

definition keccakF1600 :: "lanes \<Rightarrow> lanes" where
  "keccakF1600 a = keccak_loop 0 a"

subsection \<open>The specification\<close>

text \<open>The lane with the coordinates \<open>(x, y)\<close> has the index \<open>x + 5 * y\<close>.\<close>

definition lane_at :: "lanes \<Rightarrow> nat \<Rightarrow> nat \<Rightarrow> 64 word" where
  "lane_at A x y = A ! (x + 5 * y)"

definition of_lanes :: "(nat \<Rightarrow> nat \<Rightarrow> 64 word) \<Rightarrow> lanes" where
  "of_lanes f = map (\<lambda>i. f (i mod 5) (i div 5)) [0..<25]"

definition column_parity :: "lanes \<Rightarrow> nat \<Rightarrow> 64 word" where
  "column_parity A x = lane_at A x 0 XOR lane_at A x 1 XOR lane_at A x 2 XOR lane_at A x 3 XOR lane_at A x 4"

definition theta_map :: "lanes \<Rightarrow> lanes" where
  "theta_map A =
    of_lanes (\<lambda>x y. lane_at A x y XOR (column_parity A ((x + 4) mod 5) XOR word_rotl 1 (column_parity A ((x + 1) mod 5))))"

text \<open>
  The offset of rho at \<open>(x, y)\<close>: along the orbit of \<open>(1, 0)\<close> under \<open>(x, y) \<mapsto> (y, 2x + 3y)\<close> the
  \<open>t\<close>-th lane is rotated by \<open>(t + 1)(t + 2) / 2\<close>; the lane \<open>(0, 0)\<close> is not rotated.
\<close>

fun rho_offset :: "nat \<Rightarrow> nat \<Rightarrow> nat \<Rightarrow> nat \<Rightarrow> nat \<Rightarrow> nat \<Rightarrow> nat" where
  "rho_offset 0 t u v x y = 0"
| "rho_offset (Suc n) t u v x y =
    (if u = x \<and> v = y then ((t + 1) * (t + 2) div 2) mod 64
     else rho_offset n (t + 1) v ((2 * u + 3 * v) mod 5) x y)"

definition rho_map :: "lanes \<Rightarrow> lanes" where
  "rho_map A = of_lanes (\<lambda>x y. word_rotl (rho_offset 24 0 1 0 x y) (lane_at A x y))"

definition pi_map :: "lanes \<Rightarrow> lanes" where
  "pi_map A = of_lanes (\<lambda>x y. lane_at A ((x + 3 * y) mod 5) x)"

definition chi_map :: "lanes \<Rightarrow> lanes" where
  "chi_map A =
    of_lanes (\<lambda>x y. lane_at A x y XOR (lane_at A ((x + 2) mod 5) y AND NOT (lane_at A ((x + 1) mod 5) y)))"

definition iota_map :: "64 word \<Rightarrow> lanes \<Rightarrow> lanes" where
  "iota_map k A = A[0 := A ! 0 XOR k]"

text \<open>
  The round constants: bit \<open>2 ^ j - 1\<close> of the constant of round \<open>i\<close> is the low bit of the linear
  feedback shift register of 8 bits after \<open>j + 7 i\<close> steps from 1.
\<close>

definition lfsr_step :: "8 word \<Rightarrow> 8 word" where
  "lfsr_step r = push_bit 1 r XOR (if bit r 7 then 113 else 0)"

fun constant_bits :: "nat \<Rightarrow> nat \<Rightarrow> 8 word \<Rightarrow> 64 word" where
  "constant_bits 0 j r = 0"
| "constant_bits (Suc n) j r =
    (if bit r 0 then push_bit (2 ^ j - 1) 1 else 0) OR constant_bits n (j + 1) (lfsr_step r)"

fun round_constants :: "nat \<Rightarrow> 8 word \<Rightarrow> 64 word list" where
  "round_constants 0 r = []"
| "round_constants (Suc n) r = constant_bits 7 0 r # round_constants n ((lfsr_step ^^ 7) r)"

definition keccak_rnd :: "lanes \<Rightarrow> 64 word \<Rightarrow> lanes" where
  "keccak_rnd A k = iota_map k (chi_map (pi_map (rho_map (theta_map A))))"

definition keccak_p :: "lanes \<Rightarrow> lanes" where
  "keccak_p A = foldl keccak_rnd A (round_constants 24 1)"

subsection \<open>Lists of 25 lanes\<close>

text \<open>The slots of the in-place rounds: slot \<open>s\<close> holds the lane \<open>q ! s\<close>.\<close>

definition arrange :: "nat list \<Rightarrow> lanes \<Rightarrow> lanes" where
  "arrange q A = map (\<lambda>j. A ! j) q"

definition slots1 :: "nat list" where
  "slots1 = [0, 11, 22, 8, 19, 15, 1, 12, 23, 9, 5, 16, 2, 13, 24, 20, 6, 17, 3, 14, 10, 21, 7, 18, 4]"

definition slots2 :: "nat list" where
  "slots2 = [0, 16, 7, 23, 14, 20, 11, 2, 18, 9, 15, 6, 22, 13, 4, 10, 1, 17, 8, 24, 5, 21, 12, 3, 19]"

definition slots3 :: "nat list" where
  "slots3 = [0, 6, 12, 18, 24, 10, 16, 22, 3, 9, 20, 1, 7, 13, 19, 5, 11, 17, 23, 4, 15, 21, 2, 8, 14]"

lemma rotl_1: "push_bit 1 x OR drop_bit 63 x = word_rotl 1 (x :: 64 word)"
proof (rule bit_word_eqI)
  fix n assume n: "n < LENGTH(64)"
  have "bit (word_rotl 1 x) n \<longleftrightarrow> bit x ((n + 63) mod 64)" using n by (simp add: bit_word_rotl_iff)
  moreover have "(n + 63) mod 64 = (if n = 0 then 63 else n - 1)" using n by (auto simp: mod_if)
  moreover have "\<not> bit x (63 + n)" if "0 < n" using that by (auto dest: bit_imp_le_length)
  ultimately show "bit (push_bit 1 x OR drop_bit 63 x) n = bit (word_rotl 1 x) n"
    using n by (simp only: bit_or_iff bit_push_bit_iff bit_drop_bit_eq) auto
qed

lemma lanes_cases:
  assumes "length (A :: lanes) = 25"
  obtains x0 x1 x2 x3 x4 x5 x6 x7 x8 x9 x10 x11 x12 x13 x14 x15 x16 x17 x18 x19 x20 x21 x22 x23 x24
    where "A = [x0,x1,x2,x3,x4,x5,x6,x7,x8,x9,x10,x11,x12,x13,x14,x15,x16,x17,x18,x19,x20,x21,x22,x23,x24]"
  using assms by (auto simp: length_Suc_conv numeral_eq_Suc)

lemma upt_25: "[0..<25] = [0, 1, 2, 3, 4, 5, 6, 7, 8, 9, 10, 11, 12, 13, 14, 15, 16, 17, 18, 19, 20, 21, 22, 23, 24]"
  by (simp add: upt_rec_numeral upt_conv_Cons)

lemma list_update_Cons_numeral [simp]: "(x # xs)[numeral n := v] = x # xs[pred_numeral n := v]"
  by (simp add: numeral_eq_Suc)


text \<open>
  The rules that evaluate a read or a write of a lane_at by its literal index. With \<open>cons_weak\<close> the
  simplifier does not visit the lanes themselves, and a round is evaluated assignment by assignment.
\<close>

lemma nth_numeral: "(x # xs) ! numeral n = xs ! pred_numeral n" by (simp add: numeral_eq_Suc)
lemma upd0: "(x # xs)[0 := v] = v # xs" by simp
lemma updS: "(x # xs)[Suc n := v] = x # xs[n := v]" by simp
lemma nth_1: "(x # xs) ! 1 = xs ! 0" by simp
lemma upd_1: "(x # xs)[1 := v] = x # xs[0 := v]" by simp
lemma cons_weak: "xs = ys \<Longrightarrow> x # xs = x # ys" by simp
lemmas lane_simps = nth_numeral nth_Cons_0 nth_Cons_Suc list_update_Cons_numeral upd0 updS pred_numeral_simps BitM.simps nth_1 upd_1 
  numeral_One
lemma of_lanes_25: "of_lanes f =
    [f 0 0, f 1 0, f 2 0, f 3 0, f 4 0, f 0 1, f 1 1, f 2 1, f 3 1, f 4 1, f 0 2, f 1 2, f 2 2, f 3 2, f 4 2,
     f 0 3, f 1 3, f 2 3, f 3 3, f 4 3, f 0 4, f 1 4, f 2 4, f 3 4, f 4 4]"
  by (simp add: of_lanes_def upt_25)

lemma column_lanes:
  assumes "A = [x0, x1, x2, x3, x4, x5, x6, x7, x8, x9, x10, x11, x12, x13, x14, x15, x16, x17, x18, x19, x20, x21, x22, x23, x24]"
  shows "column_parity A 0 = x0 XOR x5 XOR x10 XOR x15 XOR x20" "column_parity A 1 = x1 XOR x6 XOR x11 XOR x16 XOR x21"
    "column_parity A 2 = x2 XOR x7 XOR x12 XOR x17 XOR x22" "column_parity A 3 = x3 XOR x8 XOR x13 XOR x18 XOR x23"
    "column_parity A 4 = x4 XOR x9 XOR x14 XOR x19 XOR x24"
  by (simp_all add: assms column_parity_def lane_at_def)

lemma theta_lanes:
  assumes "A = [x0, x1, x2, x3, x4, x5, x6, x7, x8, x9, x10, x11, x12, x13, x14, x15, x16, x17, x18, x19, x20, x21, x22, x23, x24]"
  shows "theta_map A =
    [x0 XOR (column_parity A 4 XOR word_rotl 1 (column_parity A 1)),
     x1 XOR (column_parity A 0 XOR word_rotl 1 (column_parity A 2)),
     x2 XOR (column_parity A 1 XOR word_rotl 1 (column_parity A 3)),
     x3 XOR (column_parity A 2 XOR word_rotl 1 (column_parity A 4)),
     x4 XOR (column_parity A 3 XOR word_rotl 1 (column_parity A 0)),
     x5 XOR (column_parity A 4 XOR word_rotl 1 (column_parity A 1)),
     x6 XOR (column_parity A 0 XOR word_rotl 1 (column_parity A 2)),
     x7 XOR (column_parity A 1 XOR word_rotl 1 (column_parity A 3)),
     x8 XOR (column_parity A 2 XOR word_rotl 1 (column_parity A 4)),
     x9 XOR (column_parity A 3 XOR word_rotl 1 (column_parity A 0)),
     x10 XOR (column_parity A 4 XOR word_rotl 1 (column_parity A 1)),
     x11 XOR (column_parity A 0 XOR word_rotl 1 (column_parity A 2)),
     x12 XOR (column_parity A 1 XOR word_rotl 1 (column_parity A 3)),
     x13 XOR (column_parity A 2 XOR word_rotl 1 (column_parity A 4)),
     x14 XOR (column_parity A 3 XOR word_rotl 1 (column_parity A 0)),
     x15 XOR (column_parity A 4 XOR word_rotl 1 (column_parity A 1)),
     x16 XOR (column_parity A 0 XOR word_rotl 1 (column_parity A 2)),
     x17 XOR (column_parity A 1 XOR word_rotl 1 (column_parity A 3)),
     x18 XOR (column_parity A 2 XOR word_rotl 1 (column_parity A 4)),
     x19 XOR (column_parity A 3 XOR word_rotl 1 (column_parity A 0)),
     x20 XOR (column_parity A 4 XOR word_rotl 1 (column_parity A 1)),
     x21 XOR (column_parity A 0 XOR word_rotl 1 (column_parity A 2)),
     x22 XOR (column_parity A 1 XOR word_rotl 1 (column_parity A 3)),
     x23 XOR (column_parity A 2 XOR word_rotl 1 (column_parity A 4)),
     x24 XOR (column_parity A 3 XOR word_rotl 1 (column_parity A 0))]"
  by (simp add: theta_map_def of_lanes_25 numeral_2_eq_2) (simp add: assms lane_at_def)

lemma rotl_0: "word_rotl 0 (x :: 64 word) = x"
  by (rule bit_word_eqI) (simp add: bit_word_rotl_iff)

lemma rho_offsets:
  "map (\<lambda>i. rho_offset 24 0 1 0 (i mod 5) (i div 5)) [0..<25] =
    [0, 1, 62, 28, 27, 36, 44, 6, 55, 20, 3, 10, 43, 25, 39, 41, 45, 15, 21, 8, 18, 2, 61, 56, 14]"
  by code_simp

lemma rho_by_offsets:
  assumes "length A = 25"
  shows "rho_map A = map2 word_rotl (map (\<lambda>i. rho_offset 24 0 1 0 (i mod 5) (i div 5)) [0..<25]) A"
  using assms by (simp add: rho_map_def of_lanes_def lane_at_def list_eq_iff_nth_eq)

lemma rho_lanes:
  "rho_map [x0, x1, x2, x3, x4, x5, x6, x7, x8, x9, x10, x11, x12, x13, x14, x15, x16, x17, x18, x19, x20, x21, x22, x23, x24] =
    [word_rotl 0 x0, word_rotl 1 x1, word_rotl 62 x2, word_rotl 28 x3, word_rotl 27 x4,
     word_rotl 36 x5, word_rotl 44 x6, word_rotl 6 x7, word_rotl 55 x8, word_rotl 20 x9,
     word_rotl 3 x10, word_rotl 10 x11, word_rotl 43 x12, word_rotl 25 x13, word_rotl 39 x14,
     word_rotl 41 x15, word_rotl 45 x16, word_rotl 15 x17, word_rotl 21 x18, word_rotl 8 x19,
     word_rotl 18 x20, word_rotl 2 x21, word_rotl 61 x22, word_rotl 56 x23, word_rotl 14 x24]"
  using rho_offsets by (simp add: rho_by_offsets)

lemma pi_lanes:
  "pi_map [x0, x1, x2, x3, x4, x5, x6, x7, x8, x9, x10, x11, x12, x13, x14, x15, x16, x17, x18, x19, x20, x21, x22, x23, x24] =
    [x0, x6, x12, x18, x24, x3, x9, x10, x16, x22, x1, x7, x13, x19, x20, x4, x5, x11, x17, x23,
     x2, x8, x14, x15, x21]"
  by (simp add: pi_map_def of_lanes_25 lane_at_def)

lemma chi_lanes:
  "chi_map [x0, x1, x2, x3, x4, x5, x6, x7, x8, x9, x10, x11, x12, x13, x14, x15, x16, x17, x18, x19, x20, x21, x22, x23, x24] =
    [x0 XOR (x2 AND NOT x1), x1 XOR (x3 AND NOT x2), x2 XOR (x4 AND NOT x3),
     x3 XOR (x0 AND NOT x4), x4 XOR (x1 AND NOT x0), x5 XOR (x7 AND NOT x6),
     x6 XOR (x8 AND NOT x7), x7 XOR (x9 AND NOT x8), x8 XOR (x5 AND NOT x9),
     x9 XOR (x6 AND NOT x5), x10 XOR (x12 AND NOT x11), x11 XOR (x13 AND NOT x12),
     x12 XOR (x14 AND NOT x13), x13 XOR (x10 AND NOT x14), x14 XOR (x11 AND NOT x10),
     x15 XOR (x17 AND NOT x16), x16 XOR (x18 AND NOT x17), x17 XOR (x19 AND NOT x18),
     x18 XOR (x15 AND NOT x19), x19 XOR (x16 AND NOT x15), x20 XOR (x22 AND NOT x21),
     x21 XOR (x23 AND NOT x22), x22 XOR (x24 AND NOT x23), x23 XOR (x20 AND NOT x24),
     x24 XOR (x21 AND NOT x20)]"
  by (simp add: chi_map_def of_lanes_25 lane_at_def)
lemma arrange_lanes:
  "arrange slots1 [x0, x1, x2, x3, x4, x5, x6, x7, x8, x9, x10, x11, x12, x13, x14, x15, x16, x17, x18, x19, x20, x21, x22, x23, x24] =
    [x0, x11, x22, x8, x19, x15, x1, x12, x23, x9, x5, x16, x2, x13, x24, x20, x6, x17, x3, x14, x10, x21, x7, x18, x4]"
  "arrange slots2 [x0, x1, x2, x3, x4, x5, x6, x7, x8, x9, x10, x11, x12, x13, x14, x15, x16, x17, x18, x19, x20, x21, x22, x23, x24] =
    [x0, x16, x7, x23, x14, x20, x11, x2, x18, x9, x15, x6, x22, x13, x4, x10, x1, x17, x8, x24, x5, x21, x12, x3, x19]"
  "arrange slots3 [x0, x1, x2, x3, x4, x5, x6, x7, x8, x9, x10, x11, x12, x13, x14, x15, x16, x17, x18, x19, x20, x21, x22, x23, x24] =
    [x0, x6, x12, x18, x24, x10, x16, x22, x3, x9, x20, x1, x7, x13, x19, x5, x11, x17, x23, x4, x15, x21, x2, x8, x14]"
  by (simp_all add: arrange_def slots1_def slots2_def slots3_def)

lemma round1_lanes:
  "keccak_round1 ([x0, x1, x2, x3, x4, x5, x6, x7, x8, x9, x10, x11, x12, x13, x14, x15, x16, x17, x18, x19, x20, x21, x22, x23, x24]) k =
    arrange slots1 (keccak_rnd [x0, x1, x2, x3, x4, x5, x6, x7, x8, x9, x10, x11, x12, x13, x14, x15, x16, x17, x18, x19, x20, x21, x22, x23, x24] k)"
  unfolding keccak_round1_def rotl_1
  apply (simp only: lane_simps Let_def cong: let_weak_cong cons_weak)
  apply (simp only: keccak_rnd_def theta_lanes [OF refl] rho_lanes pi_lanes chi_lanes iota_map_def
      arrange_lanes lane_simps cong: cons_weak)
  by (simp only: column_lanes [OF refl] rotl_0 xor.assoc [of _ _ k])

lemma round2_lanes:
  "keccak_round2 [x0, x11, x22, x8, x19, x15, x1, x12, x23, x9, x5, x16, x2, x13, x24, x20, x6, x17, x3, x14, x10, x21, x7, x18, x4] k =
    arrange slots2 (keccak_rnd [x0, x1, x2, x3, x4, x5, x6, x7, x8, x9, x10, x11, x12, x13, x14, x15, x16, x17, x18, x19, x20, x21, x22, x23, x24] k)"
proof -
  have cols:
    "x0 XOR x15 XOR x5 XOR x20 XOR x10 = x0 XOR x5 XOR x10 XOR x15 XOR x20"
    "x11 XOR x1 XOR x16 XOR x6 XOR x21 = x1 XOR x6 XOR x11 XOR x16 XOR x21"
    "x22 XOR x12 XOR x2 XOR x17 XOR x7 = x2 XOR x7 XOR x12 XOR x17 XOR x22"
    "x8 XOR x23 XOR x13 XOR x3 XOR x18 = x3 XOR x8 XOR x13 XOR x18 XOR x23"
    "x19 XOR x9 XOR x24 XOR x14 XOR x4 = x4 XOR x9 XOR x14 XOR x19 XOR x24"
    by (simp_all add: xor.assoc xor.left_commute xor.commute)
  show ?thesis
    unfolding keccak_round2_def rotl_1
    apply (simp only: lane_simps Let_def cong: let_weak_cong cons_weak)
    apply (simp only: keccak_rnd_def theta_lanes [OF refl] rho_lanes pi_lanes chi_lanes iota_map_def
        arrange_lanes lane_simps cong: cons_weak)
    by (simp only: column_lanes [OF refl] rotl_0 xor.assoc [of _ _ k] cols)
qed

lemma round3_lanes:
  "keccak_round3 [x0, x16, x7, x23, x14, x20, x11, x2, x18, x9, x15, x6, x22, x13, x4, x10, x1, x17, x8, x24, x5, x21, x12, x3, x19] k =
    arrange slots3 (keccak_rnd [x0, x1, x2, x3, x4, x5, x6, x7, x8, x9, x10, x11, x12, x13, x14, x15, x16, x17, x18, x19, x20, x21, x22, x23, x24] k)"
proof -
  have cols:
    "x0 XOR x20 XOR x15 XOR x10 XOR x5 = x0 XOR x5 XOR x10 XOR x15 XOR x20"
    "x16 XOR x11 XOR x6 XOR x1 XOR x21 = x1 XOR x6 XOR x11 XOR x16 XOR x21"
    "x7 XOR x2 XOR x22 XOR x17 XOR x12 = x2 XOR x7 XOR x12 XOR x17 XOR x22"
    "x23 XOR x18 XOR x13 XOR x8 XOR x3 = x3 XOR x8 XOR x13 XOR x18 XOR x23"
    "x14 XOR x9 XOR x4 XOR x24 XOR x19 = x4 XOR x9 XOR x14 XOR x19 XOR x24"
    by (simp_all add: xor.assoc xor.left_commute xor.commute)
  show ?thesis
    unfolding keccak_round3_def rotl_1
    apply (simp only: lane_simps Let_def cong: let_weak_cong cons_weak)
    apply (simp only: keccak_rnd_def theta_lanes [OF refl] rho_lanes pi_lanes chi_lanes iota_map_def
        arrange_lanes lane_simps cong: cons_weak)
    by (simp only: column_lanes [OF refl] rotl_0 xor.assoc [of _ _ k] cols)
qed

lemma round4_lanes:
  "keccak_round4 [x0, x6, x12, x18, x24, x10, x16, x22, x3, x9, x20, x1, x7, x13, x19, x5, x11, x17, x23, x4, x15, x21, x2, x8, x14] k =
    keccak_rnd [x0, x1, x2, x3, x4, x5, x6, x7, x8, x9, x10, x11, x12, x13, x14, x15, x16, x17, x18, x19, x20, x21, x22, x23, x24] k"
proof -
  have cols:
    "x0 XOR x10 XOR x20 XOR x5 XOR x15 = x0 XOR x5 XOR x10 XOR x15 XOR x20"
    "x6 XOR x16 XOR x1 XOR x11 XOR x21 = x1 XOR x6 XOR x11 XOR x16 XOR x21"
    "x12 XOR x22 XOR x7 XOR x17 XOR x2 = x2 XOR x7 XOR x12 XOR x17 XOR x22"
    "x18 XOR x3 XOR x13 XOR x23 XOR x8 = x3 XOR x8 XOR x13 XOR x18 XOR x23"
    "x24 XOR x9 XOR x19 XOR x4 XOR x14 = x4 XOR x9 XOR x14 XOR x19 XOR x24"
    by (simp_all add: xor.assoc xor.left_commute xor.commute)
  show ?thesis
    unfolding keccak_round4_def rotl_1
    apply (simp only: lane_simps Let_def cong: let_weak_cong cons_weak)
    apply (simp only: keccak_rnd_def theta_lanes [OF refl] rho_lanes pi_lanes chi_lanes iota_map_def
        list.map lane_simps cong: cons_weak)
    by (simp only: column_lanes [OF refl] rotl_0 xor.assoc [of _ _ k] cols)
qed


subsection \<open>The code computes the specification\<close>

declare keccak_loop.simps [simp del]

lemma length_of_lanes [simp]: "length (of_lanes f) = 25"
  by (simp add: of_lanes_def)

lemma length_keccak_rnd [simp]: "length (keccak_rnd A k) = 25"
  by (simp add: keccak_rnd_def iota_map_def chi_map_def)

lemma in_place_rounds:
  assumes "length A = 25"
  shows "keccak_round1 A k = arrange slots1 (keccak_rnd A k)"
    "keccak_round2 (arrange slots1 A) k = arrange slots2 (keccak_rnd A k)"
    "keccak_round3 (arrange slots2 A) k = arrange slots3 (keccak_rnd A k)"
    "keccak_round4 (arrange slots3 A) k = keccak_rnd A k"
  using assms by (auto elim!: lanes_cases simp: round1_lanes round2_lanes round3_lanes round4_lanes arrange_lanes)

lemma four_rounds:
  assumes "length A = 25"
  shows "keccak_round4 (keccak_round3 (keccak_round2 (keccak_round1 A k1) k2) k3) k4 =
    foldl keccak_rnd A [k1, k2, k3, k4]"
  using assms by (simp add: in_place_rounds)

lemma rc_lfsr: "rc = round_constants 24 1"
  by (simp add: rc_def lfsr_step_def bit_numeral_word_iff eval_nat_numeral)

lemma keccak_loop_spec:
  assumes "length A = 25"
  shows "keccak_loop 0 A = foldl keccak_rnd A rc"
proof -
  have step: "keccak_loop i B = keccak_loop (i + 4) (foldl keccak_rnd B [rc ! i, rc ! (i + 1), rc ! (i + 2), rc ! (i + 3)])"
    if "length B = 25" "i < 24" for i B
    using that by (simp add: keccak_loop.simps [of i B] four_rounds)
  have split: "rc = map ((!) rc) [0, 1, 2, 3, 4, 5, 6, 7, 8, 9, 10, 11, 12, 13, 14, 15, 16, 17, 18, 19, 20, 21, 22, 23]"
    by (simp add: rc_def)
  show ?thesis
    using assms by (subst split) (simp add: step keccak_loop.simps [of 24] numeral_2_eq_2)
qed

text \<open>
  C33. Equivalence with the standard. On every state of 25 lanes the unrolled, in-place
  \<open>keccakF1600\<close> (four rounds per iteration, each leaving its lanes at permuted slots, with a table
  of constants) computes the permutation Keccak-p[1600, 24] of FIPS 202, whose rotation offsets
  and round constants are derived from their definitions.
\<close>
theorem keccakF1600_spec:
  assumes "length a = 25"
  shows "keccakF1600 a = keccak_p a"
  using assms by (simp add: keccakF1600_def keccak_p_def keccak_loop_spec flip: rc_lfsr)

theorem keccakF1600_spec_witness:
  "keccakF1600 (replicate 25 1) = keccak_p (replicate 25 1)"
  by (rule keccakF1600_spec) simp

lemma length_keccakF1600 [simp]: "length a = 25 \<Longrightarrow> length (keccakF1600 a) = 25"
  by (simp add: keccakF1600_def keccak_loop_spec rc_def)

end
