(* ===== verification/Sponge.thy ===== *)
theory Sponge
  imports Keccak_F Go_Std
begin

text \<open>
  The sponge over the Keccak permutation, \<open>quarry/keccak/sha3.go\<close> and \<open>hashes.go\<close>: the record
  \<open>state\<close> with its buffer position, \<open>Write\<close>, \<open>Read\<close>, \<open>Sum\<close>, \<open>Reset\<close> and the binary form of a state.

  A method that may panic or loop returns an optional sum: \<open>None\<close> is a call that never returns,
  \<open>Inl\<close> a panic with its message, \<open>Inr\<close> a normal return. The loops of \<open>Write\<close> and \<open>Read\<close> do not end
  on a state of rate 0, which is why they are partial functions here; on well-formed states
  (\<open>sp_wf\<close>) they return, and agree with the byte-at-a-time description \<open>absorb_byte\<close> and
  \<open>squeeze_byte\<close>. The hash of \<open>NewLegacyKeccak256\<close> is shown to be the sponge construction on padded
  blocks (\<open>keccak256\<close>), however the input is cut into calls of \<open>Write\<close>.
\<close>

type_synonym 'a go_run = "(string + 'a) option"

abbreviation panic :: "string \<Rightarrow> 'a go_run" where
  "panic s \<equiv> Some (Inl s)"

abbreviation returns :: "'a \<Rightarrow> 'a go_run" where
  "returns x \<equiv> Some (Inr x)"

subsection \<open>The state\<close>

datatype direction = SpongeAbsorbing | SpongeSqueezing

record sponge =
  sp_a :: bytes
  sp_n :: nat
  sp_rate :: nat
  sp_dsbyte :: "8 word"
  sp_outlen :: nat
  sp_dir :: direction

definition dsbyteSHA3 :: "8 word" where "dsbyteSHA3 = 6"
definition dsbyteKeccak :: "8 word" where "dsbyteKeccak = 1"
definition dsbyteShake :: "8 word" where "dsbyteShake = 31"
definition dsbyteCShake :: "8 word" where "dsbyteCShake = 4"

definition rateK512 :: nat where "rateK512 = (1600 - 512) div 8"
definition rateK1024 :: nat where "rateK1024 = (1600 - 1024) div 8"

definition new_legacy_keccak256 :: sponge where
  "new_legacy_keccak256 =
    \<lparr>sp_a = replicate 200 0, sp_n = 0, sp_rate = rateK512, sp_dsbyte = dsbyteKeccak, sp_outlen = 32,
     sp_dir = SpongeAbsorbing\<rparr>"

definition new_legacy_keccak512 :: sponge where
  "new_legacy_keccak512 =
    \<lparr>sp_a = replicate 200 0, sp_n = 0, sp_rate = rateK1024, sp_dsbyte = dsbyteKeccak, sp_outlen = 64,
     sp_dir = SpongeAbsorbing\<rparr>"

definition sponge_reset :: "sponge \<Rightarrow> sponge" where
  "sponge_reset d = d\<lparr>sp_a := map (\<lambda>_. 0) (sp_a d), sp_dir := SpongeAbsorbing, sp_n := 0\<rparr>"

text \<open>\<open>binary.LittleEndian\<close>, which on a little-endian machine is the cast of the array.\<close>

definition le64 :: "bytes \<Rightarrow> 64 word" where
  "le64 bs = foldr (\<lambda>b w. push_bit 8 w OR ucast b) bs 0"

definition le64_bytes :: "64 word \<Rightarrow> bytes" where
  "le64_bytes w = map (\<lambda>i. ucast (drop_bit (8 * i) w)) [0..<8]"

definition permute_bytes :: "bytes \<Rightarrow> bytes" where
  "permute_bytes a =
    concat (map le64_bytes (keccakF1600 (map (\<lambda>i. le64 (take 8 (drop (i * 8) a))) [0..<25])))"

definition permute :: "sponge \<Rightarrow> sponge" where
  "permute d = d\<lparr>sp_a := permute_bytes (sp_a d), sp_n := 0\<rparr>"

subsection \<open>Absorbing\<close>

text \<open>\<open>subtle.XORBytes(d.a[n:], d.a[n:], q)\<close> for \<open>q\<close> that fits: the bytes of \<open>q\<close> are xored in at \<open>n\<close>.\<close>

definition xor_at :: "nat \<Rightarrow> bytes \<Rightarrow> bytes \<Rightarrow> bytes" where
  "xor_at n q a = take n a @ map2 (XOR) (take (length q) (drop n a)) q @ drop (n + length q) a"

text \<open>The slice \<open>d.a[d.n:d.rate]\<close> of the array of 200 bytes.\<close>

definition slice_ok :: "sponge \<Rightarrow> bool" where
  "slice_ok d \<longleftrightarrow> sp_n d \<le> sp_rate d \<and> sp_rate d \<le> length (sp_a d)"

definition slice_panic :: string where
  "slice_panic = ''runtime error: slice bounds out of range''"

definition index_panic :: string where
  "index_panic = ''runtime error: index out of range''"

partial_function (option) absorb :: "sponge \<Rightarrow> bytes \<Rightarrow> sponge go_run" where
  "absorb d p =
    (if p = [] then returns d
     else if \<not> slice_ok d then panic slice_panic
     else
       let x = min (sp_rate d - sp_n d) (length p);
           d = d\<lparr>sp_a := xor_at (sp_n d) (take x p) (sp_a d), sp_n := sp_n d + x\<rparr>;
           p = drop x p
       in absorb (if sp_n d = sp_rate d then permute d else d) p)"

definition sponge_write :: "sponge \<Rightarrow> bytes \<Rightarrow> (sponge \<times> nat) go_run" where
  "sponge_write d p =
    (if sp_dir d \<noteq> SpongeAbsorbing then panic ''sha3: Write after Read''
     else case absorb d p of
       None \<Rightarrow> None
     | Some (Inl e) \<Rightarrow> panic e
     | Some (Inr d') \<Rightarrow> returns (d', length p))"

subsection \<open>Padding and squeezing\<close>

definition pad_and_permute :: "sponge \<Rightarrow> sponge go_run" where
  "pad_and_permute d =
    (if length (sp_a d) \<le> sp_n d then panic index_panic
     else
       let d = d\<lparr>sp_a := (sp_a d)[sp_n d := sp_a d ! sp_n d XOR sp_dsbyte d]\<rparr>
       in if sp_rate d = 0 \<or> length (sp_a d) < sp_rate d then panic index_panic
          else
            let d = d\<lparr>sp_a := (sp_a d)[sp_rate d - 1 := sp_a d ! (sp_rate d - 1) XOR 0x80]\<rparr>
            in returns ((permute d)\<lparr>sp_dir := SpongeSqueezing\<rparr>))"

partial_function (option) squeeze :: "sponge \<Rightarrow> nat \<Rightarrow> bytes \<Rightarrow> (sponge \<times> bytes) go_run" where
  "squeeze d k out =
    (if k = 0 then returns (d, out)
     else
       let d = (if sp_n d = sp_rate d then permute d else d)
       in if \<not> slice_ok d then panic slice_panic
          else
            let x = min k (sp_rate d - sp_n d)
            in squeeze (d\<lparr>sp_n := sp_n d + x\<rparr>) (k - x) (out @ take x (drop (sp_n d) (sp_a d))))"

text \<open>\<open>Read(out)\<close> with \<open>len(out) = k\<close>; the bytes it fills in are part of the result.\<close>

definition sponge_read :: "sponge \<Rightarrow> nat \<Rightarrow> (sponge \<times> bytes) go_run" where
  "sponge_read d k =
    (case (if sp_dir d = SpongeAbsorbing then pad_and_permute d else returns d) of
       None \<Rightarrow> None
     | Some (Inl e) \<Rightarrow> panic e
     | Some (Inr d) \<Rightarrow> squeeze d k [])"

definition sponge_sum :: "sponge \<Rightarrow> bytes \<Rightarrow> bytes go_run" where
  "sponge_sum d in_bytes =
    (if sp_dir d \<noteq> SpongeAbsorbing then panic ''sha3: Sum after Read''
     else case sponge_read d (sp_outlen d) of
       None \<Rightarrow> None
     | Some (Inl e) \<Rightarrow> panic e
     | Some (Inr (_, hash)) \<Rightarrow> returns (in_bytes @ hash))"

subsection \<open>The binary form of a state\<close>

definition magicSHA3 :: bytes where "magicSHA3 = bytes_of ''sha'' @ [0x08]"
definition magicShake :: bytes where "magicShake = bytes_of ''sha'' @ [0x09]"
definition magicCShake :: bytes where "magicCShake = bytes_of ''sha'' @ [0x0a]"
definition magicKeccak :: bytes where "magicKeccak = bytes_of ''sha'' @ [0x0b]"

definition marshaledSize :: nat where
  "marshaledSize = length magicSHA3 + 1 + 200 + 1 + 1"

definition direction_byte :: "direction \<Rightarrow> 8 word" where
  "direction_byte s = (case s of SpongeAbsorbing \<Rightarrow> 0 | SpongeSqueezing \<Rightarrow> 1)"

definition append_binary :: "sponge \<Rightarrow> bytes \<Rightarrow> bytes go_run" where
  "append_binary d b =
    (let rest = [word_of_nat (sp_rate d)] @ sp_a d @ [word_of_nat (sp_n d), direction_byte (sp_dir d)]
     in if sp_dsbyte d = dsbyteSHA3 then returns (b @ magicSHA3 @ rest)
        else if sp_dsbyte d = dsbyteShake then returns (b @ magicShake @ rest)
        else if sp_dsbyte d = dsbyteCShake then returns (b @ magicCShake @ rest)
        else if sp_dsbyte d = dsbyteKeccak then returns (b @ magicKeccak @ rest)
        else panic ''unknown dsbyte'')"

definition marshal_binary :: "sponge \<Rightarrow> bytes go_run" where
  "marshal_binary d = append_binary d []"

definition invalid_state :: go_error where
  "invalid_state = Errorf ''sha3: invalid hash state'' []"

definition unmarshal_binary :: "sponge \<Rightarrow> bytes \<Rightarrow> sponge outcome" where
  "unmarshal_binary d b =
    (if length b \<noteq> marshaledSize then fail d invalid_state
     else
       let magic = take (length magicSHA3) b; b = drop (length magicSHA3) b
       in if \<not> (magic = magicSHA3 \<and> sp_dsbyte d = dsbyteSHA3 \<or> magic = magicShake \<and> sp_dsbyte d = dsbyteShake \<or>
                magic = magicCShake \<and> sp_dsbyte d = dsbyteCShake \<or> magic = magicKeccak \<and> sp_dsbyte d = dsbyteKeccak)
          then fail d (Errorf ''sha3: invalid hash state identifier'' [])
          else
            let rate = unat (b ! 0); b = drop 1 b
            in if rate \<noteq> sp_rate d then fail d (Errorf ''sha3: invalid hash state function'' [])
               else
                 let d = d\<lparr>sp_a := take (length (sp_a d)) b\<rparr>; b = drop (length (sp_a d)) b;
                     n = unat (b ! 0); st = b ! 1
                 in if sp_rate d < n then fail d invalid_state
                    else
                      let d = d\<lparr>sp_n := n\<rparr>
                      in if st = 0 then ok (d\<lparr>sp_dir := SpongeAbsorbing\<rparr>)
                         else if st = 1 then ok (d\<lparr>sp_dir := SpongeSqueezing\<rparr>)
                         else fail d invalid_state)"

subsection \<open>Byte by byte\<close>

definition sp_wf :: "sponge \<Rightarrow> bool" where
  "sp_wf d \<longleftrightarrow> length (sp_a d) = 200 \<and> 0 < sp_rate d \<and> sp_rate d \<le> 200 \<and>
    (case sp_dir d of SpongeAbsorbing \<Rightarrow> sp_n d < sp_rate d | SpongeSqueezing \<Rightarrow> sp_n d \<le> sp_rate d)"

definition absorb_byte :: "sponge \<Rightarrow> 8 word \<Rightarrow> sponge" where
  "absorb_byte d b =
    (let d = d\<lparr>sp_a := (sp_a d)[sp_n d := sp_a d ! sp_n d XOR b], sp_n := sp_n d + 1\<rparr>
     in if sp_n d = sp_rate d then permute d else d)"

definition squeeze_byte :: "sponge \<Rightarrow> sponge \<times> 8 word" where
  "squeeze_byte d =
    (let d = (if sp_n d = sp_rate d then permute d else d)
     in (d\<lparr>sp_n := sp_n d + 1\<rparr>, sp_a d ! sp_n d))"

fun squeeze_bytes :: "nat \<Rightarrow> sponge \<Rightarrow> sponge \<times> bytes" where
  "squeeze_bytes 0 d = (d, [])"
| "squeeze_bytes (Suc k) d =
    (let (d, b) = squeeze_byte d; (d, bs) = squeeze_bytes k d in (d, b # bs))"

lemma length_le64_bytes [simp]: "length (le64_bytes w) = 8"
  by (simp add: le64_bytes_def)

lemma length_concat_le64 [simp]: "length (concat (map le64_bytes ws)) = 8 * length ws"
  by (induction ws) simp_all

lemma length_permute_bytes [simp]: "length (permute_bytes a) = 200"
  by (simp add: permute_bytes_def)

lemma permute_simps [simp]:
  "sp_a (permute d) = permute_bytes (sp_a d)" "sp_n (permute d) = 0" "sp_rate (permute d) = sp_rate d"
  "sp_dsbyte (permute d) = sp_dsbyte d" "sp_outlen (permute d) = sp_outlen d" "sp_dir (permute d) = sp_dir d"
  by (simp_all add: permute_def)

lemma length_xor_at [simp]: "n + length q \<le> length a \<Longrightarrow> length (xor_at n q a) = length a"
  by (simp add: xor_at_def)

lemma nth_xor_at:
  assumes "n + length q \<le> length a" "i < length a"
  shows "xor_at n q a ! i = (if n \<le> i \<and> i < n + length q then a ! i XOR q ! (i - n) else a ! i)"
  using assms by (auto simp: xor_at_def nth_append)

lemma xor_at_Nil [simp]: "xor_at n [] a = a"
  by (simp add: xor_at_def)

lemma xor_at_snoc:
  assumes "n + length q < length a"
  shows "xor_at n (q @ [b]) a = (xor_at n q a)[n + length q := xor_at n q a ! (n + length q) XOR b]"
proof (rule nth_equalityI)
  fix i assume "i < length (xor_at n (q @ [b]) a)"
  then have "i < length a" using assms by simp
  with assms show "xor_at n (q @ [b]) a ! i =
      (xor_at n q a)[n + length q := xor_at n q a ! (n + length q) XOR b] ! i"
    by (cases "i = n + length q") (auto simp: nth_xor_at nth_append)
qed (use assms in simp)

lemma xor_at_append:
  assumes "n + length p + length q \<le> length a"
  shows "xor_at n (p @ q) a = xor_at (n + length p) q (xor_at n p a)"
proof (rule nth_equalityI)
  fix i assume "i < length (xor_at n (p @ q) a)"
  then have "i < length a" using assms by simp
  with assms show "xor_at n (p @ q) a ! i = xor_at (n + length p) q (xor_at n p a) ! i"
    by (cases "i < n + length p") (auto simp: nth_xor_at nth_append diff_diff_eq)
qed (use assms in simp)

lemma absorb_chunk:
  assumes "sp_n d + length q < sp_rate d" "sp_rate d \<le> length (sp_a d)"
  shows "foldl absorb_byte d q = d\<lparr>sp_a := xor_at (sp_n d) q (sp_a d), sp_n := sp_n d + length q\<rparr>"
  using assms by (induction q rule: rev_induct) (simp_all add: absorb_byte_def xor_at_snoc)

lemma absorb_chunk_full:
  assumes "sp_n d + length q = sp_rate d" "sp_rate d \<le> length (sp_a d)" "q \<noteq> []"
  shows "foldl absorb_byte d q =
    permute (d\<lparr>sp_a := xor_at (sp_n d) q (sp_a d), sp_n := sp_n d + length q\<rparr>)"
proof -
  obtain p b where q: "q = p @ [b]" using \<open>q \<noteq> []\<close> by (cases q rule: rev_cases) auto
  with assms have p: "sp_n d + length p < sp_rate d" by simp
  from absorb_chunk [OF p] assms q show ?thesis
    by (simp add: absorb_byte_def xor_at_snoc)
qed

lemma absorb_byte_wf:
  assumes "sp_wf d" "sp_dir d = SpongeAbsorbing"
  shows "sp_wf (absorb_byte d b)" "sp_dir (absorb_byte d b) = SpongeAbsorbing"
    "sp_rate (absorb_byte d b) = sp_rate d" "sp_dsbyte (absorb_byte d b) = sp_dsbyte d"
    "sp_outlen (absorb_byte d b) = sp_outlen d"
  using assms by (auto simp: absorb_byte_def sp_wf_def Let_def)

lemma absorb_bytes_wf:
  assumes "sp_wf d" "sp_dir d = SpongeAbsorbing"
  shows "sp_wf (foldl absorb_byte d q) \<and> sp_dir (foldl absorb_byte d q) = SpongeAbsorbing \<and>
    sp_rate (foldl absorb_byte d q) = sp_rate d \<and> sp_dsbyte (foldl absorb_byte d q) = sp_dsbyte d \<and>
    sp_outlen (foldl absorb_byte d q) = sp_outlen d"
  using assms by (induction q rule: rev_induct) (simp_all add: absorb_byte_wf)

lemma absorb_bytewise:
  assumes "sp_wf d" "sp_dir d = SpongeAbsorbing"
  shows "absorb d p = returns (foldl absorb_byte d p)"
  using assms
proof (induction "length p" arbitrary: d p rule: less_induct)
  case less
  have wf: "length (sp_a d) = 200" "sp_n d < sp_rate d" "sp_rate d \<le> 200"
    using less.prems by (auto simp: sp_wf_def)
  show ?case
  proof (cases "p = []")
    case True
    then show ?thesis by (simp add: absorb.simps)
  next
    case False
    define x where "x = min (sp_rate d - sp_n d) (length p)"
    have x: "0 < x" "x \<le> length p" "sp_n d + x \<le> sp_rate d" using False wf by (auto simp: x_def)
    let ?e = "d\<lparr>sp_a := xor_at (sp_n d) (take x p) (sp_a d), sp_n := sp_n d + x\<rparr>"
    have fold: "foldl absorb_byte d (take x p) = (if sp_n d + x = sp_rate d then permute ?e else ?e)"
      using x wf absorb_chunk_full [of d "take x p"] absorb_chunk [of d "take x p"] False by auto
    have "absorb d p = absorb (foldl absorb_byte d (take x p)) (drop x p)"
      using False wf by (subst absorb.simps) (simp add: slice_ok_def Let_def fold flip: x_def)
    also have "\<dots> = returns (foldl absorb_byte (foldl absorb_byte d (take x p)) (drop x p))"
      using x absorb_bytes_wf [OF less.prems, of "take x p"] by (intro less.hyps) auto
    finally show ?thesis
      by (simp flip: foldl_append)
  qed
qed

lemma write_bytewise:
  assumes "sp_wf d" "sp_dir d = SpongeAbsorbing"
  shows "sponge_write d p = returns (foldl absorb_byte d p, length p)"
  using assms by (simp add: sponge_write_def absorb_bytewise)

lemma squeeze_bytes_add:
  "squeeze_bytes (j + k) d =
    (let (d, b1) = squeeze_bytes j d; (d, b2) = squeeze_bytes k d in (d, b1 @ b2))"
  by (induction j arbitrary: d) (auto simp: Let_def split: prod.splits)

lemma squeeze_chunk:
  assumes "sp_n d + k \<le> sp_rate d" "sp_rate d \<le> length (sp_a d)"
  shows "squeeze_bytes k d = (d\<lparr>sp_n := sp_n d + k\<rparr>, take k (drop (sp_n d) (sp_a d)))"
  using assms
proof (induction k arbitrary: d)
  case (Suc k)
  then have "sp_n d < length (sp_a d)" by simp
  then have "take (Suc k) (drop (sp_n d) (sp_a d)) =
      sp_a d ! sp_n d # take k (drop (sp_n d + 1) (sp_a d))"
    by (simp flip: Cons_nth_drop_Suc)
  with Suc show ?case
    by (simp add: squeeze_byte_def Let_def)
qed simp

definition squeezing :: "sponge \<Rightarrow> bool" where
  "squeezing d \<longleftrightarrow> sp_wf d \<and> sp_dir d = SpongeSqueezing"

lemma squeeze_bytewise:
  assumes "squeezing d"
  shows "squeeze d k out = returns (map_prod id (\<lambda>bs. out @ bs) (squeeze_bytes k d))"
  using assms
proof (induction k arbitrary: d out rule: less_induct)
  case (less k)
  show ?case
  proof (cases "k = 0")
    case True
    then show ?thesis by (simp add: squeeze.simps)
  next
    case False
    define e where "e = (if sp_n d = sp_rate d then permute d else d)"
    define x where "x = min k (sp_rate d - sp_n e)"
    have e: "squeezing e" "sp_n e < sp_rate e" "sp_rate e = sp_rate d" "sp_rate e \<le> length (sp_a e)"
      using less.prems by (auto simp: e_def squeezing_def sp_wf_def)
    have x: "0 < x" "x \<le> k" "sp_n e + x \<le> sp_rate e" using False e by (auto simp: x_def)
    let ?f = "e\<lparr>sp_n := sp_n e + x\<rparr>"
    have f: "squeezing ?f" using e x by (auto simp: squeezing_def sp_wf_def)
    have start: "squeeze_bytes j d = squeeze_bytes j e" if "0 < j" for j
      using that e less.prems by (cases j) (auto simp: squeeze_byte_def e_def Let_def)
    have "squeeze d k out = squeeze ?f (k - x) (out @ take x (drop (sp_n e) (sp_a e)))"
      using False e by (subst squeeze.simps) (simp add: slice_ok_def x_def Let_def flip: e_def)
    also have "\<dots> = returns (map_prod id (\<lambda>bs. (out @ take x (drop (sp_n e) (sp_a e))) @ bs) (squeeze_bytes (k - x) ?f))"
      using x False by (intro less.IH f) auto
    finally have "squeeze d k out = \<dots>" .
    moreover have "squeeze_bytes k d =
        map_prod id (\<lambda>bs. take x (drop (sp_n e) (sp_a e)) @ bs) (squeeze_bytes (k - x) ?f)"
      using squeeze_bytes_add [of x "k - x" e] squeeze_chunk [of e x] start False x e
      by (simp add: map_prod_def)
    ultimately show ?thesis
      by (simp add: prod.map_comp comp_def id_def)
  qed
qed

subsection \<open>The sponge construction on blocks\<close>

text \<open>
  The construction of FIPS 202, section 4, for a rate of \<open>r\<close> bytes: the padded message is cut into
  blocks of \<open>r\<close> bytes, each xored into the state before it is permuted. The padding is the byte \<open>ds\<close>
  (domain bits and first padding bit), zeros, and the final bit, which may share a byte with \<open>ds\<close>.
\<close>

definition pad_bytes :: "nat \<Rightarrow> 8 word \<Rightarrow> bytes" where
  "pad_bytes k ds = (if k = 1 then [ds XOR 0x80] else [ds] @ replicate (k - 2) 0 @ [0x80])"

definition keccak_pad :: "nat \<Rightarrow> 8 word \<Rightarrow> bytes \<Rightarrow> bytes" where
  "keccak_pad r ds m = m @ pad_bytes (r - length m mod r) ds"

fun absorb_blocks :: "nat \<Rightarrow> bytes \<Rightarrow> bytes \<Rightarrow> bytes" where
  "absorb_blocks r s m =
    (if m = [] \<or> r = 0 then s else absorb_blocks r (permute_bytes (xor_at 0 (take r m) s)) (drop r m))"

declare absorb_blocks.simps [simp del]

definition sponge_hash :: "nat \<Rightarrow> 8 word \<Rightarrow> nat \<Rightarrow> bytes \<Rightarrow> bytes" where
  "sponge_hash r ds k m = take k (absorb_blocks r (replicate 200 0) (keccak_pad r ds m))"

definition keccak256 :: "bytes \<Rightarrow> bytes" where
  "keccak256 m = sponge_hash 136 1 32 m"

lemma absorb_blocks_Nil [simp]: "absorb_blocks r s [] = s"
  by (simp add: absorb_blocks.simps)

lemma absorb_blocks_append:
  assumes "r dvd length m"
  shows "absorb_blocks r s (m @ m') = absorb_blocks r (absorb_blocks r s m) m'"
  using assms
proof (induction r s m rule: absorb_blocks.induct)
  case (1 r s m)
  show ?case
  proof (cases "m = [] \<or> r = 0")
    case True
    then show ?thesis using 1 by auto
  next
    case False
    with 1 have "r \<le> length m" by (auto dest: dvd_imp_le)
    with 1 False show ?thesis
      by (simp add: absorb_blocks.simps [of r s m] absorb_blocks.simps [of r s "m @ m'"] dvd_minus_self)
  qed
qed

lemma absorb_blocks_one:
  assumes "length m = r" "0 < r"
  shows "absorb_blocks r s m = permute_bytes (xor_at 0 m s)"
  using assms by (subst absorb_blocks.simps) auto

lemma length_absorb_blocks [simp]: "length s = 200 \<Longrightarrow> length (absorb_blocks r s m) = 200"
  by (induction r s m rule: absorb_blocks.induct) (subst absorb_blocks.simps, simp)

text \<open>The state after the bytes \<open>m\<close>: the full blocks are absorbed, the rest is xored in.\<close>

definition full_part :: "nat \<Rightarrow> bytes \<Rightarrow> bytes" where
  "full_part r m = take (r * (length m div r)) m"

definition rest_part :: "nat \<Rightarrow> bytes \<Rightarrow> bytes" where
  "rest_part r m = drop (r * (length m div r)) m"

lemma parts [simp]:
  "full_part r m @ rest_part r m = m" "length (rest_part r m) = length m mod r" "r dvd length (full_part r m)"
  by (simp_all add: full_part_def rest_part_def minus_mult_div_eq_mod)

lemma parts_unique:
  assumes "m = p @ q" "r dvd length p" "length q < r"
  shows "full_part r m = p" "rest_part r m = q"
proof -
  obtain k where "length p = r * k" using assms(2) by (elim dvdE)
  then have "length m div r = k" using assms by simp
  then show "full_part r m = p" "rest_part r m = q"
    using assms \<open>length p = r * k\<close> by (simp_all add: full_part_def rest_part_def)
qed

lemma absorbed_state:
  assumes "sp_dir d = SpongeAbsorbing" "sp_n d = 0" "0 < sp_rate d" "sp_rate d \<le> 200" "length (sp_a d) = 200"
  defines "r \<equiv> sp_rate d"
  shows "foldl absorb_byte d m =
    d\<lparr>sp_a := xor_at 0 (rest_part r m) (absorb_blocks r (sp_a d) (full_part r m)), sp_n := length m mod r\<rparr>"
proof (induction m rule: rev_induct)
  case Nil
  then show ?case using assms by (simp add: full_part_def rest_part_def)
next
  case (snoc b m)
  let ?f = "full_part r m" and ?q = "rest_part r m"
  let ?A = "absorb_blocks r (sp_a d) ?f"
  have r: "0 < r" "r \<le> 200" using assms by simp_all
  have q: "length ?q < r" using r by simp
  have step: "foldl absorb_byte d (m @ [b]) = absorb_byte (d\<lparr>sp_a := xor_at 0 ?q ?A, sp_n := length m mod r\<rparr>) b"
    using snoc by simp
  have upd: "(xor_at 0 ?q ?A)[length m mod r := xor_at 0 ?q ?A ! (length m mod r) XOR b] = xor_at 0 (?q @ [b]) ?A"
    using xor_at_snoc [of 0 ?q ?A b] less_le_trans [OF q r(2)] assms by simp
  show ?case
  proof (cases "length m mod r + 1 = r")
    case True
    then have len: "length (m @ [b]) mod r = 0" by (simp add: mod_Suc)
    then have f: "full_part r (m @ [b]) = m @ [b]" "rest_part r (m @ [b]) = []"
      using parts_unique [of "m @ [b]" "m @ [b]" "[]" r] r by auto
    have "m @ [b] = ?f @ (?q @ [b])" by (simp flip: append_assoc)
    moreover have "absorb_blocks r (sp_a d) (?f @ (?q @ [b])) = permute_bytes (xor_at 0 (?q @ [b]) ?A)"
      using True r absorb_blocks_one [of "?q @ [b]" r ?A] by (simp only: absorb_blocks_append parts) simp
    ultimately have "absorb_blocks r (sp_a d) (m @ [b]) = permute_bytes (xor_at 0 (?q @ [b]) ?A)"
      by metis
    then show ?thesis
      unfolding step using upd True assms f len by (simp add: absorb_byte_def permute_def)
  next
    case False
    then have "length ?q + 1 < r" using q by simp
    then have f: "full_part r (m @ [b]) = ?f" "rest_part r (m @ [b]) = ?q @ [b]"
      using parts_unique [of "m @ [b]" ?f "?q @ [b]" r] by (simp_all add: flip: append_assoc)
    have "length (m @ [b]) mod r = length m mod r + 1" using False by (simp add: mod_Suc)
    then show ?thesis
      unfolding step using upd False assms f by (simp add: absorb_byte_def)
  qed
qed

lemma length_pad_bytes [simp]: "0 < k \<Longrightarrow> length (pad_bytes k ds) = k"
  by (auto simp: pad_bytes_def)

lemma nth_pad_bytes:
  assumes "i < k"
  shows "pad_bytes k ds ! i = (if i = 0 then ds else 0) XOR (if i = k - 1 then 0x80 else 0)"
  using assms by (auto simp: pad_bytes_def nth_Cons nth_append split: nat.splits)

lemma pad_xor:
  assumes "n < r" "r \<le> length a"
  shows "(a[n := a ! n XOR ds])[r - 1 := a[n := a ! n XOR ds] ! (r - 1) XOR 0x80] = xor_at n (pad_bytes (r - n) ds) a"
proof (rule nth_equalityI)
  fix i assume i: "i < length ((a[n := a ! n XOR ds])[r - 1 := a[n := a ! n XOR ds] ! (r - 1) XOR 0x80])"
  then have i: "i < length a" by simp
  have x: "xor_at n (pad_bytes (r - n) ds) a ! i =
      (if n \<le> i \<and> i < r then a ! i XOR pad_bytes (r - n) ds ! (i - n) else a ! i)"
    using assms i by (simp add: nth_xor_at)
  consider "i < n" | "n \<le> i" "i < r - 1" | "i = r - 1" | "r \<le> i" using assms by linarith
  then show "(a[n := a ! n XOR ds])[r - 1 := a[n := a ! n XOR ds] ! (r - 1) XOR 0x80] ! i =
      xor_at n (pad_bytes (r - n) ds) a ! i"
    using assms i unfolding x by cases (auto simp: nth_pad_bytes nth_list_update xor.assoc)
qed (use assms in simp)

lemma padded_state:
  assumes "sp_dir d = SpongeAbsorbing" "sp_n d = 0" "0 < sp_rate d" "sp_rate d \<le> 200" "length (sp_a d) = 200"
  shows "pad_and_permute (foldl absorb_byte d m) =
    returns (d\<lparr>sp_a := absorb_blocks (sp_rate d) (sp_a d) (keccak_pad (sp_rate d) (sp_dsbyte d) m), sp_n := 0,
               sp_dir := SpongeSqueezing\<rparr>)"
proof -
  define r where "r = sp_rate d"
  let ?f = "full_part r m" and ?q = "rest_part r m" and ?p = "pad_bytes (r - length m mod r) (sp_dsbyte d)"
  let ?A = "absorb_blocks r (sp_a d) ?f"
  have r: "0 < r" "r \<le> 200" "length m mod r < r" using assms by (simp_all add: r_def)
  have block: "length (?q @ ?p) = r" using r by simp
  have "keccak_pad r (sp_dsbyte d) m = ?f @ (?q @ ?p)"
    by (simp add: keccak_pad_def flip: append_assoc)
  then have blocks: "absorb_blocks r (sp_a d) (keccak_pad r (sp_dsbyte d) m) = permute_bytes (xor_at 0 (?q @ ?p) ?A)"
    using absorb_blocks_one [OF block r(1)] by (simp only: absorb_blocks_append parts)
  have "xor_at 0 (?q @ ?p) ?A = xor_at (length m mod r) ?p (xor_at 0 ?q ?A)"
    using xor_at_append [of 0 ?q ?p ?A] assms r by simp
  moreover have "length m mod r < 200" "length (xor_at 0 ?q ?A) = 200" using r assms by simp_all
  ultimately show ?thesis
    unfolding absorbed_state [OF assms] blocks [unfolded r_def]
    using pad_xor [of "length m mod r" r "xor_at 0 ?q ?A" "sp_dsbyte d"] r
    by (simp add: pad_and_permute_def Let_def permute_def flip: r_def)
qed

lemma sum_absorbed:
  assumes "sp_dir d = SpongeAbsorbing" "sp_n d = 0" "0 < sp_rate d" "sp_rate d \<le> 200" "length (sp_a d) = 200"
    "sp_outlen d \<le> sp_rate d"
  shows "sponge_sum (foldl absorb_byte d m) ib =
    returns (ib @ take (sp_outlen d) (absorb_blocks (sp_rate d) (sp_a d) (keccak_pad (sp_rate d) (sp_dsbyte d) m)))"
proof -
  let ?e = "d\<lparr>sp_a := absorb_blocks (sp_rate d) (sp_a d) (keccak_pad (sp_rate d) (sp_dsbyte d) m), sp_n := 0,
               sp_dir := SpongeSqueezing\<rparr>"
  have "squeezing ?e" using assms by (simp add: squeezing_def sp_wf_def)
  then have "squeeze ?e (sp_outlen d) [] = returns (?e\<lparr>sp_n := sp_outlen d\<rparr>, take (sp_outlen d) (sp_a ?e))"
    using assms by (simp add: squeeze_bytewise squeeze_chunk)
  moreover have "sp_dir (foldl absorb_byte d m) = SpongeAbsorbing \<and> sp_outlen (foldl absorb_byte d m) = sp_outlen d"
    using absorb_bytes_wf [of d m] assms by (simp add: sp_wf_def)
  ultimately show ?thesis
    using padded_state [OF assms(1-5), of m] by (simp add: sponge_sum_def sponge_read_def)
qed

subsection \<open>The hash interface\<close>

text \<open>A sequence of calls of \<open>Write\<close>, then \<open>Sum(nil)\<close>: how the clients use the hash.\<close>

fun write_all :: "sponge \<Rightarrow> bytes list \<Rightarrow> sponge go_run" where
  "write_all d [] = returns d"
| "write_all d (p # ps) =
    (case sponge_write d p of
       None \<Rightarrow> None
     | Some (Inl e) \<Rightarrow> panic e
     | Some (Inr (d', _)) \<Rightarrow> write_all d' ps)"

definition keccak_sum :: "bytes list \<Rightarrow> bytes" where
  "keccak_sum ps =
    (case write_all new_legacy_keccak256 ps of
       Some (Inr d) \<Rightarrow> (case sponge_sum d [] of Some (Inr s) \<Rightarrow> s | _ \<Rightarrow> [])
     | _ \<Rightarrow> [])"

lemma write_all_bytewise:
  assumes "sp_wf d" "sp_dir d = SpongeAbsorbing"
  shows "write_all d ps = returns (foldl absorb_byte d (concat ps))"
  using assms
proof (induction ps arbitrary: d)
  case (Cons p ps)
  then show ?case using absorb_bytes_wf [of d p] by (simp add: write_bytewise)
qed simp

lemma new_legacy_keccak256_wf:
  "sp_wf new_legacy_keccak256" "sp_dir new_legacy_keccak256 = SpongeAbsorbing" "sp_n new_legacy_keccak256 = 0"
  "sp_rate new_legacy_keccak256 = 136" "sp_a new_legacy_keccak256 = replicate 200 0"
  "sp_outlen new_legacy_keccak256 = 32" "sp_dsbyte new_legacy_keccak256 = 1"
  by (simp_all add: sp_wf_def new_legacy_keccak256_def rateK512_def dsbyteKeccak_def)

lemma new_legacy_keccak256_sum:
  "sponge_sum (foldl absorb_byte new_legacy_keccak256 m) ib = returns (ib @ keccak256 m)"
  using sum_absorbed [of new_legacy_keccak256 m ib] new_legacy_keccak256_wf
  by (simp add: keccak256_def sponge_hash_def)

lemma keccak_sum: "keccak_sum ps = keccak256 (concat ps)"
  using new_legacy_keccak256_wf
  by (simp add: keccak_sum_def write_all_bytewise new_legacy_keccak256_sum)

lemma length_keccak256 [simp]: "length (keccak256 m) = 32"
  by (simp add: keccak256_def sponge_hash_def)

subsection \<open>Properties\<close>

text \<open>
  C32. Equivalence with the sponge construction. However the input of \<open>NewLegacyKeccak256\<close> is cut into
  calls of \<open>Write\<close>, every call returns, and \<open>Sum\<close> appends the 32 bytes of Keccak-256 of the whole
  input: pad with \<open>0x01 0x00 .. 0x80\<close> to blocks of 136 bytes, xor each into the state, permute, take
  the first 32 bytes.
\<close>
theorem keccak256_streams:
  "\<exists>d. write_all new_legacy_keccak256 ps = returns d \<and>
    sponge_sum d ib = returns (ib @ take 32 (absorb_blocks 136 (replicate 200 0) (keccak_pad 136 1 (concat ps))))"
  using new_legacy_keccak256_wf new_legacy_keccak256_sum [of "concat ps" ib]
  by (simp add: write_all_bytewise keccak256_def sponge_hash_def)

lemma squeeze_bytes_wf:
  assumes "squeezing d" "squeeze_bytes k d = (d', bs)"
  shows "squeezing d' \<and> length bs = k \<and> sp_rate d' = sp_rate d"
  using assms
proof (induction k arbitrary: d d' bs)
  case (Suc k)
  obtain e b where e: "squeeze_byte d = (e, b)" by fastforce
  then have "squeezing e" "sp_rate e = sp_rate d"
    using Suc.prems by (auto simp: squeeze_byte_def squeezing_def sp_wf_def Let_def)
  moreover obtain d1 cs where "squeeze_bytes k e = (d1, cs)" by fastforce
  ultimately show ?case
    using Suc.IH [of e d1 cs] Suc.prems e by auto
qed simp

lemma squeeze_all:
  assumes "squeezing d"
  shows "squeeze d k [] = returns (squeeze_bytes k d)"
  using assms by (cases "squeeze_bytes k d") (simp add: squeeze_bytewise)

lemma pad_and_permute_wf:
  assumes "sp_wf d" "sp_dir d = SpongeAbsorbing"
  obtains d' where "pad_and_permute d = returns d'" "squeezing d'"
  using assms by (auto simp: pad_and_permute_def sp_wf_def squeezing_def Let_def)

lemma read_bytewise:
  assumes "sp_wf d"
  obtains e where "squeezing e"
    "\<And>k. sponge_read d k = returns (squeeze_bytes k e)"
    "sp_dir d = SpongeSqueezing \<Longrightarrow> e = d"
proof (cases "sp_dir d")
  case SpongeAbsorbing
  with assms obtain e where e: "pad_and_permute d = returns e" "squeezing e" by (elim pad_and_permute_wf)
  with SpongeAbsorbing show thesis
    by (intro that [of e]) (simp_all add: sponge_read_def squeeze_all)
next
  case SpongeSqueezing
  with assms have "squeezing d" by (simp add: squeezing_def)
  with SpongeSqueezing show thesis
    by (intro that [of d]) (simp_all add: sponge_read_def squeeze_all)
qed

lemma sponge_cases:
  assumes "sp_wf d"
  shows "sponge_write d p =
      (if sp_dir d = SpongeAbsorbing then returns (foldl absorb_byte d p, length p)
       else panic ''sha3: Write after Read'')"
    and "sp_dir d = SpongeAbsorbing \<longrightarrow> sp_wf (foldl absorb_byte d p)"
    and "\<exists>d' out. sponge_read d k = returns (d', out) \<and> length out = k \<and> sp_wf d' \<and> sp_dir d' = SpongeSqueezing"
    and "if sp_dir d = SpongeAbsorbing
      then \<exists>s. sponge_sum d ib = returns (ib @ s) \<and> length s = sp_outlen d
      else sponge_sum d ib = panic ''sha3: Sum after Read''"
proof -
  show "sponge_write d p =
      (if sp_dir d = SpongeAbsorbing then returns (foldl absorb_byte d p, length p)
       else panic ''sha3: Write after Read'')"
    using assms by (cases "sp_dir d") (simp add: write_bytewise, simp add: sponge_write_def)
  show "sp_dir d = SpongeAbsorbing \<longrightarrow> sp_wf (foldl absorb_byte d p)"
    using absorb_bytes_wf [OF assms] by blast
  obtain e where e: "squeezing e" "\<And>k. sponge_read d k = returns (squeeze_bytes k e)"
    using read_bytewise [OF assms] by blast
  then show "\<exists>d' out. sponge_read d k = returns (d', out) \<and> length out = k \<and> sp_wf d' \<and> sp_dir d' = SpongeSqueezing"
    using squeeze_bytes_wf [of e k] by (cases "squeeze_bytes k e") (auto simp: squeezing_def)
  show "if sp_dir d = SpongeAbsorbing
      then \<exists>s. sponge_sum d ib = returns (ib @ s) \<and> length s = sp_outlen d
      else sponge_sum d ib = panic ''sha3: Sum after Read''"
    using e squeeze_bytes_wf [of e "sp_outlen d"]
    by (cases "squeeze_bytes (sp_outlen d) e") (auto simp: sponge_sum_def)
qed

text \<open>
  C40. The only panics are those of a wrong direction, and the loops end. On a well-formed state
  \<open>Write\<close> and \<open>Sum\<close> return unless output has been read, in which case they panic; \<open>Read\<close> always
  returns the number of bytes asked for; and the states they leave are well-formed, that of \<open>Read\<close> squeezing.
\<close>
theorem sponge_total:
  assumes "sp_wf d"
  shows "sponge_write d p =
      (if sp_dir d = SpongeAbsorbing then returns (foldl absorb_byte d p, length p)
       else panic ''sha3: Write after Read'') \<and>
    (sp_dir d = SpongeAbsorbing \<longrightarrow> sp_wf (foldl absorb_byte d p)) \<and>
    (\<exists>d' out. sponge_read d k = returns (d', out) \<and> length out = k \<and> sp_wf d' \<and> sp_dir d' = SpongeSqueezing) \<and>
    (if sp_dir d = SpongeAbsorbing
     then \<exists>s. sponge_sum d ib = returns (ib @ s) \<and> length s = sp_outlen d
     else sponge_sum d ib = panic ''sha3: Sum after Read'')"
  using sponge_cases [OF assms] by (intro conjI)

theorem sponge_total_witness:
  "sponge_write (new_legacy_keccak256\<lparr>sp_dir := SpongeSqueezing\<rparr>) [1, 2] = panic ''sha3: Write after Read''"
  using sponge_total [of "new_legacy_keccak256\<lparr>sp_dir := SpongeSqueezing\<rparr>" "[1, 2]"]
  by (simp add: sp_wf_def new_legacy_keccak256_def rateK512_def)

text \<open>
  Reading in pieces: two reads of \<open>j\<close> and \<open>k\<close> bytes return, one after the other, what one read of
  \<open>j + k\<close> bytes returns, and leave the same state.
\<close>
theorem sponge_read_pieces:
  assumes "sp_wf d"
  shows "\<exists>d1 b1 d2 b2. sponge_read d j = returns (d1, b1) \<and> sponge_read d1 k = returns (d2, b2) \<and>
    sponge_read d (j + k) = returns (d2, b1 @ b2)"
proof -
  obtain e where e: "squeezing e" "\<And>k. sponge_read d k = returns (squeeze_bytes k e)"
    using read_bytewise [OF assms] by blast
  obtain d1 b1 where d1: "squeeze_bytes j e = (d1, b1)" by fastforce
  then have sq: "squeezing d1" using squeeze_bytes_wf e by blast
  obtain d2 b2 where d2: "squeeze_bytes k d1 = (d2, b2)" by fastforce
  have "sponge_read d1 k = returns (squeeze_bytes k d1)"
    using sq by (simp add: sponge_read_def squeeze_all squeezing_def)
  then show ?thesis
    using e d1 d2 squeeze_bytes_add [of j k e] by auto
qed

theorem sponge_read_pieces_witness:
  "\<exists>d1 b1 d2 b2. sponge_read new_legacy_keccak256 100 = returns (d1, b1) \<and> sponge_read d1 60 = returns (d2, b2) \<and>
    sponge_read new_legacy_keccak256 160 = returns (d2, b1 @ b2)"
  using sponge_read_pieces [OF new_legacy_keccak256_wf(1), of 100 60] by simp

text \<open>
  C39. Round trip of the binary form. The state of a hash with a known domain byte marshals to 207
  bytes, and \<open>UnmarshalBinary\<close> into any hash of the same kind restores it exactly.
\<close>
theorem sponge_marshal_roundtrip:
  assumes "sp_wf d" "sp_dsbyte d \<in> {dsbyteSHA3, dsbyteKeccak, dsbyteShake, dsbyteCShake}"
    "length (sp_a d0) = 200" "sp_dsbyte d0 = sp_dsbyte d" "sp_rate d0 = sp_rate d" "sp_outlen d0 = sp_outlen d"
  shows "\<exists>b. marshal_binary d = returns b \<and> length b = marshaledSize \<and> unmarshal_binary d0 b = ok d"
proof -
  let ?rest = "[word_of_nat (sp_rate d)] @ sp_a d @ [word_of_nat (sp_n d), direction_byte (sp_dir d)]"
  have wf: "length (sp_a d) = 200" "sp_rate d \<le> 200" "sp_n d \<le> sp_rate d"
    using assms(1) by (auto simp: sp_wf_def split: direction.splits)
  then have n: "unat (word_of_nat (sp_rate d) :: 8 word) = sp_rate d" "unat (word_of_nat (sp_n d) :: 8 word) = sp_n d"
    by (simp_all add: unat_of_nat)
  have rest: "unmarshal_binary d0 (m @ ?rest) = ok d"
    if "length m = 4" "m = magicSHA3 \<and> sp_dsbyte d = dsbyteSHA3 \<or> m = magicShake \<and> sp_dsbyte d = dsbyteShake \<or>
      m = magicCShake \<and> sp_dsbyte d = dsbyteCShake \<or> m = magicKeccak \<and> sp_dsbyte d = dsbyteKeccak" for m
  proof -
    have l: "length magicSHA3 = 4" "marshaledSize = 207" by (simp_all add: magicSHA3_def marshaledSize_def)
    have d: "d0\<lparr>sp_a := sp_a d, sp_n := sp_n d, sp_dir := sp_dir d\<rparr> = d"
      using assms by (cases d; cases d0) simp
    show ?thesis
      using that wf n assms(3-6) d
      by (cases "sp_dir d") (simp_all add: unmarshal_binary_def l Let_def direction_byte_def nth_append)
  qed
  define m where "m = (if sp_dsbyte d = dsbyteSHA3 then magicSHA3 else if sp_dsbyte d = dsbyteShake then magicShake
    else if sp_dsbyte d = dsbyteCShake then magicCShake else magicKeccak)"
  have "length m = 4" by (simp add: m_def magicSHA3_def magicShake_def magicCShake_def magicKeccak_def)
  moreover have "marshal_binary d = returns (m @ ?rest)"
    using assms(2) by (auto simp: marshal_binary_def append_binary_def m_def Let_def)
  moreover have "m = magicSHA3 \<and> sp_dsbyte d = dsbyteSHA3 \<or> m = magicShake \<and> sp_dsbyte d = dsbyteShake \<or>
      m = magicCShake \<and> sp_dsbyte d = dsbyteCShake \<or> m = magicKeccak \<and> sp_dsbyte d = dsbyteKeccak"
    using assms(2) by (auto simp: m_def)
  ultimately show ?thesis
    using rest wf by (auto simp: marshaledSize_def magicSHA3_def)
qed

theorem sponge_marshal_roundtrip_witness:
  "\<exists>b. marshal_binary (new_legacy_keccak256\<lparr>sp_n := 7\<rparr>) = returns b \<and> length b = marshaledSize \<and>
    unmarshal_binary new_legacy_keccak256 b = ok (new_legacy_keccak256\<lparr>sp_n := 7\<rparr>)"
  by (rule sponge_marshal_roundtrip) (simp_all add: new_legacy_keccak256_def sp_wf_def rateK512_def)

text \<open>
  \<open>UnmarshalBinary\<close> accepts a state that no sequence of calls reaches: absorbing with a full buffer
  (\<open>n = rate\<close>; the code rejects only \<open>n > rate\<close>). \<open>padAndPermute\<close> relies on a free byte in the buffer
  and, on that state, xors the padding byte into the capacity part of the sponge, at index \<open>rate\<close>.
\<close>
theorem unmarshal_full_buffer:
  "unmarshal_binary new_legacy_keccak256 (magicKeccak @ [136] @ replicate 200 0 @ [136, 0]) =
      ok (new_legacy_keccak256\<lparr>sp_n := 136\<rparr>) \<and>
    \<not> sp_wf (new_legacy_keccak256\<lparr>sp_n := 136\<rparr>) \<and>
    pad_and_permute (new_legacy_keccak256\<lparr>sp_n := 136\<rparr>) =
      returns (new_legacy_keccak256\<lparr>sp_a := permute_bytes ((replicate 200 0)[136 := 0x01, 135 := 0x80]), sp_n := 0,
        sp_dir := SpongeSqueezing\<rparr>)"
proof -
  have "length magicKeccak = 4" "length magicSHA3 = 4" "marshaledSize = 207"
    by (simp_all add: magicSHA3_def magicKeccak_def marshaledSize_def)
  then show ?thesis
    by (simp add: unmarshal_binary_def new_legacy_keccak256_def rateK512_def Let_def sp_wf_def
        pad_and_permute_def permute_def dsbyteKeccak_def nth_append)
qed

end
