(* ===== verification/Pow.thy ===== *)
theory Pow
  imports Sponge
begin

text \<open>
  Proof of work, \<open>internal/pow/pow.go\<close>: the header, its hash, the difficulty test and the parallel
  search for a nonce. A worker goroutine is a program counter and its counter \<open>n\<close>; the variables the
  workers share are \<open>found\<close> and \<open>ok\<close>, each access to which is one atomic step. A schedule is a list of
  worker indices, so that every interleaving of the goroutines is a list.
\<close>

subsection \<open>The header\<close>

record header =
  hd_parent :: bytes
  hd_batch_root :: bytes
  hd_time_unix :: i64
  hd_diff_bits :: int
  hd_nonce :: "64 word"

definition header_parts :: "header \<Rightarrow> bytes list" where
  "header_parts h =
    [hd_parent h, hd_batch_root h, be64_bytes (hd_time_unix h), be32_bytes (word_of_int (hd_diff_bits h)),
     be64_bytes (hd_nonce h)]"

definition header_hash :: "header \<Rightarrow> bytes" where
  "header_hash h = keccak_sum (header_parts h)"

definition digest_hex :: "header \<Rightarrow> string" where
  "digest_hex h = hex_encode (header_hash h)"

text \<open>\<open>bits.LeadingZeros8\<close> and the loop of \<open>leadingZeros\<close>.\<close>

definition leading_zeros8 :: "8 word \<Rightarrow> nat" where
  "leading_zeros8 b = length (takeWhile (\<lambda>i. \<not> bit b i) (rev [0..<8]))"

fun leading_zeros_from :: "nat \<Rightarrow> bytes \<Rightarrow> nat" where
  "leading_zeros_from n [] = n"
| "leading_zeros_from n (b # bs) =
    (if b = 0 then leading_zeros_from (n + 8) bs else n + leading_zeros8 b)"

definition leading_zeros :: "bytes \<Rightarrow> nat" where
  "leading_zeros bs = leading_zeros_from 0 bs"

definition header_valid :: "header \<Rightarrow> bool" where
  "header_valid h \<longleftrightarrow> \<not> hd_diff_bits h < 0 \<and> hd_diff_bits h \<le> int (leading_zeros (header_hash h))"

subsection \<open>The search\<close>

text \<open>
  The program of a worker: read \<open>ok\<close> (\<open>AtLoad\<close>), try its candidate and store it when it is valid
  (\<open>AtTry\<close>), then raise \<open>ok\<close> (\<open>AtPublish\<close>) and return (\<open>Finished\<close>).
\<close>

datatype worker_pc = AtLoad | AtTry | AtPublish | Finished

record search =
  se_workers :: "(worker_pc \<times> 64 word) list"
  se_found :: "64 word"
  se_ok :: bool

definition search_start :: "nat \<Rightarrow> search" where
  "search_start k =
    \<lparr>se_workers = map (\<lambda>w. (AtLoad, word_of_nat w)) [0..<k], se_found = NOT 0, se_ok = False\<rparr>"

definition worker_step :: "header \<Rightarrow> search \<Rightarrow> nat \<Rightarrow> search" where
  "worker_step h s i =
    (if length (se_workers s) \<le> i then s
     else case se_workers s ! i of
       (AtLoad, n) \<Rightarrow> s\<lparr>se_workers := (se_workers s)[i := (if se_ok s then Finished else AtTry, n)]\<rparr>
     | (AtTry, n) \<Rightarrow>
         if header_valid (h\<lparr>hd_nonce := n\<rparr>)
         then s\<lparr>se_found := n, se_workers := (se_workers s)[i := (AtPublish, n)]\<rparr>
         else s\<lparr>se_workers := (se_workers s)[i := (AtLoad, n + word_of_nat (length (se_workers s)))]\<rparr>
     | (AtPublish, n) \<Rightarrow> s\<lparr>se_ok := True, se_workers := (se_workers s)[i := (Finished, n)]\<rparr>
     | (Finished, n) \<Rightarrow> s)"

definition run_search :: "header \<Rightarrow> search \<Rightarrow> nat list \<Rightarrow> search" where
  "run_search h s sched = foldl (worker_step h) s sched"

definition all_finished :: "search \<Rightarrow> bool" where
  "all_finished s \<longleftrightarrow> (\<forall>w \<in> set (se_workers s). fst w = Finished)"

text \<open>What \<open>Search\<close> returns after \<open>wg.Wait()\<close>.\<close>

definition search_result :: "header \<Rightarrow> search \<Rightarrow> go_error + header \<times> 64 word" where
  "search_result h s =
    (let n = se_found s; h = h\<lparr>hd_nonce := n\<rparr>
     in if \<not> header_valid h then Inl (Errorf ''pow: search failed'' []) else Inr (h, n))"

text \<open>
  \<open>Search\<close>: \<open>gomaxprocs\<close> is the value of \<open>runtime.GOMAXPROCS(0)\<close>, \<open>sched\<close> the order in which the
  goroutines take their steps; \<open>None\<close> when they have not all returned after it.
\<close>

definition pow_search :: "nat \<Rightarrow> nat list \<Rightarrow> header \<Rightarrow> int \<Rightarrow> (go_error + header \<times> 64 word) option" where
  "pow_search gomaxprocs sched h workers =
    (if hd_diff_bits h < 0 \<or> 64 < hd_diff_bits h
     then Some (Inl (Errorf ''pow: DiffBits %d'' [itoa (hd_diff_bits h)]))
     else
       let k = (if workers \<le> 0 then gomaxprocs else nat workers);
           s = run_search h (search_start k) sched
       in if all_finished s then Some (search_result h s) else None)"

subsection \<open>Leading zeros\<close>

lemma leading_zeros_from_add: "leading_zeros_from n bs = n + leading_zeros_from 0 bs"
proof (induction bs arbitrary: n)
  case (Cons b bs)
  then show ?case by (metis (no_types) add.assoc add.left_neutral leading_zeros_from.simps(2))
qed simp

lemma leading_zeros8_table:
  "\<forall>n \<in> set [0..<256]. \<forall>k \<in> set [0..<9]. (k \<le> leading_zeros8 (word_of_nat n)) = (n < 2 ^ (8 - k))"
  by code_simp

lemma leading_zeros8_iff: "k \<le> 8 \<Longrightarrow> k \<le> leading_zeros8 b \<longleftrightarrow> unat b < 2 ^ (8 - k)"
  using leading_zeros8_table [rule_format, of "unat b" k] unsigned_less [of b, where 'a = nat] by simp

lemma leading_zeros8_le: "leading_zeros8 b \<le> 8"
  using length_takeWhile_le [of _ "rev [0..<8]"] by (simp add: leading_zeros8_def)

lemma set_bytes_Cons: "set_bytes (b # bs) = uint b * 256 ^ length bs + set_bytes bs"
  by (induction bs rule: rev_induct) (simp_all add: set_bytes_snoc [of "_ # _", simplified] set_bytes_def algebra_simps)

lemma set_bytes_bound: "set_bytes bs < 256 ^ length bs"
proof (induction bs)
  case (Cons b bs)
  have "uint b \<le> 255" using uint_lt2p [of b] by simp
  then have "uint b * 256 ^ length bs \<le> 255 * 256 ^ length bs" by (intro mult_right_mono) auto
  with Cons have "set_bytes (b # bs) < 255 * 256 ^ length bs + 256 ^ length bs"
    unfolding set_bytes_Cons by linarith
  then show ?case by simp
qed (simp add: set_bytes_def)

lemma high_digit_less_iff:
  assumes "0 \<le> (s :: int)" "s < m" "0 < m"
  shows "b * m + s < c * m \<longleftrightarrow> b < c"
proof
  assume "b * m + s < c * m"
  then have "b * m < c * m" using assms by linarith
  then show "b < c" using assms by simp
next
  assume "b < c"
  then have "(b + 1) * m \<le> c * m" using assms by (intro mult_right_mono) auto
  then show "b * m + s < c * m" using assms by (simp add: algebra_simps)
qed

lemma leading_zeros_Cons:
  "leading_zeros (b # bs) = (if b = 0 then 8 + leading_zeros bs else leading_zeros8 b)"
  using leading_zeros_from_add [of 8 bs] by (simp add: leading_zeros_def)

lemma leading_zeros_iff:
  "k \<le> leading_zeros bs \<longleftrightarrow> k \<le> 8 * length bs \<and> set_bytes bs < 2 ^ (8 * length bs - k)"
proof (induction bs arbitrary: k)
  case Nil
  then show ?case by (simp add: leading_zeros_def set_bytes_def)
next
  case (Cons b bs)
  let ?L = "length bs" and ?S = "set_bytes bs"
  have pow: "(256 :: int) ^ ?L = 2 ^ (8 * ?L)" by (simp add: power_mult)
  have S: "0 \<le> ?S" "?S < 2 ^ (8 * ?L)" using set_bytes_bound [of bs] pow by simp_all
  show ?case
  proof (cases "k \<le> 8")
    case True
    have "(2 :: int) ^ (8 * length (b # bs) - k) = 2 ^ (8 - k) * 2 ^ (8 * ?L)"
      using True by (simp flip: power_add)
    then have "set_bytes (b # bs) < 2 ^ (8 * length (b # bs) - k) \<longleftrightarrow> uint b < 2 ^ (8 - k)"
      using S unfolding set_bytes_Cons pow by (simp only: high_digit_less_iff)
    moreover have "uint b < 2 ^ (8 - k) \<longleftrightarrow> k \<le> leading_zeros8 b"
      unfolding leading_zeros8_iff [OF True] using of_nat_less_iff [of "unat b" "2 ^ (8 - k)", where 'a = int] by simp
    ultimately show ?thesis
      using True by (auto simp: leading_zeros_Cons)
  next
    case False
    show ?thesis
    proof (cases "b = 0")
      case True
      then show ?thesis
        using False Cons.IH [of "k - 8"] by (auto simp: leading_zeros_Cons set_bytes_Cons add.commute)
    next
      case b: False
      have "1 \<le> uint b" using b by (metis uint_0_iff uint_ge_0 zless_imp_add1_zle add_0 order_le_less)
      then have "2 ^ (8 * ?L) \<le> set_bytes (b # bs)"
        using S unfolding set_bytes_Cons pow by (smt (verit) mult_le_cancel_right1 zero_less_power)
      moreover have "(2 :: int) ^ (8 * length (b # bs) - k) \<le> 2 ^ (8 * ?L)"
        using False by (intro power_increasing) auto
      ultimately have "\<not> set_bytes (b # bs) < 2 ^ (8 * length (b # bs) - k)" by linarith
      moreover have "\<not> k \<le> leading_zeros (b # bs)"
        using False b leading_zeros8_le [of b] by (simp add: leading_zeros_Cons)
      ultimately show ?thesis by blast
    qed
  qed
qed

lemma header_valid_iff:
  "header_valid h \<longleftrightarrow> 0 \<le> hd_diff_bits h \<and> hd_diff_bits h \<le> 256 \<and>
    set_bytes (header_hash h) < 2 ^ (256 - nat (hd_diff_bits h))"
proof -
  have "length (header_hash h) = 32" by (simp add: header_hash_def keccak_sum)
  then have "nat (hd_diff_bits h) \<le> leading_zeros (header_hash h) \<longleftrightarrow>
      nat (hd_diff_bits h) \<le> 256 \<and> set_bytes (header_hash h) < 2 ^ (256 - nat (hd_diff_bits h))"
    by (simp add: leading_zeros_iff)
  then show ?thesis by (auto simp: header_valid_def)
qed

subsection \<open>The interleaved workers\<close>

abbreviation solves :: "header \<Rightarrow> 64 word \<Rightarrow> bool" where
  "solves h n \<equiv> header_valid (h\<lparr>hd_nonce := n\<rparr>)"

text \<open>Whoever has seen \<open>ok\<close>, raised it or is about to raise it rests on a stored nonce that solves the header.\<close>

definition search_inv :: "header \<Rightarrow> search \<Rightarrow> bool" where
  "search_inv h s \<longleftrightarrow>
    (se_ok s \<longrightarrow> solves h (se_found s)) \<and>
    (\<forall>i < length (se_workers s).
      (fst (se_workers s ! i) = AtPublish \<longrightarrow> solves h (se_found s)) \<and>
      (fst (se_workers s ! i) = Finished \<longrightarrow> se_ok s))"

lemma worker_step_length [simp]: "length (se_workers (worker_step h s i)) = length (se_workers s)"
  by (auto simp: worker_step_def split: prod.splits worker_pc.splits)

lemma run_search_length [simp]: "length (se_workers (run_search h s sched)) = length (se_workers s)"
  by (induction sched rule: rev_induct) (simp_all add: run_search_def)

lemma search_inv_start: "search_inv h (search_start k)"
  by (auto simp: search_inv_def search_start_def)

lemma search_inv_step:
  assumes "search_inv h s"
  shows "search_inv h (worker_step h s i)"
proof (cases "i < length (se_workers s)")
  case True
  obtain pc n where w: "se_workers s ! i = (pc, n)" by fastforce
  show ?thesis
  proof (cases pc)
    case AtLoad
    then show ?thesis using assms True w by (auto simp: search_inv_def worker_step_def nth_list_update)
  next
    case AtTry
    then show ?thesis using assms True w by (auto simp: search_inv_def worker_step_def nth_list_update)
  next
    case AtPublish
    then show ?thesis using assms True w by (auto simp: search_inv_def worker_step_def nth_list_update)
  next
    case Finished
    then show ?thesis using assms True w by (simp add: worker_step_def)
  qed
qed (use assms in \<open>simp add: worker_step_def\<close>)

lemma search_inv_run: "search_inv h s \<Longrightarrow> search_inv h (run_search h s sched)"
  by (induction sched rule: rev_induct) (simp_all add: run_search_def search_inv_step)

lemma finished_solves:
  assumes "search_inv h s" "all_finished s" "se_workers s \<noteq> []"
  shows "solves h (se_found s)"
proof -
  have "fst (se_workers s ! 0) = Finished" "0 < length (se_workers s)"
    using assms by (simp_all add: all_finished_def)
  then show ?thesis using assms by (auto simp: search_inv_def)
qed

text \<open>A worker that has taken \<open>c\<close> steps of its own and has not returned is at its \<open>j\<close>-th candidate.\<close>

definition candidate :: "nat \<Rightarrow> nat \<Rightarrow> nat \<Rightarrow> 64 word" where
  "candidate k w j = word_of_nat w + word_of_nat j * word_of_nat k"

definition worker_at :: "header \<Rightarrow> nat \<Rightarrow> nat \<Rightarrow> nat \<Rightarrow> worker_pc \<times> 64 word \<Rightarrow> bool" where
  "worker_at h k w c p \<longleftrightarrow>
    (\<exists>j. snd p = candidate k w j \<and> (\<forall>i < j. \<not> solves h (candidate k w i)) \<and>
      (case fst p of
         AtLoad \<Rightarrow> c = 2 * j | AtTry \<Rightarrow> c = 2 * j + 1 | AtPublish \<Rightarrow> c = 2 * j + 2 | Finished \<Rightarrow> True))"

lemma candidate_Suc: "candidate k w j + word_of_nat k = candidate k w (Suc j)"
  by (simp add: candidate_def distrib_right)

lemma worker_progress:
  assumes "w < k"
  shows "worker_at h k w (count_list sched w) (se_workers (run_search h (search_start k) sched) ! w)"
proof (induction sched rule: rev_induct)
  case Nil
  have "candidate k w 0 = word_of_nat w" by (simp add: candidate_def)
  then show ?case
    using assms by (auto simp: run_search_def search_start_def worker_at_def)
next
  case (snoc i sched)
  let ?s = "run_search h (search_start k) sched"
  have len: "length (se_workers ?s) = k" by (simp add: search_start_def)
  have run: "run_search h (search_start k) (sched @ [i]) = worker_step h ?s i" by (simp add: run_search_def)
  obtain pc n where p: "se_workers ?s ! w = (pc, n)" by fastforce
  show ?case
  proof (cases "i = w")
    case False
    then have "se_workers (worker_step h ?s i) ! w = se_workers ?s ! w"
      by (auto simp: worker_step_def split: prod.splits worker_pc.splits)
    with snoc False show ?thesis unfolding run by simp
  next
    case True
    from snoc p obtain j where j: "n = candidate k w j" "\<forall>i < j. \<not> solves h (candidate k w i)"
      and c: "case pc of AtLoad \<Rightarrow> count_list sched w = 2 * j | AtTry \<Rightarrow> count_list sched w = 2 * j + 1
        | AtPublish \<Rightarrow> count_list sched w = 2 * j + 2 | Finished \<Rightarrow> True"
      by (auto simp: worker_at_def)
    have next_c: "\<forall>i < Suc j. \<not> solves h (candidate k w i)" if "\<not> solves h n"
      using j that less_Suc_eq by auto
    show ?thesis
    proof (cases "pc = AtTry \<and> \<not> solves h n")
      case T: True
      then show ?thesis
        unfolding run unfolding True worker_at_def
        using p len assms c next_c j(1) by (intro exI [of _ "Suc j"]) (simp add: worker_step_def candidate_Suc)
    next
      case F: False
      then show ?thesis
        unfolding run unfolding True worker_at_def
        using p len assms c j by (intro exI [of _ j]) (cases pc; simp add: worker_step_def)
    qed
  qed
qed

lemma worker_finishes:
  assumes "w < k" "solves h (candidate k w J)" "2 * J + 3 \<le> count_list sched w"
  shows "fst (se_workers (run_search h (search_start k) sched) ! w) = Finished"
proof -
  obtain j where j: "\<forall>i < j. \<not> solves h (candidate k w i)"
    and c: "case fst (se_workers (run_search h (search_start k) sched) ! w) of
        AtLoad \<Rightarrow> count_list sched w = 2 * j | AtTry \<Rightarrow> count_list sched w = 2 * j + 1
      | AtPublish \<Rightarrow> count_list sched w = 2 * j + 2 | Finished \<Rightarrow> True"
    using worker_progress [OF assms(1), of h sched] by (auto simp: worker_at_def)
  have "j \<le> J" using j assms(2) by (meson leI)
  with c assms(3) show ?thesis by (auto split: worker_pc.splits)
qed

text \<open>Once \<open>ok\<close> is raised a worker returns after two more steps.\<close>

definition steps_left :: "worker_pc \<Rightarrow> nat" where
  "steps_left pc = (case pc of Finished \<Rightarrow> 0 | AtLoad \<Rightarrow> 1 | AtPublish \<Rightarrow> 1 | AtTry \<Rightarrow> 2)"

lemma raised_drains:
  assumes "se_ok s" "i < length (se_workers s)"
  shows "se_ok (run_search h s sched) \<and>
    steps_left (fst (se_workers (run_search h s sched) ! i)) \<le> steps_left (fst (se_workers s ! i)) - count_list sched i"
proof (induction sched rule: rev_induct)
  case (snoc j sched)
  let ?s = "run_search h s sched"
  obtain pc n where p: "se_workers ?s ! i = (pc, n)" by fastforce
  have run: "run_search h s (sched @ [j]) = worker_step h ?s j" by (simp add: run_search_def)
  have len: "length (se_workers ?s) = length (se_workers s)" by simp
  have ok: "se_ok (worker_step h ?s j)"
    using snoc by (auto simp: worker_step_def split: prod.splits worker_pc.splits)
  show ?case
  proof (cases "j = i")
    case True
    with snoc p assms len show ?thesis unfolding run
      by (cases pc) (auto simp: worker_step_def steps_left_def)
  next
    case False
    then have "se_workers (worker_step h ?s j) ! i = se_workers ?s ! i"
      by (auto simp: worker_step_def split: prod.splits worker_pc.splits)
    with snoc ok False show ?thesis unfolding run by simp
  qed
qed (use assms in \<open>simp add: run_search_def\<close>)

subsection \<open>Properties\<close>

text \<open>
  C38. The difficulty test is a bound on the hash. A header is valid exactly when its difficulty lies
  between 0 and 256 and its hash, read as a big-endian number, is below \<open>2 ^ (256 - DiffBits)\<close>.
\<close>
theorem header_valid_bound:
  "header_valid h \<longleftrightarrow> 0 \<le> hd_diff_bits h \<and> hd_diff_bits h \<le> 256 \<and>
    set_bytes (header_hash h) < 2 ^ (256 - nat (hd_diff_bits h))"
  by (rule header_valid_iff)

lemma search_start_nonempty: "0 < k \<Longrightarrow> se_workers (run_search h (search_start k) sched) \<noteq> []"
  using run_search_length [of h "search_start k" sched] by (auto simp: search_start_def simp flip: length_0_conv)

lemma pow_search_sound:
  assumes "pow_search gomaxprocs sched h workers = Some r" "0 < gomaxprocs"
  shows "if hd_diff_bits h < 0 \<or> 64 < hd_diff_bits h then r = Inl (Errorf ''pow: DiffBits %d'' [itoa (hd_diff_bits h)])
    else \<exists>n. r = Inr (h\<lparr>hd_nonce := n\<rparr>, n) \<and> header_valid (h\<lparr>hd_nonce := n\<rparr>)"
proof -
  define k where "k = (if workers \<le> 0 then gomaxprocs else nat workers)"
  define s where "s = run_search h (search_start k) sched"
  have "0 < k" using assms by (simp add: k_def)
  then have "solves h (se_found s)" if "all_finished s"
    using that search_inv_run [OF search_inv_start] search_start_nonempty finished_solves by (simp add: s_def)
  with assms show ?thesis
    by (auto simp: pow_search_def search_result_def Let_def simp flip: k_def s_def split: if_splits)
qed

lemma search_result_valid:
  assumes "pow_search gomaxprocs sched h workers = Some (Inr (h', n))" "0 < gomaxprocs"
  shows "h' = h\<lparr>hd_nonce := n\<rparr> \<and> header_valid h'"
  using pow_search_sound [OF assms] by (auto split: if_splits)

text \<open>
  C36. Soundness of the parallel search, under every interleaving. When all workers have returned,
  \<open>Search\<close> returns the header it was given with a nonce that makes it valid: two workers may both
  store a nonce, but the error "search failed" is never returned. The only error is a difficulty outside 0..64.
\<close>
theorem search_sound:
  assumes "pow_search gomaxprocs sched h workers = Some r" "0 < gomaxprocs"
  shows "if hd_diff_bits h < 0 \<or> 64 < hd_diff_bits h then r = Inl (Errorf ''pow: DiffBits %d'' [itoa (hd_diff_bits h)])
    else \<exists>n. r = Inr (h\<lparr>hd_nonce := n\<rparr>, n) \<and> header_valid (h\<lparr>hd_nonce := n\<rparr>)"
  using assms by (rule pow_search_sound)

definition ex_header :: header where
  "ex_header = \<lparr>hd_parent = replicate 32 0, hd_batch_root = replicate 32 1, hd_time_unix = 1700000000, hd_diff_bits = 0,
    hd_nonce = 0\<rparr>"

lemma ex_header_valid: "header_valid (ex_header\<lparr>hd_nonce := n\<rparr>)" "hd_diff_bits ex_header = 0"
  by (simp_all add: header_valid_def ex_header_def)

theorem search_sound_witness:
  "\<exists>n. search_result ex_header (run_search ex_header (search_start 1) [0, 0, 0]) = Inr (ex_header\<lparr>hd_nonce := n\<rparr>, n) \<and>
    header_valid (ex_header\<lparr>hd_nonce := n\<rparr>)"
proof -
  have "all_finished (run_search ex_header (search_start 1) [0, 0, 0])"
    by (simp add: run_search_def search_start_def worker_step_def ex_header_valid all_finished_def)
  then have "pow_search 1 [0, 0, 0] ex_header 1 =
      Some (search_result ex_header (run_search ex_header (search_start 1) [0, 0, 0]))"
    by (simp add: pow_search_def ex_header_valid)
  from search_sound [OF this] show ?thesis by (simp add: ex_header_valid)
qed

text \<open>
  C37. The search ends when some candidate solves the header. Let the \<open>J\<close>-th candidate of worker \<open>w\<close>
  be valid. After any schedule in which that worker takes \<open>2 J + 3\<close> steps and then every worker two more,
  \<open>Search\<close> has returned a valid header.
\<close>
theorem search_terminates:
  assumes "0 \<le> hd_diff_bits h" "hd_diff_bits h \<le> 64" "0 < workers"
    and "w < nat workers" "header_valid (h\<lparr>hd_nonce := candidate (nat workers) w J\<rparr>)"
    and "2 * J + 3 \<le> count_list sched1 w" "\<forall>i < nat workers. 2 \<le> count_list sched2 i"
  shows "\<exists>n. pow_search gomaxprocs (sched1 @ sched2) h workers = Some (Inr (h\<lparr>hd_nonce := n\<rparr>, n)) \<and>
    header_valid (h\<lparr>hd_nonce := n\<rparr>)"
proof -
  let ?k = "nat workers"
  define s1 where "s1 = run_search h (search_start ?k) sched1"
  define s where "s = run_search h s1 sched2"
  have s: "run_search h (search_start ?k) (sched1 @ sched2) = s" by (simp add: s_def s1_def run_search_def)
  have len: "length (se_workers s1) = ?k" "length (se_workers s) = ?k" by (simp_all add: s_def s1_def search_start_def)
  have inv: "search_inv h s1" "search_inv h s" by (simp_all add: s_def s1_def search_inv_run search_inv_start)
  have "fst (se_workers s1 ! w) = Finished"
    using worker_finishes assms by (simp add: s1_def)
  then have "se_ok s1" using inv assms len by (simp add: search_inv_def)
  then have fin: "fst (se_workers s ! i) = Finished" if "i < ?k" for i
    using raised_drains [of s1 i h sched2] assms(7) that len
    by (auto simp: s_def steps_left_def split: worker_pc.splits) 
  then have "all_finished s" using len by (auto simp: all_finished_def in_set_conv_nth) (metis fst_conv)
  moreover have "solves h (se_found s)"
    using finished_solves inv calculation len assms by force
  ultimately show ?thesis
    using assms s by (simp add: pow_search_def search_result_def Let_def)
qed

theorem search_terminates_witness:
  "\<exists>n. pow_search 1 ([0, 0, 0] @ [1, 0, 1, 0]) ex_header 2 = Some (Inr (ex_header\<lparr>hd_nonce := n\<rparr>, n)) \<and>
    header_valid (ex_header\<lparr>hd_nonce := n\<rparr>)"
  by (rule search_terminates [where w = 0 and J = 0]) (auto simp: ex_header_valid less_2_cases_iff numeral_2_eq_2)

end
