(* ===== verification/L2_Receipts.thy ===== *)
theory L2_Receipts
  imports Merkle Json_Text Pow
begin

text \<open>
  Sealed batches of message receipts, \<open>internal/l2/receipts.go\<close>: a Keccak tree over commitments in the order
  of their sequence numbers, sealed by a proof of work, and the independent verifier. Leaves and nodes are
  hashed under different prefixes, so the tree is a \<open>tagged_hash_tree\<close>; together with the increasing
  sequence numbers its root binds the batch, whatever its length, up to bytes of identifiers and actions that are no
  valid UTF-8, which JSON writes all alike.
\<close>

unbundle bit_operations_syntax

subsection \<open>Commitments and their root\<close>

record commitment =
  cm_sequence :: i64
  cm_id :: string
  cm_action :: string
  cm_hash :: string

record receipt_batch =
  rb_version :: int
  rb_commitments :: "commitment list"
  rb_header :: header

text \<open>\<open>json.Marshal\<close> of a commitment.\<close>

definition commitment_json :: "commitment \<Rightarrow> string" where
  \<open>commitment_json c =
    ''{"sequence":'' @ itoa (sint (cm_sequence c)) @ '',"id":'' @ json_str (cm_id c) @
    '',"action":'' @ json_str (cm_action c) @ '',"hash":'' @ json_str (cm_hash c) @ ''}''\<close>

definition receipt_hash :: "bytes \<Rightarrow> bytes" where
  "receipt_hash b = keccak_sum [b]"

definition leaf_input :: "commitment \<Rightarrow> bytes" where
  "leaf_input c = bytes_of ''nex/l2/receipt/leaf/v1'' @ [0] @ bytes_of (commitment_json c)"

definition node_input :: "bytes \<Rightarrow> bytes \<Rightarrow> bytes" where
  "node_input l r = bytes_of ''nex/l2/receipt/node/v1'' @ [0] @ l @ r"

text \<open>The commitments are checked in order; \<open>previous\<close> is the sequence number of the one before.\<close>

fun receipt_leaves :: "int \<Rightarrow> commitment list \<Rightarrow> go_error + bytes list" where
  "receipt_leaves previous [] = Inr []"
| "receipt_leaves previous (c # cs) =
    (if (case hex_decode (cm_hash c) of None \<Rightarrow> True | Some h \<Rightarrow> length h \<noteq> 32) \<or>
        sint (cm_sequence c) \<le> previous \<or> cm_id c = [] \<or> cm_action c = []
     then Inl (Errorf ''l2: invalid receipt commitment'' [])
     else case receipt_leaves (sint (cm_sequence c)) cs of
       Inl e \<Rightarrow> Inl e
     | Inr nodes \<Rightarrow> Inr (receipt_hash (leaf_input c) # nodes))"

fun receipt_next :: "bytes list \<Rightarrow> bytes list" where
  "receipt_next (a # b # nodes) = receipt_hash (node_input a b) # receipt_next nodes"
| "receipt_next [a] = [receipt_hash (node_input a a)]"
| "receipt_next [] = []"

lemma length_receipt_next [simp]: "length (receipt_next nodes) = (length nodes + 1) div 2"
  by (induction nodes rule: receipt_next.induct) simp_all

fun receipt_loop :: "bytes list \<Rightarrow> bytes list" where
  "receipt_loop nodes = (if 1 < length nodes then receipt_loop (receipt_next nodes) else nodes)"

declare receipt_loop.simps [simp del]

definition receipt_root :: "commitment list \<Rightarrow> go_error + bytes" where
  "receipt_root cs =
    (if length cs = 0 \<or> 4096 < length cs then Inl (Errorf ''l2: receipt batch size out of bounds'' [])
     else case receipt_leaves 0 cs of
       Inl e \<Rightarrow> Inl e
     | Inr nodes \<Rightarrow> Inr (receipt_loop nodes ! 0))"

subsection \<open>Sealing and verifying\<close>

text \<open>\<open>Time.Unix\<close>: seconds since January 1, 1970.\<close>

definition unix_time :: "go_time \<Rightarrow> i64" where
  "unix_time t = word_of_int (t div second - 62135596800)"

text \<open>
  \<open>None\<close> is a call of which the search has not ended after the schedule; on an error the batch is not
  part of the result.
\<close>

definition seal_receipts ::
  "nat \<Rightarrow> nat list \<Rightarrow> commitment list \<Rightarrow> bytes \<Rightarrow> int \<Rightarrow> go_time \<Rightarrow> (go_error + receipt_batch) option" where
  "seal_receipts gomaxprocs sched cs parent bits now =
    (if bits < 1 \<or> 24 < bits then Some (Inl (Errorf ''l2: difficulty must be 1..24'' []))
     else case receipt_root cs of
       Inl e \<Rightarrow> Some (Inl e)
     | Inr batch_root \<Rightarrow>
         (case pow_search gomaxprocs sched
             \<lparr>hd_parent = parent, hd_batch_root = batch_root, hd_time_unix = unix_time now, hd_diff_bits = bits, hd_nonce = 0\<rparr> 0 of
            None \<Rightarrow> None
          | Some (Inl e) \<Rightarrow> Some (Inl e)
          | Some (Inr (h, _)) \<Rightarrow> Some (Inr \<lparr>rb_version = 1, rb_commitments = cs, rb_header = h\<rparr>)))"

definition verify_receipt_batch :: "receipt_batch \<Rightarrow> bytes \<Rightarrow> int \<Rightarrow> go_error option" where
  "verify_receipt_batch b parent min_bits =
    (case receipt_root (rb_commitments b) of
       Inl e \<Rightarrow> Some e
     | Inr batch_root \<Rightarrow>
         if rb_version b \<noteq> 1 \<or> min_bits < 1 \<or> hd_diff_bits (rb_header b) < min_bits \<or>
            hd_parent (rb_header b) \<noteq> parent \<or> hd_batch_root (rb_header b) \<noteq> batch_root \<or> \<not> header_valid (rb_header b)
         then Some (Errorf ''l2: invalid receipt batch or parent'' [])
         else None)"

subsection \<open>Texts determine commitments\<close>

text \<open>
  What the text of a commitment says: all of it, up to the bytes of the identifier and the action that are no valid
  UTF-8 (\<open>same_text\<close>). \<open>ReceiptRoot\<close> does not check their encoding.
\<close>

definition same_commitment :: "commitment \<Rightarrow> commitment \<Rightarrow> bool" where
  "same_commitment c d \<longleftrightarrow> cm_sequence c = cm_sequence d \<and> same_text (cm_id c) (cm_id d)
     \<and> same_text (cm_action c) (cm_action d) \<and> same_text (cm_hash c) (cm_hash d)"

lemma commitment_json_same:
  assumes "commitment_json c = commitment_json d"
  shows "same_commitment c d"
proof -
  define x where \<open>x c = '',"id":'' @ json_str (cm_id c) @ '',"action":'' @ json_str (cm_action c) @
    '',"hash":'' @ json_str (cm_hash c) @ ''}''\<close> for c :: commitment
  have nd: "x c = [] \<or> \<not> is_digit (hd (x c))" for c :: commitment by (simp add: x_def is_digit_def char_code_def)
  have "itoa (sint (cm_sequence c)) @ x c = itoa (sint (cm_sequence d)) @ x d"
    using assms by (simp add: commitment_json_def x_def)
  then have "sint (cm_sequence c) = sint (cm_sequence d)" and x: "x c = x d"
    using itoa_unique [OF _ nd nd] by blast+
  then have "cm_sequence c = cm_sequence d"
    using signed_word_eqI by blast
  moreover have "same_text (cm_hash c) (cm_hash d)" if "json_str (cm_hash c) = json_str (cm_hash d)"
    using json_str_same [of "cm_hash c" "[]" "cm_hash d" "[]"] that by simp
  ultimately show ?thesis
    using x by (auto simp: same_commitment_def x_def dest!: json_str_same)
qed

text \<open>A leaf is the text of a commitment under its prefix.\<close>

definition leaf_bytes :: "string \<Rightarrow> bytes" where
  "leaf_bytes s = bytes_of ''nex/l2/receipt/leaf/v1'' @ [0] @ bytes_of s"

lemma leaf_input_text: "leaf_input c = leaf_bytes (commitment_json c)"
  by (simp add: leaf_input_def leaf_bytes_def)

lemma leaf_node_tag: "leaf_bytes s \<noteq> node_input a b"
proof
  assume "leaf_bytes s = node_input a b"
  then have "take 20 (leaf_bytes s) = take 20 (node_input a b)" by simp
  then show False by (simp add: leaf_bytes_def node_input_def bytes_of_def)
qed

lemma length_receipt_hash [simp]: "length (receipt_hash b) = 32"
  by (simp add: receipt_hash_def keccak_sum)

interpretation l2: tagged_hash_tree receipt_hash node_input "\<lambda>s. receipt_hash (leaf_bytes s)" "\<lambda>_. True" leaf_bytes
  by unfold_locales (auto simp: node_input_def leaf_node_tag leaf_bytes_def)

subsection \<open>The tree behind the loop\<close>

abbreviation receipt_value :: "string mtree \<Rightarrow> bytes" where
  "receipt_value \<equiv> tree_value receipt_hash node_input (\<lambda>s. receipt_hash (leaf_bytes s))"

abbreviation receipt_tree :: "commitment list \<Rightarrow> string mtree" where
  "receipt_tree cs \<equiv> build_tree (map Tip (map commitment_json cs))"

text \<open>Everything that is hashed to compute the root of a batch: the nodes and the leaves.\<close>

definition receipt_inputs :: "commitment list \<Rightarrow> bytes list" where
  "receipt_inputs cs =
    tree_inputs receipt_hash node_input (\<lambda>s. receipt_hash (leaf_bytes s)) (receipt_tree cs) @
    map leaf_bytes (tree_leaves (receipt_tree cs))"

lemma receipt_next_trees: "receipt_next (map receipt_value ts) = map receipt_value (pair_trees ts)"
  by (induction ts rule: pair_trees.induct) simp_all

lemma receipt_loop_trees: "ts \<noteq> [] \<Longrightarrow> receipt_loop (map receipt_value ts) = [receipt_value (build_tree ts)]"
proof (induction ts rule: build_tree.induct)
  case (1 ts)
  show ?case
  proof (cases "length ts \<le> 1")
    case True
    then obtain t where "ts = [t]" using 1 by (cases ts) auto
    then show ?thesis by (simp add: receipt_loop.simps build_tree.simps)
  next
    case False
    then have "pair_trees ts \<noteq> []" by (auto simp flip: length_0_conv)
    with 1 False show ?thesis
      by (simp add: receipt_loop.simps [of "map receipt_value ts"] build_tree.simps [of ts] receipt_next_trees)
  qed
qed

definition commitment_ok :: "commitment \<Rightarrow> bool" where
  "commitment_ok c \<longleftrightarrow> (\<exists>h. hex_decode (cm_hash c) = Some h \<and> length h = 32) \<and> cm_id c \<noteq> [] \<and> cm_action c \<noteq> []"

lemma receipt_leaves_ok:
  assumes "receipt_leaves p cs = Inr nodes"
  shows "nodes = map (\<lambda>c. receipt_hash (leaf_input c)) cs \<and>
    sorted_wrt (<) (p # map (\<lambda>c. sint (cm_sequence c)) cs) \<and> (\<forall>c \<in> set cs. commitment_ok c)"
  using assms
proof (induction p cs arbitrary: nodes rule: receipt_leaves.induct)
  case (2 p c cs)
  then obtain ns where ns: "receipt_leaves (sint (cm_sequence c)) cs = Inr ns" "nodes = receipt_hash (leaf_input c) # ns"
    by (auto split: if_splits sum.splits)
  have c: "p < sint (cm_sequence c)" "commitment_ok c"
    using "2.prems" by (auto simp: commitment_ok_def split: if_splits option.splits)
  with "2.IH" [of ns] "2.prems" ns show ?case
    by (auto split: if_splits)
qed simp

lemma receipt_leaves_accept:
  "sorted_wrt (<) (p # map (\<lambda>c. sint (cm_sequence c)) cs) \<Longrightarrow> \<forall>c \<in> set cs. commitment_ok c \<Longrightarrow>
   receipt_leaves p cs = Inr (map (\<lambda>c. receipt_hash (leaf_input c)) cs)"
  by (induction p cs rule: receipt_leaves.induct) (auto simp: commitment_ok_def)

lemma receipt_root_ok:
  assumes "receipt_root cs = Inr r"
  shows "r = receipt_value (receipt_tree cs)" "cs \<noteq> []" "length cs \<le> 4096" "distinct (map commitment_json cs)"
    "sorted_wrt (<) (0 # map (\<lambda>c. sint (cm_sequence c)) cs)" "\<forall>c \<in> set cs. commitment_ok c"
proof -
  obtain nodes where n: "receipt_leaves 0 cs = Inr nodes" "r = receipt_loop nodes ! 0" "cs \<noteq> []" "length cs \<le> 4096"
    using assms by (auto simp: receipt_root_def split: if_splits sum.splits)
  note ok = receipt_leaves_ok [OF n(1)]
  then show "cs \<noteq> []" "length cs \<le> 4096" "sorted_wrt (<) (0 # map (\<lambda>c. sint (cm_sequence c)) cs)"
    "\<forall>c \<in> set cs. commitment_ok c"
    using n by auto
  show "r = receipt_value (receipt_tree cs)"
    using ok n receipt_loop_trees [of "map Tip (map commitment_json cs)"] by (simp add: comp_def leaf_input_text)
  have "sorted_wrt (<) (map (\<lambda>c. sint (cm_sequence c)) cs)" using ok by auto
  then have seq: "distinct cs" "inj_on (\<lambda>c. sint (cm_sequence c)) (set cs)"
    by (simp_all add: strict_sorted_iff distinct_map)
  moreover have "inj_on commitment_json (set cs)"
  proof (rule inj_onI)
    fix c d assume "c \<in> set cs" "d \<in> set cs" "commitment_json c = commitment_json d"
    with seq(2) commitment_json_same [of c d] show "c = d" by (simp add: same_commitment_def inj_onD)
  qed
  ultimately show "distinct (map commitment_json cs)" by (simp add: distinct_map)
qed

subsection \<open>Valid UTF-8\<close>

lemma hex_decode_ascii: "hex_decode s = Some bs \<Longrightarrow> \<forall>c \<in> set s. char_code c < 0x80"
proof (induction s arbitrary: bs rule: hex_decode.induct)
  case (3 c d s)
  have "unhex_digit c = Some a \<Longrightarrow> char_code c < 0x80" for c a
    by (auto simp: unhex_digit_def char_code_def Let_def split: if_splits)
  with 3 show ?case by (auto split: option.splits)
qed simp_all

text \<open>The hash of an accepted commitment is hexadecimal, so only the identifier and the action can be no valid UTF-8.\<close>

definition commitment_utf8 :: "commitment \<Rightarrow> bool" where
  "commitment_utf8 c \<longleftrightarrow> utf8_valid (cm_id c) \<and> utf8_valid (cm_action c)"

lemma same_commitment_hash: "same_commitment c d \<Longrightarrow> commitment_ok c \<Longrightarrow> cm_hash c = cm_hash d"
proof -
  assume "same_commitment c d" "commitment_ok c"
  then obtain h where "hex_decode (cm_hash c) = Some h" "same_text (cm_hash c) (cm_hash d)"
    by (auto simp: commitment_ok_def same_commitment_def)
  then show ?thesis
    using utf8_valid_ascii [OF hex_decode_ascii] same_text_valid by blast
qed

lemma same_commitment_valid: "same_commitment c d \<Longrightarrow> commitment_ok c \<Longrightarrow> commitment_utf8 c \<Longrightarrow> c = d"
proof -
  assume c: "same_commitment c d" "commitment_ok c" "commitment_utf8 c"
  then have "cm_id c = cm_id d" "cm_action c = cm_action d"
    using same_text_valid unfolding commitment_utf8_def same_commitment_def by blast+
  with c(1) same_commitment_hash [OF c(1, 2)] show ?thesis
    by (auto simp: same_commitment_def intro: commitment.equality)
qed

text \<open>One root: the same commitments, in every field and one for one, but for such bytes.\<close>

definition same_commitments :: "commitment list \<Rightarrow> commitment list \<Rightarrow> bool" where
  "same_commitments cs ds \<longleftrightarrow> list_all2 (\<lambda>c d. same_commitment c d \<and> cm_hash c = cm_hash d) cs ds
     \<and> (list_all commitment_utf8 cs \<longrightarrow> cs = ds)"

lemma same_root_binds:
  assumes "receipt_root cs = Inr r" "receipt_root ds = Inr r"
  shows "same_commitments cs ds \<or> collide receipt_hash (receipt_inputs cs) (receipt_inputs ds)"
proof -
  note c = receipt_root_ok [OF assms(1)] and d = receipt_root_ok [OF assms(2)]
  have "same_commitments cs ds" if "map commitment_json cs = map commitment_json ds"
  proof -
    have "list_all2 same_commitment cs ds"
      using that commitment_json_same by (auto simp: list_all2_conv_all_nth list_eq_iff_nth_eq)
    then have same: "list_all2 (\<lambda>c d. same_commitment c d \<and> cm_hash c = cm_hash d) cs ds"
      using c(6) same_commitment_hash by (auto elim!: list.rel_mono_strong)
    have "list_all2 (=) cs ds" if "list_all commitment_utf8 cs"
      using same by (rule list.rel_mono_strong) (use that c(6) same_commitment_valid in \<open>auto simp: list_all_iff\<close>)
    with same show ?thesis
      by (simp add: same_commitments_def list.rel_eq)
  qed
  moreover have "map commitment_json cs = map commitment_json ds
      \<or> collide receipt_hash (receipt_inputs cs) (receipt_inputs ds)"
    unfolding receipt_inputs_def using c d by (intro l2.distinct_binds) auto
  ultimately show ?thesis
    by blast
qed

subsection \<open>Headers determine what they seal\<close>

lemma be64_bytes_inj [simp]: "be64_bytes v = be64_bytes w \<longleftrightarrow> v = w"
proof
  assume e: "be64_bytes v = be64_bytes w"
  have b: "(ucast (drop_bit (56 - 8 * i) v) :: 8 word) = ucast (drop_bit (56 - 8 * i) w)" if "i < 8" for i
    using arg_cong [OF e, of "\<lambda>bs. bs ! i"] that by (simp add: be64_bytes_def)
  show "v = w"
  proof (rule bit_word_eqI)
    fix n assume n: "n < LENGTH(64)"
    have "bit (ucast (drop_bit (56 - 8 * (7 - n div 8)) v) :: 8 word) (n mod 8) =
        bit (ucast (drop_bit (56 - 8 * (7 - n div 8)) w) :: 8 word) (n mod 8)"
      using b [of "7 - n div 8"] by simp
    moreover have "56 - 8 * (7 - n div 8) + n mod 8 = n" "n mod 8 < 8" using n by (auto simp: algebra_simps)
    ultimately show "bit v n = bit w n"
      by (simp add: bit_ucast_iff bit_drop_bit_eq)
  qed
qed simp

lemma be32_bytes_inj [simp]: "be32_bytes v = be32_bytes w \<longleftrightarrow> v = w"
proof
  assume e: "be32_bytes v = be32_bytes w"
  have b: "(ucast (drop_bit (8 * i) v) :: 8 word) = ucast (drop_bit (8 * i) w)" if "i \<in> {0, 1, 2, 3}" for i
    using that e by (auto simp: be32_bytes_def)
  show "v = w"
  proof (rule bit_word_eqI)
    fix n assume n: "n < LENGTH(32)"
    have "n div 8 \<in> {0, 1, 2, 3}" using n by auto
    then have "bit (ucast (drop_bit (8 * (n div 8)) v) :: 8 word) (n mod 8) =
        bit (ucast (drop_bit (8 * (n div 8)) w) :: 8 word) (n mod 8)"
      using b by simp
    then show "bit v n = bit w n"
      by (simp add: bit_ucast_iff bit_drop_bit_eq)
  qed
qed simp

lemma length_be_bytes [simp]: "length (be64_bytes w) = 8" "length (be32_bytes v) = 4"
  by (simp_all add: be64_bytes_def be32_bytes_def)

lemma header_hash_parts: "header_hash h = keccak256 (concat (header_parts h))"
  by (simp add: header_hash_def keccak_sum)

lemma header_parts_inj:
  assumes "concat (header_parts h) = concat (header_parts k)"
    and "0 \<le> hd_diff_bits h" "hd_diff_bits h < 2 ^ 32" "0 \<le> hd_diff_bits k" "hd_diff_bits k < 2 ^ 32"
    and "length (hd_parent h) = 32" "length (hd_parent k) = 32"
    and "length (hd_batch_root h) = 32" "length (hd_batch_root k) = 32"
  shows "h = k"
proof -
  have eq: "hd_parent h = hd_parent k" "hd_batch_root h = hd_batch_root k" "hd_time_unix h = hd_time_unix k"
    "(word_of_int (hd_diff_bits h) :: 32 word) = word_of_int (hd_diff_bits k)" "hd_nonce h = hd_nonce k"
    using assms by (simp_all add: header_parts_def)
  have "hd_diff_bits h = hd_diff_bits k"
    using eq(4) assms(2-5) by (simp add: word_of_int_eq_iff take_bit_int_eq_self)
  with eq show ?thesis by (cases h; cases k) simp
qed

lemma header_hash_binds:
  assumes "header_hash h = header_hash k"
    and "0 \<le> hd_diff_bits h" "hd_diff_bits h < 2 ^ 32" "0 \<le> hd_diff_bits k" "hd_diff_bits k < 2 ^ 32"
    and "length (hd_parent h) = 32" "length (hd_parent k) = 32"
    and "length (hd_batch_root h) = 32" "length (hd_batch_root k) = 32"
  shows "h = k \<or> collide keccak256 [concat (header_parts h)] [concat (header_parts k)]"
  using header_parts_inj [OF _ assms(2-)] assms(1) by (auto simp: collide_iff header_hash_parts)

lemma receipt_root_length:
  assumes "receipt_root cs = Inr r"
  shows "length r = 32"
  using receipt_root_ok(1) [OF assms] by (cases "receipt_tree cs") simp_all

text \<open>Two accepted batches whose headers have the same hash are the same batch, up to collisions.\<close>

lemma sealed_batch_bound:
  assumes "verify_receipt_batch b p m = None" "verify_receipt_batch b' p' m' = None"
    and "header_hash (rb_header b) = header_hash (rb_header b')" "length p = 32" "length p' = 32"
  shows "(rb_header b = rb_header b' \<and> same_commitments (rb_commitments b) (rb_commitments b')) \<or>
    collide keccak256 [concat (header_parts (rb_header b))] [concat (header_parts (rb_header b'))] \<or>
    collide receipt_hash (receipt_inputs (rb_commitments b)) (receipt_inputs (rb_commitments b'))"
proof -
  have v: "receipt_root (rb_commitments b) = Inr (hd_batch_root (rb_header b))" "hd_parent (rb_header b) = p"
    "0 \<le> hd_diff_bits (rb_header b) \<and> hd_diff_bits (rb_header b) \<le> 256"
    if "verify_receipt_batch b p m = None" for b p m
    using that by (auto simp: verify_receipt_batch_def header_valid_iff split: sum.splits if_splits)
  note v1 = v [OF assms(1)] and v2 = v [OF assms(2)]
  have "rb_header b = rb_header b' \<or>
      collide keccak256 [concat (header_parts (rb_header b))] [concat (header_parts (rb_header b'))]"
    using v1 v2 assms(3-5) receipt_root_length by (intro header_hash_binds) auto
  moreover have "same_commitments (rb_commitments b) (rb_commitments b') \<or>
      collide receipt_hash (receipt_inputs (rb_commitments b)) (receipt_inputs (rb_commitments b'))"
    if "rb_header b = rb_header b'"
    using that same_root_binds v1(1) v2(1) by simp
  ultimately show ?thesis by blast
qed

subsection \<open>Properties\<close>

text \<open>
  C34. The root binds the batch. Two lists of commitments, of any two lengths, that \<open>ReceiptRoot\<close> accepts with the same
  root have the same length, sequence numbers and hashes, and the same identifiers and actions up to bytes that are no valid
  UTF-8, which \<open>ReceiptRoot\<close> does not check and JSON writes all alike; so they are equal as soon as the identifiers and actions
  of one of them are valid UTF-8. This although an odd last node is paired with itself. Otherwise two different inputs
  hashed while computing the roots have the same Keccak-256 value.
\<close>
theorem receipt_root_binds:
  assumes "receipt_root cs = Inr r" "receipt_root ds = Inr r"
  shows "list_all2 (\<lambda>c d. same_commitment c d \<and> cm_hash c = cm_hash d) cs ds \<and> (list_all commitment_utf8 cs \<longrightarrow> cs = ds)
    \<or> collide receipt_hash (receipt_inputs cs) (receipt_inputs ds)"
  using same_root_binds [OF assms] by (simp add: same_commitments_def)

definition ex_commitments :: "string \<Rightarrow> commitment list" where
  "ex_commitments s =
    map (\<lambda>n. \<lparr>cm_sequence = word_of_nat n, cm_id = s, cm_action = ''agree'', cm_hash = hex_encode (replicate 32 (word_of_nat n))\<rparr>)
      [1, 2, 5]"

text \<open>Two different batches with one root, and no collision: their identifiers are bytes that are no valid UTF-8.\<close>

lemma bad_ids_one_root:
  "ex_commitments [CHR 0xFF] \<noteq> ex_commitments [CHR 0xFE]
   \<and> (\<exists>r. receipt_root (ex_commitments [CHR 0xFF]) = Inr r \<and> receipt_root (ex_commitments [CHR 0xFE]) = Inr r)"
proof -
  have root: "receipt_root (ex_commitments s) = Inr (receipt_loop (map (\<lambda>c. receipt_hash (leaf_input c)) (ex_commitments s)) ! 0)"
    if "s \<noteq> []" for s
  proof -
    have "receipt_leaves 0 (ex_commitments s) = Inr (map (\<lambda>c. receipt_hash (leaf_input c)) (ex_commitments s))"
      using that by (intro receipt_leaves_accept) (auto simp: ex_commitments_def commitment_ok_def)
    moreover have "length (ex_commitments s) = 3"
      by (simp add: ex_commitments_def)
    ultimately show ?thesis
      by (simp add: receipt_root_def)
  qed
  have "map (\<lambda>c. receipt_hash (leaf_input c)) (ex_commitments [CHR 0xFF])
      = map (\<lambda>c. receipt_hash (leaf_input c)) (ex_commitments [CHR 0xFE])"
    by (simp add: ex_commitments_def leaf_input_text commitment_json_def same_text_bad)
  with root [of "[CHR 0xFF]"] root [of "[CHR 0xFE]"] show ?thesis
    by (simp add: ex_commitments_def)
qed

theorem receipt_root_binds_witness:
  "\<exists>cs ds r. cs \<noteq> ds \<and> receipt_root cs = Inr r \<and> receipt_root ds = Inr r
     \<and> (list_all2 (\<lambda>c d. same_commitment c d \<and> cm_hash c = cm_hash d) cs ds
        \<or> collide receipt_hash (receipt_inputs cs) (receipt_inputs ds))"
proof -
  obtain r where r: "receipt_root (ex_commitments [CHR 0xFF]) = Inr r" "receipt_root (ex_commitments [CHR 0xFE]) = Inr r"
    using bad_ids_one_root by blast
  moreover have "list_all2 (\<lambda>c d. same_commitment c d \<and> cm_hash c = cm_hash d)
        (ex_commitments [CHR 0xFF]) (ex_commitments [CHR 0xFE])
      \<or> collide receipt_hash (receipt_inputs (ex_commitments [CHR 0xFF])) (receipt_inputs (ex_commitments [CHR 0xFE]))"
    using receipt_root_binds [OF r] by blast
  ultimately show ?thesis
    using bad_ids_one_root by blast
qed

text \<open>
  What is sealed verifies, and the outcomes of sealing. Under every interleaving of the search
  \<open>SealReceipts\<close> returns an error exactly for a difficulty outside 1..24 or commitments without a root; a
  batch it returns is accepted by \<open>VerifyReceiptBatch\<close> for the parent it was sealed on and every floor
  from 1 to its difficulty, and for no other parent and no higher floor.
\<close>
theorem seal_verifies:
  "case seal_receipts (Suc g) sched cs parent bits now of
     None \<Rightarrow> 1 \<le> bits \<and> bits \<le> 24 \<and> (\<exists>r. receipt_root cs = Inr r)
   | Some (Inl e) \<Rightarrow> bits < 1 \<or> 24 < bits \<or> receipt_root cs = Inl e
   | Some (Inr b) \<Rightarrow> rb_commitments b = cs \<and>
       (verify_receipt_batch b q min_bits = None \<longleftrightarrow> q = parent \<and> 1 \<le> min_bits \<and> min_bits \<le> bits)"
proof (cases "bits < 1 \<or> 24 < bits")
  case True
  then show ?thesis by (auto simp: seal_receipts_def)
next
  case bits: False
  show ?thesis
  proof (cases "receipt_root cs")
    case (Inl e)
    with bits show ?thesis by (simp add: seal_receipts_def)
  next
    case r: (Inr r)
    let ?h = "\<lparr>hd_parent = parent, hd_batch_root = r, hd_time_unix = unix_time now, hd_diff_bits = bits, hd_nonce = 0\<rparr>"
    show ?thesis
    proof (cases "pow_search (Suc g) sched ?h 0")
      case None
      with bits r show ?thesis by (simp add: seal_receipts_def)
    next
      case (Some s)
      then obtain n where n: "s = Inr (?h\<lparr>hd_nonce := n\<rparr>, n)" "header_valid (?h\<lparr>hd_nonce := n\<rparr>)"
        using pow_search_sound [OF Some] bits by auto
      with bits r Some show ?thesis
        by (auto simp: seal_receipts_def verify_receipt_batch_def)
    qed
  qed
qed

end
