(* ===== verification/Time_Text.thy ===== *)
theory Time_Text
  imports Json_Text
begin

text \<open>
  The text of a time determines the instant. \<open>time.RFC3339Nano\<close> prints a date whose parts have a fixed width
  while the year has four digits, and the fraction without its trailing zeros; the calendar itself is
  injective, since the day of the year computed from a day number stays within 0 to 365.
\<close>

subsection \<open>The calendar\<close>

text \<open>The year of the 400-year era and the day of the year, counted from March 1.\<close>

definition era_year :: "int \<Rightarrow> int" where
  "era_year doe = (doe - doe div 1460 + doe div 36524 - doe div 146096) div 365"

definition year_day :: "int \<Rightarrow> int" where
  "year_day doe = doe - (365 * era_year doe + era_year doe div 4 - era_year doe div 100)"

lemma era_year_bounds:
  assumes "0 \<le> doe" "doe < 146097"
  shows "0 \<le> era_year doe \<and> era_year doe < 400 \<and> 0 \<le> year_day doe \<and> year_day doe \<le> 365"
proof (cases "doe = 146096")
  case True
  then show ?thesis by (simp add: era_year_def year_day_def)
next
  case False
  define a c where "a = doe div 1460" and "c = doe div 36524"
  define y where "y = era_year doe"
  define g where "g = y div 4"
  have top: "doe \<le> 146095" using assms False by simp
  then have last: "doe div 146096 = 0" using assms by simp
  have y: "365 * y \<le> doe - a + c" "doe - a + c < 365 * y + 365"
    by (simp_all add: y_def era_year_def a_def c_def last)
  have a: "1460 * a \<le> doe" "doe < 1460 * a + 1460" by (simp_all add: a_def)
  have c: "36524 * c \<le> doe" "doe < 36524 * c + 36524" by (simp_all add: c_def)
  have g: "4 * g \<le> y" "y \<le> 4 * g + 3" by (simp_all add: g_def)
  have c4: "0 \<le> c" "c \<le> 3" using c assms(1) top by linarith+
  then have "c = 0 \<or> c = 1 \<or> c = 2 \<or> c = 3" by linarith
  then have century: "100 * c \<le> y \<and> y \<le> 100 * c + 99"
    using a c y assms(1) top by (elim disjE) simp_all
  then have h: "y div 100 = c" by linarith
  have "g \<le> a" using a c c4 g y century by linarith
  moreover have "a \<le> g + 1" using a c c4 g y century by linarith
  moreover have "year_day doe = (doe - a + c - 365 * y) + (a - g)"
    by (simp add: year_day_def y_def [symmetric] g_def h)
  ultimately show ?thesis
    using y c4 century by (simp add: y_def [symmetric])
qed

lemma civil_of_days_parts:
  "civil_of_days n =
    (let z = n + 306; doe = z mod 146097; doy = year_day doe; mp = (5 * doy + 2) div 153;
         m = (if mp < 10 then mp + 3 else mp - 9)
     in (era_year doe + z div 146097 * 400 + (if m \<le> 2 then 1 else 0), m, doy - (153 * mp + 2) div 5 + 1))"
  unfolding civil_of_days_def era_year_def year_day_def Let_def by (rule refl)

lemma month_bounds:
  assumes "0 \<le> doy" "doy \<le> (365 :: int)" "mp = (5 * doy + 2) div 153"
  shows "0 \<le> mp \<and> mp \<le> 11 \<and> 1 \<le> doy - (153 * mp + 2) div 5 + 1 \<and> doy - (153 * mp + 2) div 5 + 1 \<le> 31"
proof -
  have mp: "153 * mp \<le> 5 * doy + 2" "5 * doy + 2 < 153 * mp + 153" using assms(3) by simp_all
  define q where "q = (153 * mp + 2) div 5"
  have q: "5 * q \<le> 153 * mp + 2" "153 * mp + 2 < 5 * q + 5" by (simp_all add: q_def)
  show ?thesis unfolding q_def [symmetric] using mp q assms(1, 2) by linarith
qed

lemma civil_of_days_bounds:
  assumes "civil_of_days n = (y, m, d)"
  shows "1 \<le> m \<and> m \<le> 12 \<and> 1 \<le> d \<and> d \<le> 31"
proof -
  define e where "e = (n + 306) mod 146097"
  define p where "p = (5 * year_day e + 2) div 153"
  have "0 \<le> year_day e" "year_day e \<le> 365" using era_year_bounds [of e] by (simp_all add: e_def)
  note b = month_bounds [OF this p_def]
  have "m = (if p < 10 then p + 3 else p - 9) \<and> d = year_day e - (153 * p + 2) div 5 + 1"
    using assms by (simp only: civil_of_days_parts Let_def prod.inject e_def p_def)
  with b show ?thesis by (simp split: if_splits)
qed

lemma era_split:
  assumes "a + q * 400 = b + r * (400 :: int)" "0 \<le> a \<and> a < 400" "0 \<le> b \<and> b < 400"
  shows "a = b \<and> q = r"
proof -
  have "\<not> q < r" using assms by auto
  moreover have "\<not> r < q" using assms by auto
  ultimately have "q = r" by simp
  with assms(1) show ?thesis by simp
qed

lemma civil_of_days_inj:
  assumes "civil_of_days n = civil_of_days n'"
  shows "n = n'"
proof -
  define z z' where "z = n + 306" and "z' = n' + 306"
  define e e' where "e = z mod 146097" and "e' = z' mod 146097"
  define p p' where "p = (5 * year_day e + 2) div 153" and "p' = (5 * year_day e' + 2) div 153"
  have e: "0 \<le> e" "e < 146097" "0 \<le> e'" "e' < 146097" by (simp_all add: e_def e'_def)
  note b = era_year_bounds [OF e(1, 2)] and b' = era_year_bounds [OF e(3, 4)]
  have p: "0 \<le> p \<and> p \<le> 11" "0 \<le> p' \<and> p' \<le> 11"
    using month_bounds [of "year_day e" p] month_bounds [of "year_day e'" p'] b b' by (simp_all add: p_def p'_def)
  let ?m = "\<lambda>p :: int. if p < 10 then p + 3 else p - 9"
  have "era_year e + z div 146097 * 400 + (if ?m p \<le> 2 then 1 else 0) =
      era_year e' + z' div 146097 * 400 + (if ?m p' \<le> 2 then 1 else 0) \<and>
    ?m p = ?m p' \<and> year_day e - (153 * p + 2) div 5 + 1 = year_day e' - (153 * p' + 2) div 5 + 1"
    using assms unfolding civil_of_days_parts Let_def prod.inject z_def z'_def e_def e'_def p_def p'_def by (elim conjE) (intro conjI)
  then have eqs: "era_year e + z div 146097 * 400 + (if ?m p \<le> 2 then 1 else 0) =
      era_year e' + z' div 146097 * 400 + (if ?m p' \<le> 2 then 1 else 0)"
    "?m p = ?m p'" "year_day e - (153 * p + 2) div 5 + 1 = year_day e' - (153 * p' + 2) div 5 + 1"
    by blast+
  have pp: "p = p'" using eqs(2) p by (simp split: if_splits)
  then have yd: "year_day e = year_day e'" using eqs(3) by simp
  have years: "era_year e + z div 146097 * 400 = era_year e' + z' div 146097 * 400"
    using eqs(1) unfolding pp by (rule add_right_imp_eq)
  have "era_year e = era_year e'" "z div 146097 = z' div 146097" using era_split [OF years] b b' by blast+
  moreover from this have "e = e'" using yd by (simp add: year_day_def)
  ultimately have "z = z'" by (metis e_def e'_def div_mult_mod_eq)
  then show ?thesis by (simp add: z_def z'_def)
qed

subsection \<open>Numbers of fixed width\<close>

lemma digits_value_append: "digits_value (s @ t) = foldl (\<lambda>a c. 10 * a + (int (char_code c) - 48)) (digits_value s) t"
  by (simp add: digits_value_def)

lemma digits_value_zeros: "digits_value (replicate k (CHR ''0'') @ s) = digits_value s"
proof -
  have "digits_value (replicate k (CHR ''0'')) = 0"
    by (induction k) (simp_all add: digits_value_def char_code_def)
  then show ?thesis by (simp add: digits_value_append) (simp add: digits_value_def)
qed

lemma length_digits: "0 \<le> n \<Longrightarrow> n < 10 ^ w \<Longrightarrow> 0 < w \<Longrightarrow> length (digits n) \<le> w"
proof (induction w arbitrary: n)
  case (Suc w)
  show ?case
  proof (cases "n < 10")
    case True
    then show ?thesis by (simp add: digits.simps [of n])
  next
    case False
    then have "w \<noteq> 0" using Suc.prems by (intro notI) simp
    moreover have "n div 10 < 10 ^ w" using Suc.prems by simp
    ultimately show ?thesis using Suc.IH [of "n div 10"] Suc.prems False by (simp add: digits.simps [of n])
  qed
qed simp

lemma pad_digits_facts:
  assumes "0 \<le> n" "n < 10 ^ w" "0 < w"
  shows "length (pad_digits w n) = w \<and> digits_value (pad_digits w n) = n \<and> (\<forall>c \<in> set (pad_digits w n). is_digit c)"
  using length_digits [OF assms] digits_facts [OF assms(1)]
  by (auto simp: pad_digits_def Let_def digits_value_zeros is_digit_def char_code_def)

lemma pad_digits_unique:
  assumes "pad_digits w m @ x = pad_digits w n @ y" "0 \<le> m" "m < 10 ^ w" "0 \<le> n" "n < 10 ^ w" "0 < w"
  shows "m = n \<and> x = y"
  using pad_digits_facts [OF assms(2, 3, 6)] pad_digits_facts [OF assms(4, 5, 6)] assms(1)
  by (metis append_eq_append_conv)

subsection \<open>The text of an instant\<close>

lemma strip_zeros:
  assumes "z = rev (dropWhile (\<lambda>c. c = CHR ''0'') (rev s))"
  shows "s = z @ replicate (length s - length z) (CHR ''0'')"
proof -
  let ?t = "takeWhile (\<lambda>c. c = CHR ''0'') (rev s)"
  have r: "rev s = ?t @ rev z" using assms by simp
  have t: "?t = replicate (length ?t) (CHR ''0'')"
    by (metis (full_types) replicate_length_same set_takeWhileD)
  have "length s = length ?t + length z" using arg_cong [OF r, of length] by simp
  then have "length ?t = length s - length z" by simp
  with t have t': "?t = replicate (length s - length z) (CHR ''0'')" by simp
  have "s = rev (?t @ rev z)" using r by (metis rev_rev_ident)
  also have "\<dots> = z @ rev ?t" by simp
  finally show ?thesis using t' by simp
qed

lemma fraction_unique:
  assumes "fraction m @ ''Z'' = fraction n @ ''Z''" "0 \<le> m" "m < 10 ^ 9" "0 \<le> n" "n < 10 ^ 9"
  shows "m = n"
proof -
  have eq: "fraction m = fraction n" using assms(1) by simp
  show ?thesis
  proof (cases "m = 0 \<or> n = 0")
    case True
    then show ?thesis using eq by (auto simp: fraction_def split: if_splits)
  next
    case False
    define s where "s k = rev (dropWhile (\<lambda>c. c = CHR ''0'') (rev (pad_digits 9 k)))" for k
    have "s m = s n" using eq False by (simp add: fraction_def s_def)
    moreover have "length (pad_digits 9 m) = 9" "length (pad_digits 9 n) = 9"
      using pad_digits_facts assms by auto
    ultimately have "pad_digits 9 m = pad_digits 9 n"
      using strip_zeros [OF s_def [of m]] strip_zeros [OF s_def [of n]] by metis
    then show ?thesis using pad_digits_unique [of 9 m "[]" n "[]"] assms by simp
  qed
qed

lemma date_time_unique:
  assumes "date_time t @ x = date_time u @ y" "json_year_ok t" "json_year_ok u"
  shows "t div second = u div second \<and> x = y"
proof -
  define s s' where "s = t div second" and "s' = u div second"
  obtain Y M D where c: "civil_of_days (s div 86400) = (Y, M, D)" by (metis prod_cases3)
  obtain Y' M' D' where c': "civil_of_days (s' div 86400) = (Y', M', D')" by (metis prod_cases3)
  define r r' where "r = s mod 86400" and "r' = s' mod 86400"
  have r: "0 \<le> r" "r < 86400" "0 \<le> r'" "r' < 86400" by (simp_all add: r_def r'_def)
  have Y: "0 \<le> Y" "Y \<le> 9999" "0 \<le> Y'" "Y' \<le> 9999"
    using assms(2, 3) c c' by (simp_all add: json_year_ok_def s_def s'_def)
  note b = civil_of_days_bounds [OF c] civil_of_days_bounds [OF c']
  have eq: "pad_digits 4 Y @ ''-'' @ pad_digits 2 M @ ''-'' @ pad_digits 2 D @ ''T'' @
      pad_digits 2 (r div 3600) @ '':'' @ pad_digits 2 (r div 60 mod 60) @ '':'' @ pad_digits 2 (r mod 60) @ x =
    pad_digits 4 Y' @ ''-'' @ pad_digits 2 M' @ ''-'' @ pad_digits 2 D' @ ''T'' @
      pad_digits 2 (r' div 3600) @ '':'' @ pad_digits 2 (r' div 60 mod 60) @ '':'' @ pad_digits 2 (r' mod 60) @ y"
    using assms(1) c c' Y by (simp add: date_time_def year_digits_def s_def s'_def r_def r'_def Let_def)
  have 1: "Y = Y'" and e1: "pad_digits 2 M @ ''-'' @ pad_digits 2 D @ ''T'' @
      pad_digits 2 (r div 3600) @ '':'' @ pad_digits 2 (r div 60 mod 60) @ '':'' @ pad_digits 2 (r mod 60) @ x =
    pad_digits 2 M' @ ''-'' @ pad_digits 2 D' @ ''T'' @
      pad_digits 2 (r' div 3600) @ '':'' @ pad_digits 2 (r' div 60 mod 60) @ '':'' @ pad_digits 2 (r' mod 60) @ y"
    using pad_digits_unique [OF eq] Y by auto
  have 2: "M = M'" and e2: "pad_digits 2 D @ ''T'' @
      pad_digits 2 (r div 3600) @ '':'' @ pad_digits 2 (r div 60 mod 60) @ '':'' @ pad_digits 2 (r mod 60) @ x =
    pad_digits 2 D' @ ''T'' @
      pad_digits 2 (r' div 3600) @ '':'' @ pad_digits 2 (r' div 60 mod 60) @ '':'' @ pad_digits 2 (r' mod 60) @ y"
    using pad_digits_unique [OF e1] b by auto
  have 3: "D = D'" and e3: "pad_digits 2 (r div 3600) @ '':'' @ pad_digits 2 (r div 60 mod 60) @ '':'' @ pad_digits 2 (r mod 60) @ x =
    pad_digits 2 (r' div 3600) @ '':'' @ pad_digits 2 (r' div 60 mod 60) @ '':'' @ pad_digits 2 (r' mod 60) @ y"
    using pad_digits_unique [OF e2] b by auto
  have h: "0 \<le> r div 3600" "r div 3600 < 100" "0 \<le> r' div 3600" "r' div 3600 < 100" using r by auto
  have 4: "r div 3600 = r' div 3600" and e4: "pad_digits 2 (r div 60 mod 60) @ '':'' @ pad_digits 2 (r mod 60) @ x =
    pad_digits 2 (r' div 60 mod 60) @ '':'' @ pad_digits 2 (r' mod 60) @ y"
    using pad_digits_unique [OF e3] h by auto
  have m60: "0 \<le> k mod 60" "k mod 60 < 100" for k :: int using pos_mod_bound [of 60 k] by auto
  have 5: "r div 60 mod 60 = r' div 60 mod 60" and e5: "pad_digits 2 (r mod 60) @ x = pad_digits 2 (r' mod 60) @ y"
    using pad_digits_unique [OF e4] m60 by auto
  have 6: "r mod 60 = r' mod 60" and xy: "x = y"
    using pad_digits_unique [OF e5] m60 by auto
  have "r div 60 div 60 = r' div 60 div 60" using 4 by (simp flip: zdiv_zmult2_eq)
  with 5 have "r div 60 = r' div 60" by (metis div_mult_mod_eq)
  with 6 have "r = r'" by (metis div_mult_mod_eq)
  moreover have "s div 86400 = s' div 86400"
    using civil_of_days_inj c c' 1 2 3 by simp
  ultimately have "s = s'" by (metis r_def r'_def div_mult_mod_eq)
  with xy show ?thesis by (simp add: s_def s'_def)
qed

lemma rfc3339_nano_inj:
  assumes "format_rfc3339_nano t = format_rfc3339_nano u" "json_year_ok t" "json_year_ok u"
  shows "t = u"
proof -
  have eq: "date_time t @ fraction (t mod second) @ ''Z'' = date_time u @ fraction (u mod second) @ ''Z''"
    using assms(1) by (simp only: format_rfc3339_nano_def)
  have q: "t div second = u div second" and f: "fraction (t mod second) @ ''Z'' = fraction (u mod second) @ ''Z''"
    using date_time_unique [OF eq assms(2, 3)] by simp_all
  have "0 \<le> k mod second" "k mod second < 10 ^ 9" for k by (simp_all add: second_def)
  then have "t mod second = u mod second" using fraction_unique [OF f] by blast
  with q show ?thesis by (metis div_mult_mod_eq)
qed

text \<open>A time in a JSON text.\<close>

definition time_json :: "go_time \<Rightarrow> string" where
  "time_json t = CHR 0x22 # format_rfc3339_nano t @ [CHR 0x22]"

lemma quote_not_digit: "is_digit c \<Longrightarrow> c \<noteq> CHR 0x22"
  by (auto simp: is_digit_def char_code_def)

lemma pad_digits_no_quote: "0 \<le> n \<Longrightarrow> CHR 0x22 \<notin> set (pad_digits w n)"
  using digits_facts [of n] quote_not_digit by (auto simp: pad_digits_def Let_def)

lemma format_no_quote: "CHR 0x22 \<notin> set (format_rfc3339_nano t)"
proof -
  obtain Y M D where c: "civil_of_days (t div second div 86400) = (Y, M, D)" by (metis prod_cases3)
  have "CHR 0x22 \<notin> set (year_digits Y)" by (auto simp: year_digits_def pad_digits_no_quote)
  moreover have "0 \<le> M" "0 \<le> D" using civil_of_days_bounds [OF c] by auto
  moreover have "CHR 0x22 \<notin> set (fraction (t mod second))"
    using pad_digits_no_quote [of "t mod second" 9]
    by (auto simp: fraction_def second_def dest: set_dropWhileD)
  ultimately show ?thesis
    using c by (simp add: format_rfc3339_nano_def date_time_def Let_def pad_digits_no_quote pos_imp_zdiv_nonneg_iff)
qed

lemma time_json_unique:
  assumes "time_json t @ x = time_json u @ y" "json_year_ok t" "json_year_ok u"
  shows "t = u \<and> x = y"
proof -
  let ?q = "\<lambda>c. c \<noteq> CHR 0x22"
  have eq: "format_rfc3339_nano t @ CHR 0x22 # x = format_rfc3339_nano u @ CHR 0x22 # y"
    using assms(1) by (simp add: time_json_def)
  have tw: "takeWhile ?q (format_rfc3339_nano k @ CHR 0x22 # z) = format_rfc3339_nano k" for k z
    using format_no_quote [of k] by (subst takeWhile_append2) auto
  have "format_rfc3339_nano t = format_rfc3339_nano u" using eq tw by metis
  then show ?thesis using rfc3339_nano_inj assms(2, 3) eq by simp
qed

end
