(* ===== verification/L2_Batch.thy ===== *)
theory L2_Batch
  imports Agreement L2_Receipts Time_Text
begin

text \<open>
  Batches of agreements sealed by a proof of work, \<open>internal/l2/batch.go\<close> and \<open>verify.go\<close>: the digest of an
  agreement's terms, the batch root over terms and receipt heads, \<open>Seal\<close>, and the verifier. The parameter
  \<open>fmt_f\<close> is \<open>strconv.FormatFloat(x, 'f', -1, 64)\<close>, of which only the text matters.
  What a seal fixes of its agreements is their hashed texts, and every field of the terms where none contains the
  separator byte.
\<close>

subsection \<open>The terms of an agreement\<close>

definition terms_fields :: "(f64 \<Rightarrow> string) \<Rightarrow> agreement \<Rightarrow> string list" where
  "terms_fields fmt_f a =
    [ag_id a, ag_kind a, ag_buyer a, ag_seller a, itoa (sint (ag_amount a)),
     ''{Symbol:'' @ un_symbol (ag_unit a) @ ''}'',
     fmt_f (mt_cost_usd (ag_meter a)), mt_effort (ag_meter a), fmt_f (mt_budget_usd (ag_meter a)),
     itoa (sint (mt_max_steps (ag_meter a))),
     format_rfc3339_nano (ag_created_at a), format_rfc3339_nano (ag_deadline a)]"

text \<open>Each field is written, then a separator byte 0.\<close>

definition terms_digest :: "(f64 \<Rightarrow> string) \<Rightarrow> agreement option \<Rightarrow> go_error + bytes" where
  "terms_digest fmt_f oa =
    (case oa of
       None \<Rightarrow> Inl (Errorf ''l2: nil agreement'' [])
     | Some a \<Rightarrow> Inr (keccak_sum (concat (map (\<lambda>s. [bytes_of s, [0]]) (terms_fields fmt_f a)))))"

subsection \<open>The batch root\<close>

text \<open>What the loop of \<open>Root\<close> writes into the hash. \<open>hex_error\<close> stands for the error of \<open>hex.DecodeString\<close>.\<close>

definition hex_error :: go_error where
  "hex_error = Errorf ''encoding/hex: invalid byte'' []"

fun root_writes :: "(f64 \<Rightarrow> string) \<Rightarrow> agreement option list \<Rightarrow> go_error + bytes list" where
  "root_writes fmt_f [] = Inr []"
| "root_writes fmt_f (oa # oas) =
    (case oa of
       None \<Rightarrow> Inl (Errorf ''l2: empty agreement'' [])
     | Some a \<Rightarrow>
         if ag_receipts a = [] then Inl (Errorf ''l2: empty agreement'' [])
         else case ag_verify_receipts a of
           Some e \<Rightarrow> Inl e
         | None \<Rightarrow>
             (case terms_digest fmt_f oa of
                Inl e \<Rightarrow> Inl e
              | Inr terms \<Rightarrow>
                  (case hex_decode (r_hash (last (ag_receipts a))) of
                     None \<Rightarrow> Inl hex_error
                   | Some raw \<Rightarrow>
                       (case root_writes fmt_f oas of Inl e \<Rightarrow> Inl e | Inr ws \<Rightarrow> Inr (terms # raw # ws)))))"

definition batch_root :: "(f64 \<Rightarrow> string) \<Rightarrow> agreement option list \<Rightarrow> go_error + bytes" where
  "batch_root fmt_f oas =
    (case root_writes fmt_f oas of Inl e \<Rightarrow> Inl e | Inr ws \<Rightarrow> Inr (keccak_sum ws))"

record batch =
  bt_agreements :: "agreement option list"
  bt_header :: header

definition seal_batch ::
  "(f64 \<Rightarrow> string) \<Rightarrow> nat \<Rightarrow> nat list \<Rightarrow> agreement option list \<Rightarrow> int \<Rightarrow> go_time \<Rightarrow> (go_error + batch) option" where
  "seal_batch fmt_f gomaxprocs sched oas bits now =
    (case batch_root fmt_f oas of
       Inl e \<Rightarrow> Some (Inl e)
     | Inr r \<Rightarrow>
         (case pow_search gomaxprocs sched
             \<lparr>hd_parent = replicate 32 0, hd_batch_root = r, hd_time_unix = unix_time now, hd_diff_bits = bits, hd_nonce = 0\<rparr> 0 of
            None \<Rightarrow> None
          | Some (Inl e) \<Rightarrow> Some (Inl e)
          | Some (Inr (h, _)) \<Rightarrow> Some (Inr \<lparr>bt_agreements = oas, bt_header = h\<rparr>)))"

text \<open>The dash of the error texts, in UTF-8.\<close>

abbreviation em_dash :: string where
  "em_dash \<equiv> [CHR 0xE2, CHR 0x80, CHR 0x94]"

definition l2_verify :: "(f64 \<Rightarrow> string) \<Rightarrow> agreement option list \<Rightarrow> header \<Rightarrow> int \<Rightarrow> go_error option" where
  "l2_verify fmt_f oas h min_bits =
    (if hd_diff_bits h < min_bits
     then Some (Errorf ''l2: verify: DiffBits %d below floor %d'' [itoa (hd_diff_bits h), itoa min_bits])
     else case batch_root fmt_f oas of
       Inl e \<Rightarrow> Some (Wrapf ''l2: verify: %w'' [] e)
     | Inr r \<Rightarrow>
         if r \<noteq> hd_batch_root h
         then Some (Errorf (''l2: verify: batch root mismatch '' @ em_dash @ '' barter history rewritten or seal bound to other agreements'') [])
         else if \<not> header_valid h
         then Some (Errorf (''l2: verify: PoW invalid '' @ em_dash @ '' seal not re-mineable at DiffBits %d'') [itoa (hd_diff_bits h)])
         else None)"

definition verify_batch :: "(f64 \<Rightarrow> string) \<Rightarrow> batch \<Rightarrow> int \<Rightarrow> go_error option" where
  "verify_batch fmt_f b min_bits = l2_verify fmt_f (bt_agreements b) (bt_header b) min_bits"

subsection \<open>Separated fields and equal blocks\<close>

lemma fields_unique:
  assumes "concat (map (\<lambda>f. f @ [z]) fs) = concat (map (\<lambda>f. f @ [z]) gs)"
    and "\<forall>f \<in> set fs. z \<notin> set f" "\<forall>g \<in> set gs. z \<notin> set g"
  shows "fs = gs"
  using assms
proof (induction fs arbitrary: gs)
  case Nil
  then show ?case by (cases gs) auto
next
  case (Cons f fs)
  then obtain g gs' where gs: "gs = g # gs'" by (cases gs) auto
  have tw: "takeWhile (\<lambda>c. c \<noteq> z) (h @ z # r) = h" if "z \<notin> set h" for h r
    using that by (induction h) auto
  have e: "f @ z # concat (map (\<lambda>f. f @ [z]) fs) = g @ z # concat (map (\<lambda>f. f @ [z]) gs')"
    using Cons.prems(1) gs by simp
  then have "f = g" using tw Cons.prems(2, 3) gs by (metis list.set_intros(1))
  with e Cons gs show ?case by simp
qed

lemma blocks_unique:
  assumes "concat xs = concat ys" "0 < k" "\<forall>x \<in> set xs. length x = k" "\<forall>y \<in> set ys. length y = k"
  shows "xs = ys"
  using assms(1, 3, 4)
proof (induction xs arbitrary: ys)
  case Nil
  then show ?case using assms(2) by (cases ys) auto
next
  case (Cons x xs)
  moreover from this assms(2) obtain y ys' where "ys = y # ys'" by (cases ys) auto
  ultimately show ?case by auto
qed

definition terms_input :: "(f64 \<Rightarrow> string) \<Rightarrow> agreement \<Rightarrow> bytes" where
  "terms_input fmt_f a = bytes_of (concat (map (\<lambda>f. f @ [CHR 0x00]) (terms_fields fmt_f a)))"

lemma bytes_of_fields: "concat (concat (map (\<lambda>s. [bytes_of s, [0]]) fs)) = bytes_of (concat (map (\<lambda>f. f @ [CHR 0x00]) fs))"
  by (induction fs) (simp_all add: bytes_of_def)

lemma terms_digest_input: "terms_digest fmt_f (Some a) = Inr (keccak256 (terms_input fmt_f a))"
  by (simp add: terms_digest_def keccak_sum bytes_of_fields terms_input_def)

subsection \<open>What the root commits to\<close>

definition head_text :: "agreement \<Rightarrow> string" where
  "head_text a = receipt_text (ag_id a) (last (ag_receipts a))"

definition deal_blocks :: "(f64 \<Rightarrow> string) \<Rightarrow> agreement list \<Rightarrow> bytes list" where
  "deal_blocks fmt_f as = concat (map (\<lambda>a. [keccak256 (terms_input fmt_f a), sha256 (bytes_of (head_text a))]) as)"

lemma deal_blocks_pairs:
  assumes "deal_blocks fmt_f as = deal_blocks fmt_f bs"
  shows "list_all2 (\<lambda>a b. keccak256 (terms_input fmt_f a) = keccak256 (terms_input fmt_f b) \<and>
    sha256 (bytes_of (head_text a)) = sha256 (bytes_of (head_text b))) as bs"
  using assms
proof (induction as arbitrary: bs)
  case Nil
  then show ?case by (cases bs) (simp_all add: deal_blocks_def)
next
  case (Cons a as)
  then show ?case by (cases bs) (simp_all add: deal_blocks_def)
qed

lemma root_writes_ok:
  assumes "root_writes fmt_f oas = Inr ws"
  shows "\<exists>as. oas = map Some as \<and> ws = deal_blocks fmt_f as \<and>
    (\<forall>a \<in> set as. ag_receipts a \<noteq> [] \<and> verify_receipts (ag_id a) (ag_receipts a) = None)"
  using assms
proof (induction fmt_f oas arbitrary: ws rule: root_writes.induct)
  case (1 fmt_f)
  then show ?case by (auto simp: deal_blocks_def)
next
  case (2 fmt_f oa oas)
  then obtain a where a: "oa = Some a" "ag_receipts a \<noteq> []" "verify_receipts (ag_id a) (ag_receipts a) = None"
    by (auto simp: ag_verify_receipts_def split: option.splits if_splits)
  obtain rs r where rs: "ag_receipts a = rs @ [r]" using a(2) by (cases "ag_receipts a" rule: rev_cases) auto
  then have h: "r_hash r = hex_encode (sha256 (bytes_of (head_text a)))"
    using a(3) by (simp add: verify_receipts_snoc hash_receipt_def head_text_def)
  obtain ws' where ws': "root_writes fmt_f oas = Inr ws'"
      "ws = keccak256 (terms_input fmt_f a) # sha256 (bytes_of (head_text a)) # ws'"
    using "2.prems" a rs h by (auto simp: ag_verify_receipts_def terms_digest_input split: sum.splits)
  have "\<exists>as. oas = map Some as \<and> ws' = deal_blocks fmt_f as \<and>
      (\<forall>a \<in> set as. ag_receipts a \<noteq> [] \<and> verify_receipts (ag_id a) (ag_receipts a) = None)"
    using "2.IH" [OF a(1) a(2), of "keccak256 (terms_input fmt_f a)" "sha256 (bytes_of (head_text a))" ws']
      a rs h ws'(1) by (simp add: ag_verify_receipts_def terms_digest_input)
  then obtain as where "oas = map Some as" "ws' = deal_blocks fmt_f as"
      "\<forall>a \<in> set as. ag_receipts a \<noteq> [] \<and> verify_receipts (ag_id a) (ag_receipts a) = None" by blast
  then show ?case
    using a ws' by (intro exI [of _ "a # as"]) (simp add: deal_blocks_def)
qed

text \<open>Two agreements whose terms the digest writes alike, separators included, and with the same history.\<close>

definition sealed_alike :: "(f64 \<Rightarrow> string) \<Rightarrow> agreement option \<Rightarrow> agreement option \<Rightarrow> bool" where
  "sealed_alike fmt_f oa ob =
    (case (oa, ob) of
       (Some a, Some b) \<Rightarrow> terms_input fmt_f a = terms_input fmt_f b \<and>
         texts (ag_id a) (ag_receipts a) = texts (ag_id b) (ag_receipts b)
     | _ \<Rightarrow> False)"

text \<open>The inputs of the three hashes behind a root.\<close>

definition root_input :: "(f64 \<Rightarrow> string) \<Rightarrow> agreement option list \<Rightarrow> bytes" where
  "root_input fmt_f oas = concat (deal_blocks fmt_f (map the oas))"

definition term_inputs :: "(f64 \<Rightarrow> string) \<Rightarrow> agreement option list \<Rightarrow> bytes list" where
  "term_inputs fmt_f oas = map (\<lambda>oa. terms_input fmt_f (the oa)) oas"

definition history_texts :: "agreement option list \<Rightarrow> string list" where
  "history_texts oas = concat (map (\<lambda>oa. texts (ag_id (the oa)) (ag_receipts (the oa))) oas)"

definition root_collision :: "(f64 \<Rightarrow> string) \<Rightarrow> agreement option list \<Rightarrow> agreement option list \<Rightarrow> bool" where
  "root_collision fmt_f xs ys \<longleftrightarrow>
    collide keccak256 [root_input fmt_f xs] [root_input fmt_f ys] \<or>
    collide keccak256 (term_inputs fmt_f xs) (term_inputs fmt_f ys) \<or>
    text_collision (history_texts xs) (history_texts ys)"

text \<open>No field of the terms contains the separator byte.\<close>

definition separable :: "(f64 \<Rightarrow> string) \<Rightarrow> agreement option \<Rightarrow> bool" where
  "separable fmt_f oa \<longleftrightarrow> list_all (\<lambda>f. CHR 0x00 \<notin> set f) (terms_fields fmt_f (the oa))"

lemma terms_input_inj:
  assumes "terms_input fmt_f a = terms_input fmt_f b" "separable fmt_f (Some a)" "separable fmt_f (Some b)"
  shows "terms_fields fmt_f a = terms_fields fmt_f b"
  using assms fields_unique [of "CHR 0x00" "terms_fields fmt_f a" "terms_fields fmt_f b"]
  by (simp add: terms_input_def separable_def list_all_iff)

lemma head_text_last:
  assumes "ag_receipts a \<noteq> []" "verify_receipts (ag_id a) (ag_receipts a) = None"
  shows "head_hash (ag_receipts a) = hash_text (head_text a)"
  using assms
  by (cases "ag_receipts a" rule: rev_cases) (simp_all add: verify_receipts_snoc hash_receipt_text head_text_def)

lemma same_root_deals:
  assumes "batch_root fmt_f xs = Inr r" "batch_root fmt_f ys = Inr r"
  shows "list_all2 (sealed_alike fmt_f) xs ys \<or> root_collision fmt_f xs ys"
proof -
  obtain ws where ws: "root_writes fmt_f xs = Inr ws" "r = keccak256 (concat ws)"
    using assms(1) by (auto simp: batch_root_def keccak_sum split: sum.splits)
  obtain vs where vs: "root_writes fmt_f ys = Inr vs" "r = keccak256 (concat vs)"
    using assms(2) by (auto simp: batch_root_def keccak_sum split: sum.splits)
  obtain as where as: "xs = map Some as" "ws = deal_blocks fmt_f as"
    "\<forall>a \<in> set as. ag_receipts a \<noteq> [] \<and> verify_receipts (ag_id a) (ag_receipts a) = None"
    using root_writes_ok [OF ws(1)] by blast
  obtain bs where bs: "ys = map Some bs" "vs = deal_blocks fmt_f bs"
    "\<forall>a \<in> set bs. ag_receipts a \<noteq> [] \<and> verify_receipts (ag_id a) (ag_receipts a) = None"
    using root_writes_ok [OF vs(1)] by blast
  have inputs: "root_input fmt_f xs = concat ws" "root_input fmt_f ys = concat vs"
    using as bs by (simp_all add: root_input_def comp_def)
  show ?thesis
  proof (rule disjCI)
    assume no: "\<not> root_collision fmt_f xs ys"
    then have "concat ws = concat vs"
      using ws(2) vs(2) inputs by (auto simp: root_collision_def collide_iff)
    then have "ws = vs"
      by (rule blocks_unique [where k = 32]) (auto simp: as bs deal_blocks_def)
    then have pairs: "list_all2 (\<lambda>a b. keccak256 (terms_input fmt_f a) = keccak256 (terms_input fmt_f b) \<and>
        sha256 (bytes_of (head_text a)) = sha256 (bytes_of (head_text b))) as bs"
      by (intro deal_blocks_pairs) (simp add: as(2) bs(2))
    have deal: "sealed_alike fmt_f (Some a) (Some b)"
      if ab: "a \<in> set as" "b \<in> set bs" "keccak256 (terms_input fmt_f a) = keccak256 (terms_input fmt_f b)"
        "sha256 (bytes_of (head_text a)) = sha256 (bytes_of (head_text b))" for a b
    proof -
      have "\<not> collide keccak256 (term_inputs fmt_f xs) (term_inputs fmt_f ys)"
        using no by (simp add: root_collision_def)
      then have "terms_input fmt_f a = terms_input fmt_f b"
        using ab as(1) bs(1) unfolding collide_iff term_inputs_def by auto
      moreover have "head_hash (ag_receipts a) = head_hash (ag_receipts b)"
        using ab as(3) bs(3) head_text_last by (simp add: hash_text_def)
      then have "texts (ag_id a) (ag_receipts a) = texts (ag_id b) (ag_receipts b) \<or>
          text_collision (texts (ag_id a) (ag_receipts a)) (texts (ag_id b) (ag_receipts b))"
        using same_head_texts as(3) bs(3) ab(1, 2) by blast
      moreover have "\<not> text_collision (texts (ag_id a) (ag_receipts a)) (texts (ag_id b) (ag_receipts b))"
        using no ab(1, 2) as(1) bs(1)
        by (fastforce simp: root_collision_def text_collision_def history_texts_def list_ex_iff)
      ultimately show ?thesis by (simp add: sealed_alike_def)
    qed
    show "list_all2 (sealed_alike fmt_f) xs ys"
      unfolding as(1) bs(1) list_all2_map1 list_all2_map2
      using pairs deal by (auto simp: list_all2_conv_all_nth)
  qed
qed

subsection \<open>Properties\<close>

text \<open>
  What the digest of the terms fixes when no field contains the separator: every field it writes, the costs as the texts
  of \<open>FormatFloat\<close> and the times as those of RFC 3339, which in the years from 0 to 9999 are the times themselves.
\<close>

definition same_time :: "go_time \<Rightarrow> go_time \<Rightarrow> bool" where
  "same_time s t \<longleftrightarrow> format_rfc3339_nano s = format_rfc3339_nano t \<and> (json_year_ok s \<and> json_year_ok t \<longrightarrow> s = t)"

definition same_facts :: "(f64 \<Rightarrow> string) \<Rightarrow> agreement \<Rightarrow> agreement \<Rightarrow> bool" where
  "same_facts fmt_f a b \<longleftrightarrow>
     ag_id a = ag_id b \<and> ag_kind a = ag_kind b \<and> ag_buyer a = ag_buyer b \<and> ag_seller a = ag_seller b \<and>
     ag_amount a = ag_amount b \<and> un_symbol (ag_unit a) = un_symbol (ag_unit b) \<and>
     fmt_f (mt_cost_usd (ag_meter a)) = fmt_f (mt_cost_usd (ag_meter b)) \<and> mt_effort (ag_meter a) = mt_effort (ag_meter b) \<and>
     fmt_f (mt_budget_usd (ag_meter a)) = fmt_f (mt_budget_usd (ag_meter b)) \<and>
     mt_max_steps (ag_meter a) = mt_max_steps (ag_meter b) \<and>
     same_time (ag_created_at a) (ag_created_at b) \<and> same_time (ag_deadline a) (ag_deadline b)"

lemma itoa_inj: "itoa m = itoa n \<Longrightarrow> m = n"
  using itoa_unique [of m "[]" n "[]"] by simp

lemma same_fields_facts: "terms_fields fmt_f a = terms_fields fmt_f b \<Longrightarrow> same_facts fmt_f a b"
  by (auto simp: same_facts_def same_time_def terms_fields_def dest: itoa_inj signed_word_eqI rfc3339_nano_inj)

lemma verified_root: "l2_verify fmt_f xs h m = None \<Longrightarrow> batch_root fmt_f xs = Inr (hd_batch_root h)"
  by (auto simp: l2_verify_def split: if_splits sum.splits)

text \<open>
  C35. A seal is bound to its agreements. If \<open>Verify\<close> accepts one header for two lists of agreements, at any two floors,
  then the lists have the same length and agree one for one in the text that is hashed of their terms and in the whole text
  of their receipts; and where no field of the terms contains the separator byte 0 (\<open>separable\<close>), which the code does not
  check, they agree in every field of the terms: identifier, kind, parties, amount, unit, cost, effort, budget, step limit,
  creation time and deadline (\<open>same_facts\<close>). Otherwise two different inputs hashed for the roots have the same Keccak-256
  or SHA-256 value.
\<close>
theorem l2_seal_binds:
  assumes "l2_verify fmt_f xs h m = None" "l2_verify fmt_f ys h m' = None"
  shows "list_all2 (\<lambda>oa ob. \<exists>a b. oa = Some a \<and> ob = Some b
      \<and> terms_input fmt_f a = terms_input fmt_f b
      \<and> texts (ag_id a) (ag_receipts a) = texts (ag_id b) (ag_receipts b)
      \<and> (separable fmt_f oa \<and> separable fmt_f ob \<longrightarrow> same_facts fmt_f a b)) xs ys
    \<or> root_collision fmt_f xs ys"
proof -
  have alike: "\<exists>a b. oa = Some a \<and> ob = Some b \<and> terms_input fmt_f a = terms_input fmt_f b
      \<and> texts (ag_id a) (ag_receipts a) = texts (ag_id b) (ag_receipts b)
      \<and> (separable fmt_f oa \<and> separable fmt_f ob \<longrightarrow> same_facts fmt_f a b)" if "sealed_alike fmt_f oa ob" for oa ob
  proof -
    from that obtain a b where ab: "oa = Some a" "ob = Some b" "terms_input fmt_f a = terms_input fmt_f b"
        "texts (ag_id a) (ag_receipts a) = texts (ag_id b) (ag_receipts b)"
      by (auto simp: sealed_alike_def split: option.splits)
    then have "separable fmt_f oa \<and> separable fmt_f ob \<longrightarrow> same_facts fmt_f a b"
      using terms_input_inj [OF ab(3)] same_fields_facts by blast
    with ab show ?thesis
      by blast
  qed
  from same_root_deals [OF verified_root [OF assms(1)] verified_root [OF assms(2)]] show ?thesis
  proof
    assume "list_all2 (sealed_alike fmt_f) xs ys"
    then show ?thesis
      by (intro disjI1) (erule list_all2_mono, rule alike)
  qed simp
qed

definition ex_deal :: agreement where
  "ex_deal =
    (let a = \<lparr>ag_id = ''deal-1'', ag_kind = ''escrow'', ag_buyer = ''ada'', ag_seller = ''bob'', ag_amount = 3,
              ag_unit = \<lparr>un_symbol = []\<rparr>, ag_status = StatusOpen, ag_meter = plain_meter 8, ag_deadline = 0,
              ag_created_at = 0, ag_locked_at = None, ag_closed_at = None, ag_released_to = [],
              ag_receipts = [], ag_sealed = None, ag_sealed_locks = [], ag_sealed_sum = [], ag_steps = 0\<rparr>
     in a\<lparr>ag_receipts := [new_receipt ''deal-1'' [] ''ada'' ''open'' ''agreement opened'' 0], ag_steps := 1\<rparr>)"

definition ex_fmt :: "f64 \<Rightarrow> string" where
  "ex_fmt x = itoa (uint x)"

lemma ex_deal_opens: "open_agreement ''deal-1'' ''escrow'' ''ada'' ''bob'' 3 (plain_meter 8) 0 = Inr ex_deal"
  by (simp add: open_agreement_def open_agreement_with_def ag_append_def Let_def plain_meter_def over_budget_def
      f64_gt_def ex_deal_def)

lemma ex_deal_separable: "separable ex_fmt (Some ex_deal)"
proof -
  have "terms_fields ex_fmt ex_deal =
      [''deal-1'', ''escrow'', ''ada'', ''bob'', itoa 3, ''{Symbol:}'', itoa 0, ''flash'', itoa 0, itoa 8,
       format_rfc3339_nano 0, format_rfc3339_nano 0]"
    by (simp add: terms_fields_def ex_deal_def Let_def plain_meter_def ex_fmt_def)
  moreover have "format_rfc3339_nano 0 = ''0001-01-01T00:00:00Z''"
    by code_simp
  moreover have "itoa 3 = ''3''" "itoa 0 = ''0''" "itoa 8 = ''8''"
    by code_simp+
  ultimately show ?thesis by (simp add: separable_def)
qed

text \<open>Two different agreements under one header: the status is not part of the terms, the receipts tell it.\<close>

theorem l2_seal_binds_witness:
  "\<exists>h a b. a \<noteq> b \<and> l2_verify ex_fmt [Some a] h 0 = None \<and> l2_verify ex_fmt [Some b] h 0 = None
     \<and> (same_facts ex_fmt a b \<or> root_collision ex_fmt [Some a] [Some b])"
proof -
  let ?b = "ex_deal\<lparr>ag_status := StatusLocked\<rparr>"
  have "ag_verify_receipts ex_deal = None"
    using verify_receipts_new [of "''deal-1''" "[]"] by (simp add: ag_verify_receipts_def ex_deal_def Let_def)
  moreover obtain raw where "hex_decode (r_hash (last (ag_receipts ex_deal))) = Some raw" "ag_receipts ex_deal \<noteq> []"
    by (simp add: ex_deal_def Let_def new_receipt_def hash_receipt_def)
  moreover have fields: "terms_fields ex_fmt ?b = terms_fields ex_fmt ex_deal"
    by (simp add: terms_fields_def)
  ultimately obtain r where "batch_root ex_fmt [Some ex_deal] = Inr r" "batch_root ex_fmt [Some ?b] = Inr r"
    by (simp add: batch_root_def terms_digest_def ag_verify_receipts_def)
  then have v: "l2_verify ex_fmt [Some ex_deal] (ex_header\<lparr>hd_batch_root := r\<rparr>) 0 = None"
      "l2_verify ex_fmt [Some ?b] (ex_header\<lparr>hd_batch_root := r\<rparr>) 0 = None"
    by (simp_all add: l2_verify_def header_valid_def ex_header_def)
  moreover have "separable ex_fmt (Some ?b)"
    using ex_deal_separable fields by (simp add: separable_def)
  then have "same_facts ex_fmt ex_deal ?b \<or> root_collision ex_fmt [Some ex_deal] [Some ?b]"
    using l2_seal_binds [OF v] ex_deal_separable by auto
  moreover have "ag_status ex_deal \<noteq> ag_status ?b"
    by (simp add: ex_deal_def Let_def)
  then have "ex_deal \<noteq> ?b"
    by metis
  ultimately show ?thesis
    by blast
qed

text \<open>
  The separator does not make the digest of the terms unambiguous, as the comment has it: a string field
  may itself contain the byte 0. Two agreements with different identifiers and kinds have the same digest,
  whatever the rest of their terms.
\<close>
theorem terms_digest_ambiguous:
  "terms_digest fmt_f (Some (a\<lparr>ag_id := u @ CHR 0x00 # v, ag_kind := w\<rparr>)) =
    terms_digest fmt_f (Some (a\<lparr>ag_id := u, ag_kind := v @ CHR 0x00 # w\<rparr>)) \<and>
   a\<lparr>ag_id := u @ CHR 0x00 # v, ag_kind := w\<rparr> \<noteq> a\<lparr>ag_id := u, ag_kind := v @ CHR 0x00 # w\<rparr>"
proof -
  have "ag_id (a\<lparr>ag_id := u @ CHR 0x00 # v, ag_kind := w\<rparr>) \<noteq> ag_id (a\<lparr>ag_id := u, ag_kind := v @ CHR 0x00 # w\<rparr>)"
    by simp
  then have "a\<lparr>ag_id := u @ CHR 0x00 # v, ag_kind := w\<rparr> \<noteq> a\<lparr>ag_id := u, ag_kind := v @ CHR 0x00 # w\<rparr>"
    by (rule contrapos_nn) (rule arg_cong)
  then show ?thesis
    by (simp add: terms_digest_input terms_input_def terms_fields_def)
qed

text \<open>
  Sealing agreements and verifying them. Under every interleaving of the search \<open>Seal\<close> fails only when
  an agreement has no receipts, its receipts do not verify, or the difficulty lies outside 0..64; a batch it
  returns passes \<open>VerifyBatch\<close> at every floor up to its difficulty and at no higher one.
\<close>
theorem seal_batch_verifies:
  "case seal_batch fmt_f (Suc g) sched oas bits now of
     None \<Rightarrow> 0 \<le> bits \<and> bits \<le> 64 \<and> (\<exists>r. batch_root fmt_f oas = Inr r)
   | Some (Inl e) \<Rightarrow> bits < 0 \<or> 64 < bits \<or> batch_root fmt_f oas = Inl e
   | Some (Inr b) \<Rightarrow> bt_agreements b = oas \<and>
       (verify_batch fmt_f b min_bits = None \<longleftrightarrow> min_bits \<le> bits)"
proof (cases "batch_root fmt_f oas")
  case (Inl e)
  then show ?thesis by (simp add: seal_batch_def)
next
  case r: (Inr r)
  let ?h = "\<lparr>hd_parent = replicate 32 0, hd_batch_root = r, hd_time_unix = unix_time now, hd_diff_bits = bits, hd_nonce = 0\<rparr>"
  show ?thesis
  proof (cases "pow_search (Suc g) sched ?h 0")
    case None
    then have "0 \<le> bits \<and> bits \<le> 64" by (auto simp: pow_search_def split: if_splits)
    with None r show ?thesis by (simp add: seal_batch_def)
  next
    case (Some s)
    show ?thesis
    proof (cases "bits < 0 \<or> 64 < bits")
      case True
      then show ?thesis using pow_search_sound [OF Some] r Some by (auto simp: seal_batch_def)
    next
      case False
      then obtain n where n: "s = Inr (?h\<lparr>hd_nonce := n\<rparr>, n)" "header_valid (?h\<lparr>hd_nonce := n\<rparr>)"
        using pow_search_sound [OF Some] by auto
      with r Some show ?thesis
        by (auto simp: seal_batch_def verify_batch_def l2_verify_def)
    qed
  qed
qed

end
