(* ===== verification/Settle_Batch.thy ===== *)
theory Settle_Batch
  imports Merkle Json_Text
begin

text \<open>
  The settlement batch, \<open>internal/settle/batch.go\<close>: \<open>Root\<close>, a pairwise SHA-256 tree over receipt hashes in
  which the last node of an odd layer is duplicated, and \<open>Commit\<close>. The tree is an instance of
  \<open>hash_tree\<close>: for lists of one length and of digests, the root binds the list. It binds nothing more: the
  duplication and the missing separation of leaves from nodes make lists of different lengths agree.
\<close>

record settle_batch =
  sb_height :: "64 word"
  sb_at :: go_time
  sb_node_ids :: "string list"
  sb_agreement_ids :: "string list"
  sb_receipt_root :: string
  sb_devices :: "string list"
  sb_token :: string
  sb_agreements :: nat
  sb_nodes :: nat
  sb_gpus :: int

definition settle_leaf :: "string \<Rightarrow> bytes" where
  "settle_leaf h = (case hex_decode h of
     None \<Rightarrow> sha256 (bytes_of h)
   | Some b \<Rightarrow> if b = [] then sha256 (bytes_of h) else b)"

text \<open>One turn of the loop: duplicate the last node of an odd layer, then hash the pairs.\<close>

definition settle_even :: "bytes list \<Rightarrow> bytes list" where
  "settle_even layer = (if length layer mod 2 = 1 then layer @ [last layer] else layer)"

fun settle_pairs :: "bytes list \<Rightarrow> bytes list" where
  "settle_pairs (a # b # layer) = sha256 (a @ b) # settle_pairs layer"
| "settle_pairs _ = []"

lemma length_settle_pairs [simp]: "length (settle_pairs layer) = length layer div 2"
  by (induction layer rule: settle_pairs.induct) simp_all

lemma settle_even_shrinks [simp]: "Suc 0 < length layer \<Longrightarrow> length (settle_even layer) div 2 < length layer"
  by (auto simp: settle_even_def)

fun settle_loop :: "bytes list \<Rightarrow> bytes list" where
  "settle_loop layer = (if 1 < length layer then settle_loop (settle_pairs (settle_even layer)) else layer)"

declare settle_loop.simps [simp del]

definition settle_root :: "string list \<Rightarrow> string" where
  "settle_root hashes =
    (if hashes = [] then hex_encode (sha256 []) else hex_encode (hd (settle_loop (map settle_leaf hashes))))"

definition settle_commit ::
  "64 word \<Rightarrow> string list \<Rightarrow> string list \<Rightarrow> string list \<Rightarrow> string list \<Rightarrow> string \<Rightarrow> int \<Rightarrow> go_time \<Rightarrow> settle_batch" where
  "settle_commit height receipts node_ids agreement_ids devices token gpus now =
    \<lparr>sb_height = (if height = 0 then 1 else height), sb_at = now, sb_node_ids = node_ids,
     sb_agreement_ids = agreement_ids, sb_receipt_root = settle_root receipts, sb_devices = devices,
     sb_token = token, sb_agreements = length agreement_ids, sb_nodes = length node_ids, sb_gpus = gpus\<rparr>"

subsection \<open>The tree behind the loop\<close>

abbreviation settle_value :: "string mtree \<Rightarrow> bytes" where
  "settle_value \<equiv> tree_value sha256 (@) settle_leaf"

abbreviation settle_tree :: "string list \<Rightarrow> string mtree" where
  "settle_tree hashes \<equiv> build_tree (map Tip hashes)"

lemma settle_even_Cons2: "settle_even (a # b # layer) = a # b # settle_even layer"
  by (auto simp: settle_even_def)

lemma settle_layer_trees: "settle_pairs (settle_even (map settle_value ts)) = map settle_value (pair_trees ts)"
  by (induction ts rule: pair_trees.induct) (simp_all add: settle_even_Cons2, simp_all add: settle_even_def)

lemma settle_loop_trees: "ts \<noteq> [] \<Longrightarrow> settle_loop (map settle_value ts) = [settle_value (build_tree ts)]"
proof (induction ts rule: build_tree.induct)
  case (1 ts)
  show ?case
  proof (cases "length ts \<le> 1")
    case True
    then obtain t where "ts = [t]" using 1 by (cases ts) auto
    then show ?thesis by (simp add: settle_loop.simps build_tree.simps)
  next
    case False
    then have "pair_trees ts \<noteq> []" by (auto simp flip: length_0_conv)
    with 1 False show ?thesis
      by (simp add: settle_loop.simps [of "map settle_value ts"] build_tree.simps [of ts] settle_layer_trees)
  qed
qed

lemma settle_root_tree: "hashes \<noteq> [] \<Longrightarrow> settle_root hashes = hex_encode (settle_value (settle_tree hashes))"
  using settle_loop_trees [of "map Tip hashes"] by (simp add: settle_root_def comp_def)

text \<open>A digest as the receipts store it: 64 lower-case hexadecimal digits.\<close>

definition digest_text :: "string \<Rightarrow> bool" where
  "digest_text h = (case hex_decode h of None \<Rightarrow> False | Some b \<Rightarrow> length b = 32 \<and> hex_encode b = h)"

lemma settle_leaf_digest: "digest_text h \<Longrightarrow> hex_decode h = Some (settle_leaf h) \<and> length (settle_leaf h) = 32"
  by (auto simp: digest_text_def settle_leaf_def split: option.splits)

lemma settle_leaf_inj: "digest_text h \<Longrightarrow> digest_text k \<Longrightarrow> settle_leaf h = settle_leaf k \<Longrightarrow> h = k"
  using settle_leaf_digest [of h] settle_leaf_digest [of k] by (simp add: digest_text_def)

interpretation settle: hash_tree sha256 "(@)" settle_leaf digest_text
  by unfold_locales (simp_all add: settle_leaf_digest)

subsection \<open>Properties\<close>

text \<open>
  The batch root binds the receipt hashes of batches of one size: two lists of equally many digests with
  the same \<open>Root\<close> are equal, or two of the inputs hashed while computing the roots are different and have
  the same SHA-256 value.
\<close>
theorem settle_root_binds:
  assumes "settle_root xs = settle_root ys" "length xs = length ys"
    and "\<forall>x \<in> set xs. digest_text x" "\<forall>y \<in> set ys. digest_text y"
  shows "xs = ys \<or>
    collide sha256 (tree_inputs sha256 (@) settle_leaf (settle_tree xs)) (tree_inputs sha256 (@) settle_leaf (settle_tree ys))"
proof (cases "xs = []")
  case False
  then have "ys \<noteq> []" using assms(2) by auto
  then have "settle_value (settle_tree xs) = settle_value (settle_tree ys)"
    using assms(1) False by (simp add: settle_root_tree)
  then have "map settle_leaf xs = map settle_leaf ys \<or>
      collide sha256 (tree_inputs sha256 (@) settle_leaf (settle_tree xs)) (tree_inputs sha256 (@) settle_leaf (settle_tree ys))"
    using settle.same_length_binds assms False by blast
  moreover have "xs = ys" if "map settle_leaf xs = map settle_leaf ys"
    by (rule map_inj_on [OF that]) (use assms(3, 4) settle_leaf_inj in \<open>auto simp: inj_on_def\<close>)
  ultimately show ?thesis by blast
qed (use assms in simp)

text \<open>
  What the root does not bind: repeating the last hash of an odd batch leaves the root unchanged, and the
  root of a batch is also the root of the batch that holds this root as its only hash. \<open>Commit\<close> records
  the root but no count of the receipts.
\<close>
theorem settle_root_ambiguous:
  "settle_root [a, b, c] = settle_root [a, b, c, c] \<and> settle_root [settle_root (a # b # xs)] = settle_root (a # b # xs)"
proof -
  have "\<exists>l r. settle_tree (a # b # xs) = Fork l r"
  proof -
    have fork: "\<exists>l r. build_tree ts = Fork l r" if "1 < length ts" for ts :: "string mtree list"
      using that
    proof (induction ts rule: build_tree.induct)
      case (1 ts)
      have b: "build_tree ts = build_tree (pair_trees ts)" using 1 by (simp add: build_tree.simps [of ts])
      show ?case
      proof (cases "1 < length (pair_trees ts)")
        case True
        with 1 b show ?thesis by simp
      next
        case False
        then have "length ts = 2" using "1.prems" by simp
        then obtain t u where "ts = [t, u]" by (auto simp: numeral_2_eq_2 length_Suc_conv)
        then show ?thesis by (simp add: build_tree.simps)
      qed
    qed
    show ?thesis by (rule fork) simp
  qed
  then have "length (settle_value (settle_tree (a # b # xs))) = 32" by auto
  then have ne: "settle_value (settle_tree (a # b # xs)) \<noteq> []" by auto
  then have "settle_leaf (hex_encode (settle_value (settle_tree (a # b # xs)))) = settle_value (settle_tree (a # b # xs))"
    by (simp add: settle_leaf_def)
  then have "settle_root [settle_root (a # b # xs)] = settle_root (a # b # xs)"
    by (simp add: settle_root_tree build_tree.simps [of "[Tip _]"])
  moreover have "settle_root [a, b, c] = settle_root [a, b, c, c]"
    by (simp add: settle_root_tree build_tree.simps)
  ultimately show ?thesis by blast
qed

end
