(* ===== verification/Message_Wire.thy ===== *)
theory Message_Wire
  imports Time_Text Merkle
begin

text \<open>
  What the message protocol signs and hashes: the records of \<open>internal/message/contract.go\<close>,
  \<open>crypto.go\<close> and \<open>trade_protocol.go\<close>, the JSON text \<open>encoding/json\<close> writes for each of them (fields in
  declaration order, \<open>omitempty\<close> fields left out when they are zero), and the domain-separated bytes of
  \<open>wire\<close>. The lemmas show that the bytes determine the domain and the record.

  A \<open>[]byte\<close> is a list of bytes; the empty list is the nil slice, which is the only empty slice the
  protocol accepts anywhere. A time is its instant, printed in UTC.
\<close>

subsection \<open>The records\<close>

record public_key =
  pb_signing :: bytes
  pb_encryption :: bytes

record identity =
  idn_signing :: bytes
  idn_encryption :: bytes

record trade_link =
  tl_id :: string
  tl_action :: string
  tl_parent :: string
  tl_commitment :: string

record msg_terms =
  te_kind :: string
  te_id :: string
  te_sender :: public_key
  te_recipient :: public_key
  te_invitation :: string
  te_created :: go_time
  te_expires :: go_time
  te_key_suite :: string
  te_conversation :: string
  te_reply_to :: string
  te_trade :: "trade_link option"

record offer =
  ofr_terms :: msg_terms
  ofr_ciphertext :: bytes
  ofr_signature :: bytes

text \<open>\<open>RekeyPublic\<close> is a struct without fields in this build.\<close>

record decision =
  dc_rekey :: "unit option"
  dc_envelope :: string
  dc_action :: string
  dc_at :: go_time
  dc_signature :: bytes

record release =
  rl_kem :: bytes
  rl_envelope :: string
  rl_acceptance :: string
  rl_ephemeral :: bytes
  rl_wrapped :: bytes
  rl_signature :: bytes

record msg_record =
  mr_offer :: offer
  mr_decision :: "decision option"
  mr_release :: "release option"

record obligation =
  ob_description :: string
  ob_units :: i64
  ob_unit :: string
  ob_budget :: i64
  ob_deadline :: go_time

record trade_payload =
  tp_version :: int
  tp_trade_id :: string
  tp_action :: string
  tp_parent :: string
  tp_salt :: bytes
  tp_text :: string
  tp_obligations :: "obligation list"
  tp_settlement :: string

subsection \<open>JSON texts\<close>

text \<open>A byte slice is base64 in quotes, or \<open>null\<close>.\<close>

definition bytes_json :: "bytes \<Rightarrow> string" where
  "bytes_json bs = (if bs = [] then ''null'' else CHR 0x22 # base64_encode bs @ [CHR 0x22])"

text \<open>A field that is not the first one, and one that is left out when it is empty.\<close>

definition opt_field :: "string \<Rightarrow> string \<Rightarrow> string" where
  \<open>opt_field key s = (if s = [] then [] else '',"'' @ key @ ''":'' @ json_str s)\<close>

definition public_json :: "public_key \<Rightarrow> string" where
  \<open>public_json p =
    ''{"signing_key":'' @ bytes_json (pb_signing p) @ '',"encryption_key":'' @ bytes_json (pb_encryption p) @ ''}''\<close>

definition trade_json :: "trade_link \<Rightarrow> string" where
  \<open>trade_json t =
    ''{"id":'' @ json_str (tl_id t) @ '',"action":'' @ json_str (tl_action t) @
    opt_field ''parent'' (tl_parent t) @ '',"commitment":'' @ json_str (tl_commitment t) @ ''}''\<close>

definition opt_trade :: "trade_link option \<Rightarrow> string" where
  \<open>opt_trade t = (case t of None \<Rightarrow> [] | Some l \<Rightarrow> '',"trade":'' @ trade_json l)\<close>

definition terms_json :: "msg_terms \<Rightarrow> string" where
  \<open>terms_json t =
    ''{"kind":'' @ json_str (te_kind t) @ '',"id":'' @ json_str (te_id t) @
    '',"sender":'' @ public_json (te_sender t) @ '',"recipient":'' @ public_json (te_recipient t) @
    '',"invitation":'' @ json_str (te_invitation t) @ '',"created_at":'' @ time_json (te_created t) @
    '',"expires_at":'' @ time_json (te_expires t) @ opt_field ''key_suite'' (te_key_suite t) @
    opt_field ''conversation_id'' (te_conversation t) @ opt_field ''reply_to'' (te_reply_to t) @
    opt_trade (te_trade t) @ ''}''\<close>

definition offer_json :: "offer \<Rightarrow> string" where
  \<open>offer_json m =
    ''{"terms":'' @ terms_json (ofr_terms m) @ '',"ciphertext":'' @ bytes_json (ofr_ciphertext m) @
    '',"signature":'' @ bytes_json (ofr_signature m) @ ''}''\<close>

definition decision_json :: "decision \<Rightarrow> string" where
  \<open>decision_json d =
    ''{'' @ (case dc_rekey d of None \<Rightarrow> [] | Some _ \<Rightarrow> ''"rekey":{},'') @
    ''"envelope_hash":'' @ json_str (dc_envelope d) @ '',"action":'' @ json_str (dc_action d) @
    '',"at":'' @ time_json (dc_at d) @ '',"signature":'' @ bytes_json (dc_signature d) @ ''}''\<close>

definition release_json :: "release \<Rightarrow> string" where
  \<open>release_json r =
    ''{'' @ (if rl_kem r = [] then [] else ''"kem_ciphertext":'' @ bytes_json (rl_kem r) @ '','') @
    ''"envelope_hash":'' @ json_str (rl_envelope r) @ '',"acceptance_hash":'' @ json_str (rl_acceptance r) @
    '',"ephemeral_key":'' @ bytes_json (rl_ephemeral r) @ '',"wrapped_key":'' @ bytes_json (rl_wrapped r) @
    '',"signature":'' @ bytes_json (rl_signature r) @ ''}''\<close>

text \<open>An integer field left out when it is zero; a time is a struct, which \<open>omitempty\<close> never leaves out.\<close>

definition opt_int :: "string \<Rightarrow> i64 \<Rightarrow> string" where
  \<open>opt_int key n = (if n = 0 then [] else '',"'' @ key @ ''":'' @ itoa (sint n))\<close>

definition obligation_json :: "obligation \<Rightarrow> string" where
  \<open>obligation_json b =
    ''{"description":'' @ json_str (ob_description b) @ opt_int ''units'' (ob_units b) @
    opt_field ''unit'' (ob_unit b) @ opt_int ''budget'' (ob_budget b) @
    '',"deadline":'' @ time_json (ob_deadline b) @ ''}''\<close>

fun json_items :: "string list \<Rightarrow> string" where
  "json_items [] = []"
| "json_items [s] = s"
| "json_items (s # ss) = s @ '','' @ json_items ss"

definition opt_obligations :: "obligation list \<Rightarrow> string" where
  \<open>opt_obligations bs =
    (if bs = [] then [] else '',"obligations":['' @ json_items (map obligation_json bs) @ '']'')\<close>

definition payload_json :: "trade_payload \<Rightarrow> string" where
  \<open>payload_json p =
    ''{"version":'' @ itoa (tp_version p) @ '',"trade_id":'' @ json_str (tp_trade_id p) @
    '',"action":'' @ json_str (tp_action p) @ opt_field ''parent'' (tp_parent p) @
    '',"salt":'' @ bytes_json (tp_salt p) @ '',"text":'' @ json_str (tp_text p) @
    opt_obligations (tp_obligations p) @ opt_field ''settlement_ref'' (tp_settlement p) @ ''}''\<close>

text \<open>The list of three strings that \<open>hpkeInfo\<close> encodes.\<close>

definition strings_json :: "string list \<Rightarrow> string" where
  "strings_json ss = ''['' @ json_items (map json_str ss) @ '']''"

subsection \<open>Domain-separated bytes and digests\<close>

definition wire :: "string \<Rightarrow> string \<Rightarrow> bytes" where
  "wire domain text = bytes_of (''nex/message/v1/'' @ domain) @ [0] @ bytes_of text"

definition digest :: "string \<Rightarrow> string \<Rightarrow> string" where
  "digest domain text = hex_encode (sha256 (wire domain text))"

definition equal_json :: "string \<Rightarrow> string \<Rightarrow> bool" where
  "equal_json a b \<longleftrightarrow> wire ''equal'' a = wire ''equal'' b"

definition public_id :: "public_key \<Rightarrow> string" where
  "public_id p = digest ''identity'' (public_json p)"

definition offer_unsigned :: "offer \<Rightarrow> offer" where
  "offer_unsigned m = m\<lparr>ofr_signature := []\<rparr>"

definition offer_hash :: "offer \<Rightarrow> string" where
  "offer_hash m = digest ''offer'' (offer_json (offer_unsigned m))"

definition decision_unsigned :: "decision \<Rightarrow> decision" where
  "decision_unsigned d = d\<lparr>dc_signature := []\<rparr>"

definition decision_hash :: "decision \<Rightarrow> string" where
  "decision_hash d = digest ''decision'' (decision_json (decision_unsigned d))"

definition release_unsigned :: "release \<Rightarrow> release" where
  "release_unsigned r = r\<lparr>rl_signature := []\<rparr>"

text \<open>The associated data of a wrapped key.\<close>

definition release_context :: "release \<Rightarrow> bytes" where
  "release_context r = wire ''key-wrap'' (release_json (r\<lparr>rl_signature := [], rl_wrapped := []\<rparr>))"

definition payload_commitment :: "trade_payload \<Rightarrow> string" where
  "payload_commitment p = digest ''trade-terms'' (payload_json p)"

subsection \<open>The bytes determine the domain and the text\<close>

lemma wire_inj [simp]: "wire d s = wire d t \<longleftrightarrow> s = t"
  by (simp add: wire_def)

lemma wire_domains:
  assumes "wire d s = wire e t" "0 \<notin> set (bytes_of d)" "0 \<notin> set (bytes_of e)"
  shows "d = e \<and> s = t"
proof -
  have eq: "bytes_of d @ 0 # bytes_of s = bytes_of e @ 0 # bytes_of t"
    using assms(1) by (simp add: wire_def bytes_of_def)
  have "takeWhile (\<lambda>b. b \<noteq> 0) (bytes_of k @ 0 # z) = bytes_of k" if "0 \<notin> set (bytes_of k)" for k z
    using that by (subst takeWhile_append2) auto
  then have "bytes_of d = bytes_of e" using assms(2, 3) eq by metis
  then show ?thesis using eq by simp
qed

lemma equal_json_iff [simp]: "equal_json a b \<longleftrightarrow> a = b"
  by (simp add: equal_json_def)

text \<open>Equal digests in one domain: the same text, or two inputs with one SHA-256 value.\<close>

lemma digest_binds:
  assumes "digest d s = digest d t"
  shows "s = t \<or> collide sha256 [wire d s] [wire d t]"
  using assms by (auto simp: digest_def collide_iff)

lemma hex_encode_ascii: "\<forall>c \<in> set (hex_encode bs). char_code c < 0x80"
proof -
  have "char_code (hex_digit k) < 0x80" if "k < 16" for k
  proof -
    have "of_char (char_of (48 + k) :: char) = (48 + k) mod 256" "of_char (char_of (87 + k) :: char) = (87 + k) mod 256"
      by simp_all
    then show ?thesis using that by (simp add: hex_digit_def char_code_def)
  qed
  moreover have "unat b div 16 < 16" "unat b mod 16 < 16" for b :: "8 word"
    using unsigned_less [of b, where 'a = nat] by auto
  ultimately show ?thesis by (auto simp: hex_encode_def hex_byte_def)
qed

subsection \<open>Texts determine records\<close>

text \<open>The text goes on with the field of the name.\<close>

definition opens :: "string \<Rightarrow> string \<Rightarrow> bool" where
  \<open>opens key x \<longleftrightarrow> (let p = '',"'' @ key @ ''":'' in take (length p) x = p)\<close>

lemma bytes_json_unique:
  assumes "bytes_json a @ x = bytes_json b @ y"
  shows "a = b \<and> x = y"
proof -
  let ?q = "\<lambda>c. c \<noteq> CHR 0x22"
  have nq: "CHR 0x22 \<notin> set (base64_encode k)" for k
    using base64_encode_chars [of k] by (auto simp: b64_alphabet_def)
  have tw: "takeWhile ?q (base64_encode k @ CHR 0x22 # z) = base64_encode k" for k z
    using nq [of k] by (subst takeWhile_append2) auto
  show ?thesis
  proof (cases "a = [] \<or> b = []")
    case True
    then show ?thesis using assms by (auto simp: bytes_json_def split: if_splits)
  next
    case False
    then have eq: "base64_encode a @ CHR 0x22 # x = base64_encode b @ CHR 0x22 # y"
      using assms by (simp add: bytes_json_def)
    then have "base64_encode a = base64_encode b" using tw by metis
    moreover from this have "a = b" by (metis base64_decode_encode option.inject)
    ultimately show ?thesis using eq by simp
  qed
qed

lemma bytes_json_inj [simp]: "bytes_json a = bytes_json b \<longleftrightarrow> a = b"
  using bytes_json_unique [of a "[]" b "[]"] by auto

lemma opt_field_same:
  assumes "opt_field key s @ x = opt_field key t @ y" "\<not> opens key x" "\<not> opens key y"
  shows "same_text s t \<and> x = y"
proof -
  have o: "opens key (opt_field key u @ z)" if "u \<noteq> []" for u z
    using that by (simp add: opens_def opt_field_def)
  show ?thesis
  proof (cases "s = []"; cases "t = []")
    assume "s \<noteq> []" "t \<noteq> []"
    then have "json_str s @ x = json_str t @ y" using assms(1) by (simp add: opt_field_def)
    then show ?thesis using json_str_same by blast
  next
    assume "s = []" "t \<noteq> []"
    then have "opens key x" using assms(1) o [of t y] by (simp add: opt_field_def)
    then show ?thesis using assms(2) by simp
  next
    assume "s \<noteq> []" "t = []"
    then have "opens key y" using assms(1) o [of s x] by (simp add: opt_field_def)
    then show ?thesis using assms(3) by simp
  qed (use assms(1) in \<open>simp add: opt_field_def\<close>)
qed

lemma opt_field_unique:
  assumes "opt_field key s @ x = opt_field key t @ y" "\<not> opens key x" "\<not> opens key y"
    and "utf8_valid s" "utf8_valid t"
  shows "s = t \<and> x = y"
  using opt_field_same [OF assms(1-3)] same_text_valid assms(4) by blast

lemma public_json_unique:
  assumes "public_json p @ x = public_json q @ y"
  shows "p = q \<and> x = y"
  using assms by (auto simp: public_json_def dest!: bytes_json_unique intro!: public_key.equality)

definition clean_trade :: "trade_link \<Rightarrow> bool" where
  "clean_trade t \<longleftrightarrow> utf8_valid (tl_id t) \<and> utf8_valid (tl_action t) \<and> utf8_valid (tl_parent t) \<and> utf8_valid (tl_commitment t)"

lemma trade_json_unique:
  assumes "trade_json t @ x = trade_json u @ y" "clean_trade t" "clean_trade u"
  shows "t = u \<and> x = y"
proof -
  define z where \<open>z t x = '',"commitment":'' @ json_str (tl_commitment t) @ ''}'' @ x\<close> for t :: trade_link and x
  have no: "\<not> opens ''parent'' (z t x)" for t x by (simp add: z_def opens_def)
  have c: "utf8_valid (tl_id t)" "utf8_valid (tl_action t)" "utf8_valid (tl_parent t)" "utf8_valid (tl_commitment t)"
    "utf8_valid (tl_id u)" "utf8_valid (tl_action u)" "utf8_valid (tl_parent u)" "utf8_valid (tl_commitment u)"
    using assms(2, 3) by (simp_all add: clean_trade_def)
  have "tl_id t = tl_id u" and e: "tl_action t = tl_action u"
      "opt_field ''parent'' (tl_parent t) @ z t x = opt_field ''parent'' (tl_parent u) @ z u y"
    using assms(1) c by (auto simp: trade_json_def z_def dest!: json_str_valid)
  moreover from opt_field_unique [OF e(2) no no] c have "tl_parent t = tl_parent u" and "z t x = z u y" by auto
  moreover from this(2) have "tl_commitment t = tl_commitment u" "x = y"
    using c by (auto simp: z_def dest!: json_str_valid)
  ultimately show ?thesis by (auto intro: trade_link.equality)
qed

definition clean_terms :: "msg_terms \<Rightarrow> bool" where
  "clean_terms t \<longleftrightarrow> utf8_valid (te_kind t) \<and> utf8_valid (te_id t) \<and> utf8_valid (te_invitation t) \<and>
    json_year_ok (te_created t) \<and> json_year_ok (te_expires t) \<and> utf8_valid (te_key_suite t) \<and>
    utf8_valid (te_conversation t) \<and> utf8_valid (te_reply_to t) \<and>
    (case te_trade t of None \<Rightarrow> True | Some l \<Rightarrow> clean_trade l)"

lemma opt_trade_unique:
  assumes "opt_trade a @ CHR ''}'' # x = opt_trade b @ CHR ''}'' # y"
    and "case a of None \<Rightarrow> True | Some l \<Rightarrow> clean_trade l" "case b of None \<Rightarrow> True | Some l \<Rightarrow> clean_trade l"
  shows "a = b \<and> x = y"
  using assms by (auto simp: opt_trade_def split: option.splits dest!: trade_json_unique)

lemma terms_tail_unique:
  assumes eq: "opt_field ''key_suite'' k @ opt_field ''conversation_id'' c @ opt_field ''reply_to'' r @ opt_trade t @ CHR ''}'' # x =
      opt_field ''key_suite'' k' @ opt_field ''conversation_id'' c' @ opt_field ''reply_to'' r' @ opt_trade t' @ CHR ''}'' # y"
    and ok: "utf8_valid k" "utf8_valid c" "utf8_valid r" "utf8_valid k'" "utf8_valid c'" "utf8_valid r'"
    and tr: "case t of None \<Rightarrow> True | Some l \<Rightarrow> clean_trade l" "case t' of None \<Rightarrow> True | Some l \<Rightarrow> clean_trade l"
  shows "k = k' \<and> c = c' \<and> r = r' \<and> t = t' \<and> x = y"
proof -
  have n3: "\<not> opens ''reply_to'' (opt_trade t @ CHR ''}'' # x)" for t x
    by (simp add: opens_def opt_trade_def split: option.splits)
  have n2: "\<not> opens ''conversation_id'' (opt_field ''reply_to'' r @ opt_trade t @ CHR ''}'' # x)" for r t x
    by (simp add: opens_def opt_trade_def opt_field_def split: option.splits)
  have n1: "\<not> opens ''key_suite'' (opt_field ''conversation_id'' c @ opt_field ''reply_to'' r @ opt_trade t @ CHR ''}'' # x)" for c r t x
    by (simp add: opens_def opt_trade_def opt_field_def split: option.splits)
  from opt_field_unique [OF eq n1 n1 ok(1, 4)] have 1: "k = k'"
    and e: "opt_field ''conversation_id'' c @ opt_field ''reply_to'' r @ opt_trade t @ CHR ''}'' # x =
      opt_field ''conversation_id'' c' @ opt_field ''reply_to'' r' @ opt_trade t' @ CHR ''}'' # y" by auto
  from opt_field_unique [OF e n2 n2 ok(2, 5)] have 2: "c = c'"
    and e: "opt_field ''reply_to'' r @ opt_trade t @ CHR ''}'' # x = opt_field ''reply_to'' r' @ opt_trade t' @ CHR ''}'' # y" by auto
  from opt_field_unique [OF e n3 n3 ok(3, 6)] have 3: "r = r'"
    and e: "opt_trade t @ CHR ''}'' # x = opt_trade t' @ CHR ''}'' # y" by auto
  from opt_trade_unique [OF e tr] 1 2 3 show ?thesis by simp
qed

lemma terms_json_unique:
  assumes "terms_json t @ x = terms_json u @ y" "clean_terms t" "clean_terms u"
  shows "t = u \<and> x = y"
proof -
  define z where \<open>z t x = opt_field ''key_suite'' (te_key_suite t) @ opt_field ''conversation_id'' (te_conversation t) @
    opt_field ''reply_to'' (te_reply_to t) @ opt_trade (te_trade t) @ CHR ''}'' # x\<close> for t :: msg_terms and x
  have "te_kind t = te_kind u \<and> te_id t = te_id u \<and> te_sender t = te_sender u \<and> te_recipient t = te_recipient u \<and>
      te_invitation t = te_invitation u \<and> te_created t = te_created u \<and> te_expires t = te_expires u \<and> z t x = z u y"
    using assms by (auto simp: terms_json_def z_def clean_terms_def
        dest!: json_str_valid public_json_unique time_json_unique)
  moreover from this terms_tail_unique have "te_key_suite t = te_key_suite u \<and> te_conversation t = te_conversation u \<and>
      te_reply_to t = te_reply_to u \<and> te_trade t = te_trade u \<and> x = y"
    using assms(2, 3) unfolding z_def clean_terms_def by blast
  ultimately show ?thesis by (auto intro: msg_terms.equality)
qed

lemma offer_json_inj:
  assumes "offer_json m = offer_json n" "clean_terms (ofr_terms m)" "clean_terms (ofr_terms n)"
  shows "m = n"
  using assms by (auto simp: offer_json_def dest!: terms_json_unique bytes_json_unique intro!: offer.equality)

lemma decision_json_inj:
  assumes "decision_json d = decision_json e" "json_year_ok (dc_at d)" "json_year_ok (dc_at e)"
    and "utf8_valid (dc_envelope d)" "utf8_valid (dc_envelope e)" "utf8_valid (dc_action d)" "utf8_valid (dc_action e)"
  shows "d = e"
  using assms
  by (auto simp: decision_json_def split: option.splits
      dest!: json_str_valid time_json_unique bytes_json_unique intro!: decision.equality)

lemma release_json_inj:
  assumes "release_json r = release_json s"
    and "utf8_valid (rl_envelope r)" "utf8_valid (rl_envelope s)" "utf8_valid (rl_acceptance r)" "utf8_valid (rl_acceptance s)"
  shows "r = s"
  using assms
  by (auto simp: release_json_def split: if_splits
      dest!: json_str_valid bytes_json_unique intro!: release.equality)

end
