(* ===== verification/Message.thy ===== *)
theory Message
  imports Message_Wire
begin

text \<open>
  Consent to open a sealed message: \<open>internal/message/contract.go\<close> with the reserved rekey types of
  \<open>rekey_disabled.go\<close> and the link part of \<open>trade_protocol.go\<close>. An offer is signed by its sender, a decision
  by its recipient, a release of the content key by the sender again; each step carries the hash of the one
  before, and a relay that holds the record only ever adds a step that verifies.

  The primitives of \<open>crypto/ed25519\<close>, \<open>crypto/ecdh\<close>, \<open>crypto/aes\<close> and of the HPKE package the code calls are
  fields of a \<open>crypto\<close> record that every operation takes; \<open>crypto_ok\<close> collects the documented laws of
  them that honest runs rely on. SHA-256, hexadecimal, base64 and JSON are the definitions of this
  development. \<open>crypto/rand\<close> does not fail (Go 1.24 and later), its bytes are arguments.
\<close>

subsection \<open>The primitives the code calls\<close>

text \<open>
  \<open>ed_public seed\<close>, \<open>ed_sign private text\<close>, \<open>ed_verify public text signature\<close>; \<open>x_shared\<close> is \<open>None\<close> for a peer
  of low order; \<open>gcm_seal key nonce text data\<close>; \<open>hpke_sender public info random\<close> gives the encapsulated
  key and the sealing context, \<open>hpke_receiver private info encapsulated\<close> the opening context.
\<close>

record crypto =
  cr_ed_public :: "bytes \<Rightarrow> bytes"
  cr_ed_sign :: "bytes \<Rightarrow> bytes \<Rightarrow> bytes"
  cr_ed_verify :: "bytes \<Rightarrow> bytes \<Rightarrow> bytes \<Rightarrow> bool"
  cr_x_public :: "bytes \<Rightarrow> bytes"
  cr_x_shared :: "bytes \<Rightarrow> bytes \<Rightarrow> bytes option"
  cr_gcm_seal :: "bytes \<Rightarrow> bytes \<Rightarrow> bytes \<Rightarrow> bytes \<Rightarrow> bytes"
  cr_gcm_open :: "bytes \<Rightarrow> bytes \<Rightarrow> bytes \<Rightarrow> bytes \<Rightarrow> bytes option"
  cr_hpke_sender :: "bytes \<Rightarrow> bytes \<Rightarrow> bytes \<Rightarrow> go_error + bytes \<times> bytes"
  cr_hpke_seal :: "bytes \<Rightarrow> bytes \<Rightarrow> bytes \<Rightarrow> go_error + bytes"
  cr_hpke_receiver :: "bytes \<Rightarrow> bytes \<Rightarrow> bytes \<Rightarrow> go_error + bytes"
  cr_hpke_open :: "bytes \<Rightarrow> bytes \<Rightarrow> bytes \<Rightarrow> go_error + bytes"

definition signs_ok :: "crypto \<Rightarrow> bool" where
  "signs_ok C \<longleftrightarrow> (\<forall>seed. length seed = 32 \<longrightarrow> length (cr_ed_public C seed) = 32 \<and>
     (\<forall>m. cr_ed_verify C (cr_ed_public C seed) m (cr_ed_sign C (seed @ cr_ed_public C seed) m)))"

definition dh_ok :: "crypto \<Rightarrow> bool" where
  "dh_ok C \<longleftrightarrow> (\<forall>a b. length a = 32 \<longrightarrow> length b = 32 \<longrightarrow> length (cr_x_public C a) = 32 \<and>
     cr_x_shared C a (cr_x_public C b) = cr_x_shared C b (cr_x_public C a) \<and> cr_x_shared C a (cr_x_public C b) \<noteq> None)"

definition gcm_ok :: "crypto \<Rightarrow> bool" where
  "gcm_ok C \<longleftrightarrow> (\<forall>k n p a. length k = 32 \<longrightarrow> length n = 12 \<longrightarrow>
     length (cr_gcm_seal C k n p a) = length p + 16 \<and> cr_gcm_open C k n (cr_gcm_seal C k n p a) a = Some p)"

definition hpke_ok :: "crypto \<Rightarrow> bool" where
  "hpke_ok C \<longleftrightarrow> (\<forall>sk info rnd. length sk = 32 \<longrightarrow> length rnd = 32 \<longrightarrow>
     (\<exists>enc cs cr. cr_hpke_sender C (cr_x_public C sk) info rnd = Inr (enc, cs) \<and> length enc = 32 \<and>
        cr_hpke_receiver C sk info enc = Inr cr \<and>
        (\<forall>p a. \<exists>ct. cr_hpke_seal C cs p a = Inr ct \<and> length ct = length p + 16 \<and> cr_hpke_open C cr ct a = Inr p)))"

definition crypto_ok :: "crypto \<Rightarrow> bool" where
  "crypto_ok C \<longleftrightarrow> signs_ok C \<and> dh_ok C \<and> gcm_ok C \<and> hpke_ok C"

text \<open>The checks of \<open>crypto/ecdh\<close> on the length of keys, and its Diffie-Hellman operation.\<close>

definition x_new_public :: "bytes \<Rightarrow> go_error + bytes" where
  "x_new_public k = (if length k \<noteq> 32 then Inl (Errorf ''crypto/ecdh: invalid public key'' []) else Inr k)"

definition x_new_private :: "bytes \<Rightarrow> go_error + bytes" where
  "x_new_private k = (if length k \<noteq> 32 then Inl (Errorf ''crypto/ecdh: invalid private key size'' []) else Inr k)"

definition x_ecdh :: "crypto \<Rightarrow> bytes \<Rightarrow> bytes \<Rightarrow> go_error + bytes" where
  "x_ecdh C k peer = (case cr_x_shared C k peer of
     None \<Rightarrow> Inl (Errorf ''crypto/ecdh: bad X25519 remote ECDH input: low order point'' [])
   | Some s \<Rightarrow> Inr s)"

subsection \<open>Identities\<close>

definition Kind :: string where
  "Kind = ''message.sealed/v1''"

definition MaxText :: nat where
  "MaxText = 64 * 1024"

definition MaxInvitation :: nat where
  "MaxInvitation = 1024"

definition HPKESuite :: string where
  "HPKESuite = ''HPKE-X25519-HKDF-SHA256-AES256GCM''"

definition RekeySuite :: string where
  "RekeySuite = ''unsupported''"

definition rekeyCiphertextSize :: int where
  "rekeyCiphertextSize = -1"

definition rekey_validate :: "unit \<Rightarrow> go_error option" where
  "rekey_validate k = Some ErrInvalid"

definition supported_key_suite :: "string \<Rightarrow> bool" where
  "supported_key_suite s \<longleftrightarrow> s = [] \<or> s = HPKESuite"

text \<open>The fixed scalar that detects public keys of low order.\<close>

definition probe :: bytes where
  "probe = 1 # replicate 31 0"

definition public_validate :: "crypto \<Rightarrow> public_key \<Rightarrow> go_error option" where
  "public_validate C p =
    (if length (pb_signing p) \<noteq> 32 \<or> length (pb_encryption p) \<noteq> 32 then Some ErrInvalid
     else case try_bind (x_new_public (pb_encryption p)) (\<lambda>peer.
            try_bind (x_new_private probe) (\<lambda>private. x_ecdh C private peer)) of
       Inl e \<Rightarrow> Some e
     | Inr _ \<Rightarrow> None)"

text \<open>\<open>ed25519.NewKeyFromSeed\<close>: the seed followed by the public key.\<close>

definition key_from_seed :: "crypto \<Rightarrow> bytes \<Rightarrow> bytes" where
  "key_from_seed C seed = seed @ cr_ed_public C seed"

text \<open>\<open>NewIdentity\<close> on the random seed and scalar it draws.\<close>

definition new_identity :: "crypto \<Rightarrow> bytes \<Rightarrow> bytes \<Rightarrow> identity" where
  "new_identity C seed scalar = \<lparr>idn_signing = key_from_seed C seed, idn_encryption = scalar\<rparr>"

definition identity_public :: "crypto \<Rightarrow> identity \<Rightarrow> go_error + public_key" where
  "identity_public C i =
    (if length (idn_signing i) \<noteq> 64 then Inl ErrInvalid
     else let want = key_from_seed C (take 32 (idn_signing i))
          in if \<not> equal_json (bytes_json want) (bytes_json (idn_signing i)) then Inl ErrInvalid
             else try_bind (x_new_private (idn_encryption i)) (\<lambda>k.
               Inr \<lparr>pb_signing = drop 32 want, pb_encryption = cr_x_public C k\<rparr>))"

definition sign :: "crypto \<Rightarrow> identity \<Rightarrow> string \<Rightarrow> string \<Rightarrow> bytes" where
  "sign C i domain text = cr_ed_sign C (idn_signing i) (wire domain text)"

definition sig_verify :: "crypto \<Rightarrow> public_key \<Rightarrow> string \<Rightarrow> string \<Rightarrow> bytes \<Rightarrow> bool" where
  "sig_verify C p domain text sig \<longleftrightarrow>
    length (pb_signing p) = 32 \<and> cr_ed_verify C (pb_signing p) (wire domain text) sig"

definition valid_id :: "string \<Rightarrow> bool" where
  "valid_id s \<longleftrightarrow> (case hex_decode s of None \<Rightarrow> False | Some b \<Rightarrow> length b = 32 \<and> hex_encode b = s)"

subsection \<open>Offers\<close>

definition trade_validate :: "trade_link \<Rightarrow> go_error option" where
  "trade_validate t =
    (if \<not> valid_id (tl_id t) \<or> \<not> valid_id (tl_commitment t) then Some ErrInvalid
     else if tl_action t = ''request'' then (if tl_parent t \<noteq> [] then Some ErrInvalid else None)
     else if tl_action t \<in> {''offer'', ''counteroffer'', ''accept'', ''reject'', ''fulfill'', ''settle''}
       then (if \<not> valid_id (tl_parent t) then Some ErrInvalid else None)
     else Some ErrInvalid)"

definition offer_verify :: "crypto \<Rightarrow> offer \<Rightarrow> go_error option" where
  "offer_verify C m =
    (let t = ofr_terms m in
     if \<not> supported_key_suite (te_key_suite t) \<or> te_conversation t \<noteq> [] \<and> \<not> valid_id (te_conversation t) \<or>
        te_reply_to t \<noteq> [] \<and> \<not> valid_id (te_reply_to t) then Some ErrInvalid
     else if te_key_suite t = RekeySuite \<and> \<not> valid_id (te_conversation t) then Some ErrInvalid
     else if (case te_trade t of None \<Rightarrow> False | Some l \<Rightarrow> trade_validate l \<noteq> None) then Some ErrInvalid
     else if te_kind t \<noteq> Kind \<or> \<not> valid_id (te_id t) \<or> public_validate C (te_sender t) \<noteq> None \<or>
        public_validate C (te_recipient t) \<noteq> None \<or> public_id (te_sender t) = public_id (te_recipient t) \<or>
        MaxInvitation < length (te_invitation t) \<or> \<not> utf8_valid (te_invitation t) \<or>
        is_zero_time (te_created t) \<or> \<not> te_created t < te_expires t \<or>
        length (ofr_ciphertext m) < 28 \<or> MaxText + 28 < length (ofr_ciphertext m) \<or>
        \<not> sig_verify C (te_sender t) ''offer'' (offer_json (offer_unsigned m)) (ofr_signature m)
       then Some ErrInvalid
     else None)"

subsection \<open>Decisions\<close>

definition decision_verify :: "crypto \<Rightarrow> decision \<Rightarrow> offer \<Rightarrow> go_error option" where
  "decision_verify C d m =
    (let t = ofr_terms m in
     if (if te_key_suite t = RekeySuite \<and> dc_action d = ''agree''
         then (case dc_rekey d of None \<Rightarrow> True | Some k \<Rightarrow> rekey_validate k \<noteq> None)
         else dc_rekey d \<noteq> None) then Some ErrInvalid
     else if offer_verify C m \<noteq> None \<or> dc_envelope d \<noteq> offer_hash m \<or>
        dc_action d \<noteq> ''agree'' \<and> dc_action d \<noteq> ''reject'' \<or>
        dc_at d < te_created t \<or> \<not> dc_at d < te_expires t \<or>
        \<not> sig_verify C (te_recipient t) ''decision'' (decision_json (decision_unsigned d)) (dc_signature d)
       then Some ErrInvalid
     else None)"

definition decide_rekey :: "crypto \<Rightarrow> identity \<Rightarrow> offer \<Rightarrow> string \<Rightarrow> go_time \<Rightarrow> unit option \<Rightarrow> go_error + decision" where
  "decide_rekey C i m action now rekey =
    try_bind (identity_public C i) (\<lambda>p.
      if public_id p \<noteq> public_id (te_recipient (ofr_terms m)) then Inl ErrParty
      else if \<not> now < te_expires (ofr_terms m) then Inl ErrExpired
      else let d = \<lparr>dc_rekey = rekey, dc_envelope = offer_hash m, dc_action = action, dc_at = now, dc_signature = []\<rparr>;
               d' = d\<lparr>dc_signature := sign C i ''decision'' (decision_json (decision_unsigned d))\<rparr>
           in case decision_verify C d' m of Some e \<Rightarrow> Inl e | None \<Rightarrow> Inr d')"

definition decide :: "crypto \<Rightarrow> identity \<Rightarrow> offer \<Rightarrow> string \<Rightarrow> go_time \<Rightarrow> go_error + decision" where
  "decide C i m action now = decide_rekey C i m action now None"

subsection \<open>Releases\<close>

definition release_verify :: "crypto \<Rightarrow> release \<Rightarrow> offer \<Rightarrow> decision \<Rightarrow> go_error option" where
  "release_verify C r m d =
    (let t = ofr_terms m in
     if (if te_key_suite t = RekeySuite then int (length (rl_kem r)) \<noteq> rekeyCiphertextSize
         else length (rl_kem r) \<noteq> 0) then Some ErrInvalid
     else let wrapped_len = (if te_key_suite t = HPKESuite then 48 else 60) in
     if decision_verify C d m \<noteq> None \<or> dc_action d \<noteq> ''agree'' \<or> rl_envelope r \<noteq> offer_hash m \<or>
        rl_acceptance r \<noteq> decision_hash d \<or> length (rl_ephemeral r) \<noteq> 32 \<or> length (rl_wrapped r) \<noteq> wrapped_len \<or>
        \<not> sig_verify C (te_sender t) ''release'' (release_json (release_unsigned r)) (rl_signature r)
       then Some ErrInvalid
     else None)"

subsection \<open>The record a relay keeps\<close>

definition record_verify :: "crypto \<Rightarrow> msg_record \<Rightarrow> go_error option" where
  "record_verify C r =
    (case offer_verify C (mr_offer r) of
       Some e \<Rightarrow> Some e
     | None \<Rightarrow>
         (case (case mr_decision r of None \<Rightarrow> None | Some d \<Rightarrow> decision_verify C d (mr_offer r)) of
            Some e \<Rightarrow> Some e
          | None \<Rightarrow>
              (case mr_release r of
                 None \<Rightarrow> None
               | Some l \<Rightarrow> (case mr_decision r of None \<Rightarrow> Some ErrInvalid | Some d \<Rightarrow> release_verify C l (mr_offer r) d))))"

definition record_state :: "msg_record \<Rightarrow> go_time \<Rightarrow> string" where
  "record_state r now =
    (if mr_release r \<noteq> None then ''key-released''
     else case mr_decision r of
       Some d \<Rightarrow> if dc_action d = ''agree'' then ''accepted'' else ''rejected''
     | None \<Rightarrow> if \<not> now < te_expires (ofr_terms (mr_offer r)) then ''expired'' else ''offered'')"

definition minute :: int where
  "minute = 60 * second"

definition apply_decision :: "crypto \<Rightarrow> msg_record \<Rightarrow> decision \<Rightarrow> go_time \<Rightarrow> msg_record outcome" where
  "apply_decision C r d now =
    (case decision_verify C d (mr_offer r) of
       Some e \<Rightarrow> fail r e
     | None \<Rightarrow>
         (case mr_decision r of
            Some d0 \<Rightarrow> if equal_json (decision_json d0) (decision_json d) then ok r else fail r ErrState
          | None \<Rightarrow>
              if \<not> now < te_expires (ofr_terms (mr_offer r)) then fail r ErrExpired
              else if now + minute < dc_at d then fail r ErrInvalid
              else ok (r\<lparr>mr_decision := Some d\<rparr>)))"

definition apply_release :: "crypto \<Rightarrow> msg_record \<Rightarrow> release \<Rightarrow> msg_record outcome" where
  "apply_release C r l =
    (case mr_decision r of
       None \<Rightarrow> fail r ErrState
     | Some d \<Rightarrow>
         (case release_verify C l (mr_offer r) d of
            Some e \<Rightarrow> fail r e
          | None \<Rightarrow>
              (case mr_release r of
                 Some l0 \<Rightarrow> if equal_json (release_json l0) (release_json l) then ok r else fail r ErrState
               | None \<Rightarrow> ok (r\<lparr>mr_release := Some l\<rparr>))))"

subsection \<open>What verification establishes\<close>

lemma valid_hex [simp]: "utf8_valid (hex_encode bs)"
  by (rule utf8_valid_ascii [OF hex_encode_ascii])

lemma valid_id_hex [simp]: "length b = 32 \<Longrightarrow> valid_id (hex_encode b)"
  by (simp add: valid_id_def)

lemma valid_id_utf8:
  assumes "valid_id s"
  shows "utf8_valid s"
proof -
  obtain b where "hex_encode b = s" using assms by (auto simp: valid_id_def split: option.splits)
  then show ?thesis using valid_hex [of b] by simp
qed

lemma valid_hashes [simp]: "utf8_valid (offer_hash m)" "utf8_valid (decision_hash d)" "utf8_valid (public_id p)"
  by (simp_all add: offer_hash_def decision_hash_def public_id_def digest_def)

lemma trade_validate_clean:
  assumes "trade_validate t = None"
  shows "clean_trade t"
proof -
  have "utf8_valid a" if "a \<in> {''request'', ''offer'', ''counteroffer'', ''accept'', ''reject'', ''fulfill'', ''settle''}" for a
    using that by (intro utf8_valid_ascii) (auto simp: char_code_def)
  moreover have "utf8_valid []" by (simp add: utf8_valid_def)
  ultimately show ?thesis
    using assms by (auto simp: trade_validate_def clean_trade_def valid_id_utf8 split: if_splits)
qed

lemma key_suites: "HPKESuite \<noteq> RekeySuite" "[] \<noteq> RekeySuite" "HPKESuite \<noteq> []" "utf8_valid HPKESuite" "utf8_valid Kind" "utf8_valid []"
  by (simp_all add: HPKESuite_def RekeySuite_def Kind_def utf8_valid_ascii char_code_def)

lemma offer_verify_clean:
  assumes "offer_verify C m = None" "json_year_ok (te_created (ofr_terms m))" "json_year_ok (te_expires (ofr_terms m))"
  shows "clean_terms (ofr_terms m)"
  using assms key_suites
  by (auto simp: offer_verify_def clean_terms_def Let_def valid_id_utf8 supported_key_suite_def trade_validate_clean
      split: if_splits option.splits)

lemma decision_verified:
  assumes "decision_verify C d m = None"
  shows "offer_verify C m = None" "dc_envelope d = offer_hash m" "dc_action d = ''agree'' \<or> dc_action d = ''reject''"
    "dc_rekey d = None" "te_created (ofr_terms m) \<le> dc_at d" "dc_at d < te_expires (ofr_terms m)"
    "sig_verify C (te_recipient (ofr_terms m)) ''decision'' (decision_json (decision_unsigned d)) (dc_signature d)"
  using assms by (auto simp: decision_verify_def Let_def rekey_validate_def split: if_splits option.splits)

lemma release_verified:
  assumes "release_verify C r m d = None"
  shows "decision_verify C d m = None" "dc_action d = ''agree''" "rl_envelope r = offer_hash m"
    "rl_acceptance r = decision_hash d" "length (rl_ephemeral r) = 32"
    "length (rl_wrapped r) = (if te_key_suite (ofr_terms m) = HPKESuite then 48 else 60)"
    "sig_verify C (te_sender (ofr_terms m)) ''release'' (release_json (release_unsigned r)) (rl_signature r)"
  using assms by (auto simp: release_verify_def Let_def rekeyCiphertextSize_def split: if_splits)

lemma verified_key_suite: "offer_verify C m = None \<Longrightarrow> te_key_suite (ofr_terms m) = [] \<or> te_key_suite (ofr_terms m) = HPKESuite"
  by (auto simp: offer_verify_def Let_def supported_key_suite_def split: if_splits)

lemma verified_decision_utf8:
  assumes "decision_verify C d m = None"
  shows "utf8_valid (dc_envelope d)" "utf8_valid (dc_action d)"
proof -
  show "utf8_valid (dc_envelope d)" using decision_verified(2) [OF assms] by simp
  show "utf8_valid (dc_action d)"
    using decision_verified(3) [OF assms] by (auto intro!: utf8_valid_ascii simp: char_code_def)
qed

end
