(* ===== verification/Message_Crypto.thy ===== *)
theory Message_Crypto
  imports Message
begin

text \<open>
  The agents' side of a sealed message, \<open>internal/message/crypto.go\<close>: sealing an offer under a fresh
  content key, wrapping that key against a signed acceptance (HPKE, or the first version's X25519 with HKDF
  for offers without a key suite), and opening the record. Random bytes are arguments. HMAC and HKDF over
  SHA-256 are defined here; the other primitives are those of the \<open>crypto\<close> record. The header of the
  file \<open>Message\<close> says what a time outside the years 0 to 9999 would do: \<open>wire\<close> panics on it.
\<close>

unbundle bit_operations_syntax

subsection \<open>Key derivation and authenticated encryption\<close>

definition hmac_sha256 :: "bytes \<Rightarrow> bytes \<Rightarrow> bytes" where
  "hmac_sha256 key m =
    (let k = (if 64 < length key then sha256 key else key);
         block = k @ replicate (64 - length k) 0
     in sha256 (map (\<lambda>b. b XOR 0x5C) block @ sha256 (map (\<lambda>b. b XOR 0x36) block @ m)))"

text \<open>\<open>hkdf.Key\<close> for 32 bytes: extraction, and one block of the expansion.\<close>

definition hkdf_key :: "bytes \<Rightarrow> bytes \<Rightarrow> string \<Rightarrow> bytes" where
  "hkdf_key secret salt info = hmac_sha256 (hmac_sha256 salt secret) (bytes_of info @ [1])"

definition derive :: "crypto \<Rightarrow> bytes \<Rightarrow> bytes \<Rightarrow> bytes \<Rightarrow> go_error + bytes" where
  "derive C private public context =
    try_bind (x_new_public public) (\<lambda>peer.
    try_bind (x_ecdh C private peer) (\<lambda>secret.
      Inr (hkdf_key secret (sha256 context) ''nex/message/v1/content-key'')))"

definition aead :: "bytes \<Rightarrow> go_error + bytes" where
  "aead key = (if length key \<noteq> 32 then Inl ErrInvalid else Inr key)"

definition encrypt :: "crypto \<Rightarrow> bytes \<Rightarrow> bytes \<Rightarrow> bytes \<Rightarrow> bytes \<Rightarrow> go_error + bytes" where
  "encrypt C nonce key text aad = try_bind (aead key) (\<lambda>k. Inr (nonce @ cr_gcm_seal C k nonce text aad))"

definition decrypt :: "crypto \<Rightarrow> bytes \<Rightarrow> bytes \<Rightarrow> bytes \<Rightarrow> go_error + bytes" where
  "decrypt C key ciphertext aad =
    try_bind (aead key) (\<lambda>k.
      if length ciphertext < 12 + 16 then Inl ErrInvalid
      else case cr_gcm_open C k (take 12 ciphertext) (drop 12 ciphertext) aad of
        None \<Rightarrow> Inl (Errorf ''cipher: message authentication failed'' [])
      | Some text \<Rightarrow> Inr text)"

definition text_aad :: "msg_terms \<Rightarrow> bytes" where
  "text_aad t = wire ''text'' (terms_json t)"

subsection \<open>Sealing\<close>

record send_options =
  so_key_suite :: string
  so_conversation :: string
  so_reply_to :: string
  so_trade :: "trade_link option"

text \<open>The terms of a new offer: the suite and the conversation fall back to their defaults.\<close>

definition seal_terms ::
  "public_key \<Rightarrow> public_key \<Rightarrow> string \<Rightarrow> go_time \<Rightarrow> go_time \<Rightarrow> send_options \<Rightarrow> string \<Rightarrow> msg_terms" where
  "seal_terms p recipient invitation now expiry options mid =
    \<lparr>te_kind = Kind, te_id = mid, te_sender = p, te_recipient = recipient, te_invitation = invitation,
     te_created = now, te_expires = expiry,
     te_key_suite = (if so_key_suite options \<noteq> [] then so_key_suite options else HPKESuite),
     te_conversation = (if so_conversation options = [] then mid else so_conversation options),
     te_reply_to = so_reply_to options, te_trade = so_trade options\<rparr>"

definition seal_with_options ::
  "crypto \<Rightarrow> identity \<Rightarrow> public_key \<Rightarrow> bytes \<Rightarrow> string \<Rightarrow> go_time \<Rightarrow> go_time \<Rightarrow> send_options \<Rightarrow>
   bytes \<Rightarrow> bytes \<Rightarrow> bytes \<Rightarrow> go_error + offer \<times> bytes" where
  "seal_with_options C i recipient text invitation now expiry options rid key nonce =
    try_bind (identity_public C i) (\<lambda>p.
      if MaxText < length text \<or> \<not> utf8_valid (string_of text) \<or> public_validate C recipient \<noteq> None
      then Inl ErrInvalid
      else let t = seal_terms p recipient invitation now expiry options (hex_encode rid)
           in try_bind (encrypt C nonce key text (text_aad t)) (\<lambda>ct.
             let m = \<lparr>ofr_terms = t, ofr_ciphertext = ct, ofr_signature = []\<rparr>;
                 m' = m\<lparr>ofr_signature := sign C i ''offer'' (offer_json (offer_unsigned m))\<rparr>
             in case offer_verify C m' of Some e \<Rightarrow> Inl e | None \<Rightarrow> Inr (m', key)))"

definition seal ::
  "crypto \<Rightarrow> identity \<Rightarrow> public_key \<Rightarrow> bytes \<Rightarrow> string \<Rightarrow> go_time \<Rightarrow> go_time \<Rightarrow>
   bytes \<Rightarrow> bytes \<Rightarrow> bytes \<Rightarrow> go_error + offer \<times> bytes" where
  "seal C i recipient text invitation now expiry rid key nonce =
    seal_with_options C i recipient text invitation now expiry
      \<lparr>so_key_suite = [], so_conversation = [], so_reply_to = [], so_trade = None\<rparr> rid key nonce"

subsection \<open>Releasing the key\<close>

definition hpke_info :: "offer \<Rightarrow> decision \<Rightarrow> bytes" where
  "hpke_info m d = wire ''hpke'' (strings_json [HPKESuite, offer_hash m, decision_hash d])"

definition wrap_rekey :: "go_error + release" where
  "wrap_rekey = Inl ErrInvalid"

definition new_release :: "offer \<Rightarrow> decision \<Rightarrow> bytes \<Rightarrow> release" where
  "new_release m d ephemeral =
    \<lparr>rl_kem = [], rl_envelope = offer_hash m, rl_acceptance = decision_hash d, rl_ephemeral = ephemeral,
     rl_wrapped = [], rl_signature = []\<rparr>"

definition sign_release :: "crypto \<Rightarrow> identity \<Rightarrow> offer \<Rightarrow> decision \<Rightarrow> release \<Rightarrow> go_error + release" where
  "sign_release C i m d r =
    (let r' = r\<lparr>rl_signature := sign C i ''release'' (release_json (release_unsigned r))\<rparr>
     in case release_verify C r' m d of Some e \<Rightarrow> Inl e | None \<Rightarrow> Inr r')"

definition wrap_key ::
  "crypto \<Rightarrow> identity \<Rightarrow> offer \<Rightarrow> decision \<Rightarrow> bytes \<Rightarrow> bytes \<Rightarrow> bytes \<Rightarrow> go_error + release" where
  "wrap_key C i m d content_key rnd nonce =
    try_bind (identity_public C i) (\<lambda>p.
      if public_id p \<noteq> public_id (te_sender (ofr_terms m)) then Inl ErrParty
      else if decision_verify C d m \<noteq> None \<or> dc_action d \<noteq> ''agree'' \<or> length content_key \<noteq> 32 then Inl ErrInvalid
      else try_bind (decrypt C content_key (ofr_ciphertext m) (text_aad (ofr_terms m))) (\<lambda>text.
        if te_key_suite (ofr_terms m) = RekeySuite then wrap_rekey
        else if te_key_suite (ofr_terms m) = HPKESuite then
          try_bind (cr_hpke_sender C (pb_encryption (te_recipient (ofr_terms m))) (hpke_info m d) rnd) (\<lambda>(enc, sealer).
            let r = new_release m d enc in
            try_bind (cr_hpke_seal C sealer content_key (release_context r)) (\<lambda>wrapped.
              sign_release C i m d (r\<lparr>rl_wrapped := wrapped\<rparr>)))
        else
          try_bind (x_new_private rnd) (\<lambda>ephemeral.
            let r = new_release m d (cr_x_public C ephemeral) in
            try_bind (derive C ephemeral (pb_encryption (te_recipient (ofr_terms m))) (release_context r)) (\<lambda>wrapping_key.
            try_bind (encrypt C nonce wrapping_key content_key (release_context r)) (\<lambda>wrapped.
              sign_release C i m d (r\<lparr>rl_wrapped := wrapped\<rparr>))))))"

subsection \<open>Opening\<close>

definition open_key :: "crypto \<Rightarrow> identity \<Rightarrow> offer \<Rightarrow> decision \<Rightarrow> release \<Rightarrow> go_error + bytes" where
  "open_key C i m d r =
    (if te_key_suite (ofr_terms m) = RekeySuite then Inl ErrNotReady
     else if te_key_suite (ofr_terms m) = HPKESuite then
       try_bind (cr_hpke_receiver C (idn_encryption i) (hpke_info m d) (rl_ephemeral r)) (\<lambda>opener.
         cr_hpke_open C opener (rl_wrapped r) (release_context r))
     else
       try_bind (x_new_private (idn_encryption i)) (\<lambda>private.
       try_bind (derive C private (rl_ephemeral r) (release_context r)) (\<lambda>key.
         decrypt C key (rl_wrapped r) (release_context r))))"

text \<open>The dereference of a missing decision cannot happen: a verified record with a release has one.\<close>

definition open_message :: "crypto \<Rightarrow> identity \<Rightarrow> msg_record \<Rightarrow> go_error + bytes" where
  "open_message C i r =
    (case record_verify C r of
       Some e \<Rightarrow> Inl e
     | None \<Rightarrow>
         try_bind (identity_public C i) (\<lambda>p.
           if public_id p \<noteq> public_id (te_recipient (ofr_terms (mr_offer r))) then Inl ErrParty
           else case mr_release r of
             None \<Rightarrow> Inl ErrNotReady
           | Some l \<Rightarrow>
               try_bind (open_key C i (mr_offer r) (the (mr_decision r)) l) (\<lambda>key.
                 decrypt C key (ofr_ciphertext (mr_offer r)) (text_aad (ofr_terms (mr_offer r))))))"

subsection \<open>Laws of the building blocks\<close>

lemma length_hkdf [simp]: "length (hkdf_key s a i) = 32"
  by (simp add: hkdf_key_def hmac_sha256_def Let_def)

lemma decrypt_encrypt:
  assumes "gcm_ok C" "length key = 32" "length nonce = 12"
  shows "\<exists>ct. encrypt C nonce key text aad = Inr ct \<and> length ct = length text + 28 \<and> decrypt C key ct aad = Inr text"
  using assms by (auto simp: encrypt_def decrypt_def aead_def gcm_ok_def)

lemma identity_public_new:
  assumes "signs_ok C" "dh_ok C" "length seed = 32" "length scalar = 32"
  shows "identity_public C (new_identity C seed scalar) =
      Inr \<lparr>pb_signing = cr_ed_public C seed, pb_encryption = cr_x_public C scalar\<rparr>"
  using assms by (simp add: identity_public_def new_identity_def key_from_seed_def signs_ok_def x_new_private_def Let_def)

text \<open>What a successful \<open>identity_public\<close> says of the private keys.\<close>

lemma identity_publicE:
  assumes "identity_public C i = Inr p" "crypto_ok C"
  obtains seed where "length seed = 32" "idn_signing i = seed @ cr_ed_public C seed" "pb_signing p = cr_ed_public C seed"
    "length (idn_encryption i) = 32" "pb_encryption p = cr_x_public C (idn_encryption i)"
proof
  let ?s = "take 32 (idn_signing i)"
  have l: "length (idn_signing i) = 64" using assms(1) by (auto simp: identity_public_def split: if_splits)
  then show "length ?s = 32" by simp
  have k: "key_from_seed C ?s = idn_signing i" using assms(1) l by (auto simp: identity_public_def Let_def split: if_splits)
  then show split: "idn_signing i = ?s @ cr_ed_public C ?s" by (simp add: key_from_seed_def)
  have d: "drop 32 (idn_signing i) = cr_ed_public C ?s" using arg_cong [OF split, of "drop 32"] l by simp
  show "pb_signing p = cr_ed_public C ?s" "length (idn_encryption i) = 32" "pb_encryption p = cr_x_public C (idn_encryption i)"
    using assms(1) l k d by (auto simp: identity_public_def x_new_private_def Let_def split: if_splits)
qed

lemma sign_verifies:
  assumes "identity_public C i = Inr p" "crypto_ok C"
  shows "sig_verify C p domain text (sign C i domain text)"
proof -
  obtain seed where s: "length seed = 32" "idn_signing i = seed @ cr_ed_public C seed" "pb_signing p = cr_ed_public C seed"
    using identity_publicE [OF assms] by metis
  then show ?thesis using assms(2) by (simp add: sig_verify_def sign_def crypto_ok_def signs_ok_def)
qed

lemma public_validate_own:
  assumes "identity_public C i = Inr p" "crypto_ok C"
  shows "public_validate C p = None"
proof -
  obtain seed where s: "length seed = 32" "pb_signing p = cr_ed_public C seed"
    "length (idn_encryption i) = 32" "pb_encryption p = cr_x_public C (idn_encryption i)"
    using identity_publicE [OF assms] by metis
  moreover have "length probe = 32" by (simp add: probe_def)
  ultimately show ?thesis
    using assms(2) by (auto simp: public_validate_def x_new_public_def x_new_private_def x_ecdh_def crypto_ok_def
        signs_ok_def dh_ok_def split: option.splits)
qed

text \<open>A verified record gives what its parts give.\<close>

lemma record_verify_full:
  "record_verify C \<lparr>mr_offer = m, mr_decision = Some d, mr_release = Some l\<rparr> = None \<longleftrightarrow> release_verify C l m d = None"
  (is "?A \<longleftrightarrow> ?B")
proof
  assume ?A
  then show ?B by (simp add: record_verify_def split: option.splits)
next
  assume r: ?B
  note d = release_verified(1) [OF r]
  show ?A using r d decision_verified(1) [OF d] by (simp add: record_verify_def)
qed

lemma sign_release_ok:
  assumes "crypto_ok C" "identity_public C i = Inr (te_sender (ofr_terms m))" "decision_verify C d m = None"
    and "dc_action d = ''agree''" "rl_kem r = []" "rl_envelope r = offer_hash m" "rl_acceptance r = decision_hash d"
    and "length (rl_ephemeral r) = 32" "rl_signature r = []"
    and "length (rl_wrapped r) = (if te_key_suite (ofr_terms m) = HPKESuite then 48 else 60)"
  obtains l where "sign_release C i m d r = Inr l" "release_verify C l m d = None" "release_context l = release_context r"
    "rl_ephemeral l = rl_ephemeral r" "rl_wrapped l = rl_wrapped r"
proof
  let ?l = "r\<lparr>rl_signature := sign C i ''release'' (release_json (release_unsigned r))\<rparr>"
  have "release_unsigned ?l = release_unsigned r" by (simp add: release_unsigned_def)
  then show v: "release_verify C ?l m d = None"
    using assms sign_verifies [OF assms(2, 1)] verified_key_suite [OF decision_verified(1) [OF assms(3)]] key_suites
    by (auto simp: release_verify_def Let_def)
  then show "sign_release C i m d r = Inr ?l" by (simp add: sign_release_def Let_def)
  show "release_context ?l = release_context r" by (simp add: release_context_def)
qed simp_all

text \<open>
  Whoever holds the private key of the recipient opens what \<open>wrap_key\<close> releases, with both key suites.
\<close>

lemma wrap_open:
  assumes C: "crypto_ok C" and i: "identity_public C i = Inr (te_sender (ofr_terms m))"
    and j: "identity_public C j = Inr (te_recipient (ofr_terms m))"
    and d: "decision_verify C d m = None" "dc_action d = ''agree''"
    and key: "length key = 32" "decrypt C key (ofr_ciphertext m) (text_aad (ofr_terms m)) = Inr text"
    and rnd: "length rnd = 32" "length nonce = 12"
  obtains l where "wrap_key C i m d key rnd nonce = Inr l" "release_verify C l m d = None"
    "open_message C j \<lparr>mr_offer = m, mr_decision = Some d, mr_release = Some l\<rparr> = Inr text"
proof -
  let ?t = "ofr_terms m"
  have jk: "length (idn_encryption j) = 32" "pb_encryption (te_recipient ?t) = cr_x_public C (idn_encryption j)"
    using identity_publicE [OF j C] by metis+
  have opened: "open_message C j \<lparr>mr_offer = m, mr_decision = Some d, mr_release = Some l\<rparr> = Inr text"
    if "release_verify C l m d = None" "open_key C j m d l = Inr key" for l
    using that j key(2) record_verify_full [of C m d l] by (simp add: open_message_def)
  have start: "wrap_key C i m d key rnd nonce = (if te_key_suite ?t = HPKESuite then
      try_bind (cr_hpke_sender C (pb_encryption (te_recipient ?t)) (hpke_info m d) rnd) (\<lambda>(enc, sealer).
        try_bind (cr_hpke_seal C sealer key (release_context (new_release m d enc))) (\<lambda>wrapped.
          sign_release C i m d (new_release m d enc\<lparr>rl_wrapped := wrapped\<rparr>)))
    else let r = new_release m d (cr_x_public C rnd) in
      try_bind (derive C rnd (pb_encryption (te_recipient ?t)) (release_context r)) (\<lambda>wrapping_key.
      try_bind (encrypt C nonce wrapping_key key (release_context r)) (\<lambda>wrapped.
        sign_release C i m d (r\<lparr>rl_wrapped := wrapped\<rparr>))))"
    using i d key rnd(1) verified_key_suite [OF decision_verified(1) [OF d(1)]] key_suites
    by (auto simp: wrap_key_def x_new_private_def Let_def split_def)
  have ctx: "release_context (r\<lparr>rl_wrapped := w\<rparr>) = release_context r" for r w
    by (simp add: release_context_def)
  show ?thesis
  proof (cases "te_key_suite ?t = HPKESuite")
    case True
    have "\<exists>enc cs cr. cr_hpke_sender C (cr_x_public C (idn_encryption j)) (hpke_info m d) rnd = Inr (enc, cs) \<and>
        length enc = 32 \<and> cr_hpke_receiver C (idn_encryption j) (hpke_info m d) enc = Inr cr \<and>
        (\<forall>p a. \<exists>ct. cr_hpke_seal C cs p a = Inr ct \<and> length ct = length p + 16 \<and> cr_hpke_open C cr ct a = Inr p)"
      using C jk(1) rnd(1) unfolding crypto_ok_def hpke_ok_def by simp
    then obtain enc cs cr where s: "cr_hpke_sender C (cr_x_public C (idn_encryption j)) (hpke_info m d) rnd = Inr (enc, cs)"
      "length enc = 32" "cr_hpke_receiver C (idn_encryption j) (hpke_info m d) enc = Inr cr"
      "\<forall>p a. \<exists>ct. cr_hpke_seal C cs p a = Inr ct \<and> length ct = length p + 16 \<and> cr_hpke_open C cr ct a = Inr p"
      by blast
    then obtain ct where h: "cr_hpke_seal C cs key (release_context (new_release m d enc)) = Inr ct"
      "length ct = length key + 16" "cr_hpke_open C cr ct (release_context (new_release m d enc)) = Inr key"
      by blast
    note h = h s(1-3)
    obtain l where l: "sign_release C i m d (new_release m d enc\<lparr>rl_wrapped := ct\<rparr>) = Inr l"
      "release_verify C l m d = None" "release_context l = release_context (new_release m d enc\<lparr>rl_wrapped := ct\<rparr>)"
      "rl_ephemeral l = enc" "rl_wrapped l = ct"
      using sign_release_ok [OF C i d, of "new_release m d enc\<lparr>rl_wrapped := ct\<rparr>"] h key(1) True
      by (auto simp: new_release_def)
    note l = l [unfolded ctx]
    show ?thesis
    proof (rule that)
      show "wrap_key C i m d key rnd nonce = Inr l" using start True h jk(2) l(1) by simp
      have "open_key C j m d l = Inr key" using True key_suites h l by (simp add: open_key_def)
      then show "open_message C j \<lparr>mr_offer = m, mr_decision = Some d, mr_release = Some l\<rparr> = Inr text"
        using opened l(2) by blast
    qed (rule l(2))
  next
    case False
    let ?r = "new_release m d (cr_x_public C rnd)"
    have dh: "length (cr_x_public C rnd) = 32" "length (cr_x_public C (idn_encryption j)) = 32"
      using C rnd(1) jk(1) by (auto simp: crypto_ok_def dh_ok_def)
    obtain s where s: "cr_x_shared C rnd (cr_x_public C (idn_encryption j)) = Some s"
      "cr_x_shared C (idn_encryption j) (cr_x_public C rnd) = Some s"
      using C rnd(1) jk(1) unfolding crypto_ok_def dh_ok_def by (metis not_None_eq)
    define k where "k = hkdf_key s (sha256 (release_context ?r)) ''nex/message/v1/content-key''"
    have k: "derive C rnd (pb_encryption (te_recipient ?t)) (release_context ?r) = Inr k"
      "derive C (idn_encryption j) (cr_x_public C rnd) (release_context ?r) = Inr k"
      using s dh jk by (simp_all add: derive_def x_new_public_def x_ecdh_def k_def)
    obtain ct where ct: "encrypt C nonce k key (release_context ?r) = Inr ct" "length ct = 60"
      "decrypt C k ct (release_context ?r) = Inr key"
      using decrypt_encrypt [of C k nonce key "release_context ?r"] C rnd(2) key(1) by (auto simp: crypto_ok_def k_def)
    obtain l where l: "sign_release C i m d (?r\<lparr>rl_wrapped := ct\<rparr>) = Inr l"
      "release_verify C l m d = None" "release_context l = release_context (?r\<lparr>rl_wrapped := ct\<rparr>)"
      "rl_ephemeral l = cr_x_public C rnd" "rl_wrapped l = ct"
      using sign_release_ok [OF C i d, of "?r\<lparr>rl_wrapped := ct\<rparr>"] ct(2) dh(1) False
      by (auto simp: new_release_def)
    note l = l [unfolded ctx]
    show ?thesis
    proof (rule that)
      show "wrap_key C i m d key rnd nonce = Inr l" using start False k(1) ct(1) l(1) by simp
      have "te_key_suite ?t \<noteq> RekeySuite" using verified_key_suite [OF decision_verified(1) [OF d(1)]] key_suites by auto
      then have "open_key C j m d l = Inr key"
        using False k(2) ct(3) jk(1) l by (simp add: open_key_def x_new_private_def)
      then show "open_message C j \<lparr>mr_offer = m, mr_decision = Some d, mr_release = Some l\<rparr> = Inr text"
        using opened l(2) by blast
    qed (rule l(2))
  qed
qed

text \<open>What an honest sender seals verifies, and its key opens it.\<close>

definition options_ok :: "send_options \<Rightarrow> bool" where
  "options_ok x \<longleftrightarrow> supported_key_suite (so_key_suite x) \<and> (so_conversation x = [] \<or> valid_id (so_conversation x)) \<and>
    (so_reply_to x = [] \<or> valid_id (so_reply_to x)) \<and> (\<forall>l. so_trade x = Some l \<longrightarrow> trade_validate l = None)"

lemma seal_ok:
  assumes C: "crypto_ok C" and i: "identity_public C i = Inr p" and q: "public_validate C q = None" "public_id p \<noteq> public_id q"
    and body: "length plain \<le> MaxText" "utf8_valid (string_of plain)"
    and inv: "length invitation \<le> MaxInvitation" "utf8_valid invitation"
    and time: "now \<noteq> 0" "now < expiry" and x: "options_ok x"
    and rnd: "length rid = 32" "length key = 32" "length nonce = 12"
  obtains m where "seal_with_options C i q plain invitation now expiry x rid key nonce = Inr (m, key)"
    "offer_verify C m = None" "te_sender (ofr_terms m) = p" "te_recipient (ofr_terms m) = q"
    "te_created (ofr_terms m) = now" "te_expires (ofr_terms m) = expiry"
    "ofr_terms m = seal_terms p q invitation now expiry x (hex_encode rid)"
    "decrypt C key (ofr_ciphertext m) (text_aad (ofr_terms m)) = Inr plain"
proof -
  define t where "t = seal_terms p q invitation now expiry x (hex_encode rid)"
  have tf: "te_kind t = Kind" "te_id t = hex_encode rid" "te_sender t = p" "te_recipient t = q" "te_invitation t = invitation"
    "te_created t = now" "te_expires t = expiry" "te_trade t = so_trade x" "te_reply_to t = so_reply_to x"
    by (simp_all add: t_def seal_terms_def)
  have "supported_key_suite (te_key_suite t)" "te_key_suite t \<noteq> RekeySuite" "te_conversation t \<noteq> [] \<longrightarrow> valid_id (te_conversation t)"
    using x rnd(1) key_suites by (auto simp: t_def seal_terms_def options_ok_def supported_key_suite_def)
  moreover have "te_reply_to t \<noteq> [] \<longrightarrow> valid_id (te_reply_to t)"
    "\<not> (case te_trade t of None \<Rightarrow> False | Some l \<Rightarrow> trade_validate l \<noteq> None)"
    using x by (auto simp: tf options_ok_def split: option.splits)
  ultimately have extra: "\<not> (\<not> supported_key_suite (te_key_suite t) \<or> te_conversation t \<noteq> [] \<and> \<not> valid_id (te_conversation t) \<or>
      te_reply_to t \<noteq> [] \<and> \<not> valid_id (te_reply_to t))"
    "\<not> (te_key_suite t = RekeySuite \<and> \<not> valid_id (te_conversation t))"
    "\<not> (case te_trade t of None \<Rightarrow> False | Some l \<Rightarrow> trade_validate l \<noteq> None)"
    by blast+
  obtain ct where ct: "encrypt C nonce key plain (text_aad t) = Inr ct" "length ct = length plain + 28"
    "decrypt C key ct (text_aad t) = Inr plain"
    using decrypt_encrypt [of C key nonce plain "text_aad t"] C rnd by (auto simp: crypto_ok_def)
  let ?m = "\<lparr>ofr_terms = t, ofr_ciphertext = ct, ofr_signature = []\<rparr>"
  let ?m' = "?m\<lparr>ofr_signature := sign C i ''offer'' (offer_json (offer_unsigned ?m))\<rparr>"
  have u: "offer_unsigned ?m' = offer_unsigned ?m" by (simp add: offer_unsigned_def)
  have sig: "sig_verify C p ''offer'' (offer_json (offer_unsigned ?m)) (sign C i ''offer'' (offer_json (offer_unsigned ?m)))"
    by (rule sign_verifies [OF i C])
  have "public_validate C p = None" by (rule public_validate_own [OF i C])
  then have v: "offer_verify C ?m' = None"
    using q inv time rnd(1) ct(2) body(1) sig
    by (simp only: offer_verify_def Let_def u offer.simps extra if_False)
      (simp add: tf is_zero_time_def offer_unsigned_def)
  show ?thesis
  proof (rule that [OF _ v])
    show "seal_with_options C i q plain invitation now expiry x rid key nonce = Inr (?m', key)"
      using i q(1) body ct(1) v by (simp add: seal_with_options_def Let_def t_def)
  qed (use ct(3) in \<open>simp_all add: tf, simp add: t_def\<close>)
qed

end
