(* ===== verification/Message_Example.thy ===== *)
theory Message_Example
  imports Message_Crypto
begin

text \<open>
  A concrete run of the message protocol, at which the theorems about it are applied: primitives that satisfy
  their laws and can be computed, two identities and one sealed offer. The two identifiers are real SHA-256
  values; the kernel evaluates the hash of both texts.
\<close>

definition ex_crypto :: crypto where
  "ex_crypto =
    \<lparr>cr_ed_public = (\<lambda>seed. seed),
     cr_ed_sign = (\<lambda>k m. take 32 k @ replicate 32 0),
     cr_ed_verify = (\<lambda>p m s. s = p @ replicate 32 0),
     cr_x_public = (\<lambda>k. k),
     cr_x_shared = (\<lambda>k p. Some (map2 (+) k p)),
     cr_gcm_seal = (\<lambda>k n p a. p @ replicate 16 0),
     cr_gcm_open = (\<lambda>k n c a. if length c < 16 then None else Some (take (length c - 16) c)),
     cr_hpke_sender = (\<lambda>pk info rnd. Inr (rnd, pk)),
     cr_hpke_seal = (\<lambda>cs p a. Inr (p @ replicate 16 0)),
     cr_hpke_receiver = (\<lambda>sk info enc. Inr sk),
     cr_hpke_open = (\<lambda>cr c a. Inr (take (length c - 16) c))\<rparr>"

lemma ex_crypto_ok: "crypto_ok ex_crypto"
proof -
  have "map2 (+) a b = map2 (+) b a" if "length a = length b" for a b :: bytes
    using that by (induction a b rule: list_induct2) (simp_all add: add.commute)
  then show ?thesis
    by (simp add: crypto_ok_def signs_ok_def dh_ok_def gcm_ok_def hpke_ok_def ex_crypto_def)
qed

definition ex_alice :: identity where
  "ex_alice = \<lparr>idn_signing = replicate 64 0, idn_encryption = replicate 31 0 @ [1]\<rparr>"

definition ex_bob :: identity where
  "ex_bob = \<lparr>idn_signing = replicate 64 0, idn_encryption = replicate 31 0 @ [2]\<rparr>"

definition ex_alice_pub :: public_key where
  "ex_alice_pub = \<lparr>pb_signing = replicate 32 0, pb_encryption = replicate 31 0 @ [1]\<rparr>"

definition ex_bob_pub :: public_key where
  "ex_bob_pub = \<lparr>pb_signing = replicate 32 0, pb_encryption = replicate 31 0 @ [2]\<rparr>"

lemma ex_public:
  "identity_public ex_crypto ex_alice = Inr ex_alice_pub" "identity_public ex_crypto ex_bob = Inr ex_bob_pub"
proof -
  have split: "replicate 64 (0 :: 8 word) = replicate 32 0 @ replicate 32 0" by (simp flip: replicate_add)
  show "identity_public ex_crypto ex_alice = Inr ex_alice_pub" "identity_public ex_crypto ex_bob = Inr ex_bob_pub"
    by (simp_all add: identity_public_def ex_alice_def ex_bob_def ex_alice_pub_def ex_bob_pub_def key_from_seed_def
        ex_crypto_def x_new_private_def Let_def split)
qed

lemma ex_valid: "public_validate ex_crypto ex_alice_pub = None" "public_validate ex_crypto ex_bob_pub = None"
  by (rule public_validate_own [OF ex_public(1) ex_crypto_ok] public_validate_own [OF ex_public(2) ex_crypto_ok])+

text \<open>
  The identifiers differ: both texts fill three blocks of SHA-256, of which the first two agree. The states
  between the blocks are written out, so that the kernel evaluates the blocks independently.
\<close>

definition ex_padded :: "public_key \<Rightarrow> bytes" where
  "ex_padded p = sha_pad (wire ''identity'' (public_json p))"

definition ex_state1 :: "32 word list" where
  "ex_state1 = [684492573, 1146454194, 2994217310, 3985302861, 278960570, 1888874261, 3619094986, 3941732902]"

definition ex_state2 :: "32 word list" where
  "ex_state2 = [4266045323, 3050430741, 1912763852, 1249749860, 2181080176, 1488141551, 4036959457, 883526538]"

lemma ex_block1: "sha_compress sha_init (take 64 (ex_padded ex_alice_pub)) = ex_state1"
  by code_simp

lemma ex_block2: "sha_compress ex_state1 (take 64 (drop 64 (ex_padded ex_alice_pub))) = ex_state2"
  by code_simp

lemma ex_block3_alice: "hd (sha_compress ex_state2 (drop 128 (ex_padded ex_alice_pub))) = 2750968990"
  by code_simp

lemma ex_block3_bob: "hd (sha_compress ex_state2 (drop 128 (ex_padded ex_bob_pub))) = 3905928724"
  by code_simp

lemma ex_same_start: "take 128 (ex_padded ex_alice_pub) = take 128 (ex_padded ex_bob_pub)"
  by code_simp

lemma ex_padded_length: "length (ex_padded ex_alice_pub) = 192" "length (ex_padded ex_bob_pub) = 192"
  by code_simp+

lemma sha_blocks_192:
  "length m = 192 \<Longrightarrow> sha_blocks h m =
    sha_compress (sha_compress (sha_compress h (take 64 m)) (take 64 (drop 64 m))) (drop 128 m)"
  by (simp add: sha_blocks.simps [of _ m] sha_blocks.simps [of _ "drop 64 m"] sha_blocks.simps [of _ "drop 128 m"]
      sha_blocks.simps [of _ "[]"])

lemma ex_state_alice: "hd (sha_blocks sha_init (ex_padded ex_alice_pub)) = 2750968990"
  by (simp add: sha_blocks_192 ex_padded_length ex_block1 ex_block2 ex_block3_alice)

lemma ex_state_bob: "hd (sha_blocks sha_init (ex_padded ex_bob_pub)) = 3905928724"
proof -
  have "take 64 (ex_padded ex_bob_pub) = take 64 (ex_padded ex_alice_pub)"
    "take 64 (drop 64 (ex_padded ex_bob_pub)) = take 64 (drop 64 (ex_padded ex_alice_pub))"
    using arg_cong [OF ex_same_start, of "take 64"] arg_cong [OF ex_same_start, of "drop 64"]
    by (simp_all add: drop_take)
  then show ?thesis
    by (simp add: sha_blocks_192 ex_padded_length ex_block1 ex_block2 ex_block3_bob)
qed

lemma sha256_hd: "hd (sha256 m) = ucast (drop_bit 24 (hd (sha_blocks sha_init (sha_pad m))))"
proof -
  have "length (sha_blocks sha_init (sha_pad m)) = 8" by (simp add: sha_blocks_length sha_init_def)
  then obtain w ws where "sha_blocks sha_init (sha_pad m) = w # ws" by (cases "sha_blocks sha_init (sha_pad m)") auto
  then show ?thesis by (simp add: sha256_def be32_bytes_def)
qed

lemma ex_ids: "public_id ex_alice_pub \<noteq> public_id ex_bob_pub"
proof
  assume "public_id ex_alice_pub = public_id ex_bob_pub"
  then have "hd (sha256 (wire ''identity'' (public_json ex_alice_pub))) = hd (sha256 (wire ''identity'' (public_json ex_bob_pub)))"
    by (simp add: public_id_def digest_def)
  then show False
    using ex_state_alice ex_state_bob by (simp add: sha256_hd ex_padded_def)
qed

text \<open>An instant whose year has four digits: one hour into year 1, and the next hour.\<close>

definition ex_hour :: go_time where
  "ex_hour = 3600 * second"

lemma ex_years: "json_year_ok ex_hour" "json_year_ok (2 * ex_hour)" "0 < ex_hour"
  by code_simp+

definition ex_options :: send_options where
  "ex_options = \<lparr>so_key_suite = [], so_conversation = [], so_reply_to = [], so_trade = None\<rparr>"

lemma ex_options_ok: "options_ok ex_options"
  by (simp add: options_ok_def ex_options_def supported_key_suite_def)

lemma ex_text: "utf8_valid (string_of [])" "utf8_valid []"
  by (simp_all add: utf8_valid_def string_of_def)

end
