(* ===== verification/Message_Laws.thy ===== *)
theory Message_Laws
  imports Message_Example
begin

text \<open>
  The properties of the message protocol: an honest run delivers the text, nothing opens without the signed
  consent and the signed release, the signatures bind one offer and one decision, and a relay that holds a
  verified record never takes back or replaces a step, whatever it is sent.
\<close>

subsection \<open>A run of the protocol\<close>

text \<open>The relay's state while it receives steps, in any order and from anyone.\<close>

datatype relay_call = SubmitDecision decision go_time | SubmitRelease release

fun relay_step :: "crypto \<Rightarrow> msg_record \<Rightarrow> relay_call \<Rightarrow> msg_record outcome" where
  "relay_step C r (SubmitDecision d now) = apply_decision C r d now"
| "relay_step C r (SubmitRelease l) = apply_release C r l"

definition relay_run :: "crypto \<Rightarrow> msg_record \<Rightarrow> relay_call list \<Rightarrow> msg_record" where
  "relay_run C = foldl (\<lambda>r c. fst (relay_step C r c))"

lemma apply_decision_cases:
  obtains (fails) e where "apply_decision C r d now = fail r e"
  | (again) "apply_decision C r d now = ok r" "mr_decision r \<noteq> None"
  | (first) "apply_decision C r d now = ok (r\<lparr>mr_decision := Some d\<rparr>)" "mr_decision r = None"
      "decision_verify C d (mr_offer r) = None"
  by (cases "decision_verify C d (mr_offer r)"; cases "mr_decision r";
      cases "now < te_expires (ofr_terms (mr_offer r))"; cases "now + minute < dc_at d";
      cases "decision_json (the (mr_decision r)) = decision_json d")
    (simp_all add: apply_decision_def)

lemma apply_release_cases:
  obtains (fails) e where "apply_release C r l = fail r e"
  | (again) "apply_release C r l = ok r" "mr_release r \<noteq> None"
  | (first) d where "apply_release C r l = ok (r\<lparr>mr_release := Some l\<rparr>)" "mr_release r = None" "mr_decision r = Some d"
      "release_verify C l (mr_offer r) d = None"
proof (cases "mr_decision r")
  case (Some d)
  then show ?thesis
    using that by (cases "release_verify C l (mr_offer r) d"; cases "mr_release r";
        cases "release_json (the (mr_release r)) = release_json l")
      (simp_all add: apply_release_def)
qed (use that(1) in \<open>simp add: apply_release_def\<close>)

text \<open>One record goes on from another: the same offer, and every step taken kept.\<close>

definition record_extends :: "msg_record \<Rightarrow> msg_record \<Rightarrow> bool" where
  "record_extends r s \<longleftrightarrow> mr_offer s = mr_offer r \<and> (\<forall>d. mr_decision r = Some d \<longrightarrow> mr_decision s = Some d) \<and>
    (\<forall>l. mr_release r = Some l \<longrightarrow> mr_release s = Some l)"

lemma record_extends_refl [simp]: "record_extends r r"
  by (simp add: record_extends_def)

lemma record_extends_trans: "record_extends r s \<Longrightarrow> record_extends s t \<Longrightarrow> record_extends r t"
  by (auto simp: record_extends_def)

lemma record_verifyE:
  assumes "record_verify C r = None"
  obtains "offer_verify C (mr_offer r) = None" "\<And>d. mr_decision r = Some d \<Longrightarrow> decision_verify C d (mr_offer r) = None"
    "\<And>l. mr_release r = Some l \<Longrightarrow> \<exists>d. mr_decision r = Some d \<and> release_verify C l (mr_offer r) d = None"
  using assms by (auto simp: record_verify_def split: option.splits)

lemma record_verifyI:
  assumes "offer_verify C (mr_offer r) = None" "\<And>d. mr_decision r = Some d \<Longrightarrow> decision_verify C d (mr_offer r) = None"
    and "\<And>l. mr_release r = Some l \<Longrightarrow> \<exists>d. mr_decision r = Some d \<and> release_verify C l (mr_offer r) d = None"
  shows "record_verify C r = None"
  using assms by (auto simp: record_verify_def split: option.splits)

lemma relay_step_keeps:
  assumes "record_verify C r = None"
  shows "record_verify C (fst (relay_step C r c)) = None \<and> record_extends r (fst (relay_step C r c)) \<and>
    (snd (relay_step C r c) \<noteq> None \<longrightarrow> fst (relay_step C r c) = r)"
proof (cases c)
  case (SubmitDecision d now)
  show ?thesis
  proof (cases rule: apply_decision_cases [of C r d now])
    case first
    have "record_verify C (r\<lparr>mr_decision := Some d\<rparr>) = None"
      using assms first by (intro record_verifyI) (auto elim!: record_verifyE)
    then show ?thesis using first SubmitDecision by (auto simp: record_extends_def)
  qed (use assms SubmitDecision in auto)
next
  case (SubmitRelease l)
  show ?thesis
  proof (cases rule: apply_release_cases [of C r l])
    case (first d)
    have "record_verify C (r\<lparr>mr_release := Some l\<rparr>) = None"
      using assms first by (intro record_verifyI) (auto elim!: record_verifyE)
    then show ?thesis using first SubmitRelease by (auto simp: record_extends_def)
  qed (use assms SubmitRelease in auto)
qed

lemma relay_run_keeps:
  "record_verify C r = None \<Longrightarrow> record_verify C (relay_run C r cs) = None \<and> record_extends r (relay_run C r cs)"
proof (induction cs arbitrary: r)
  case (Cons c cs)
  then show ?case
    using relay_step_keeps [of C r c] record_extends_trans by (fastforce simp: relay_run_def)
qed (simp add: relay_run_def)

lemma retry_decision:
  assumes "record_verify C r = None" "mr_decision r = Some d"
  shows "apply_decision C r d now = ok r"
  using assms by (auto simp: apply_decision_def elim!: record_verifyE)

lemma retry_release:
  assumes "record_verify C r = None" "mr_release r = Some l"
  shows "apply_release C r l = ok r"
  using assms by (auto simp: apply_release_def elim!: record_verifyE)

subsection \<open>Honest runs\<close>

lemma decide_ok:
  assumes "crypto_ok C" "identity_public C j = Inr (te_recipient (ofr_terms m))" "offer_verify C m = None"
    and "te_created (ofr_terms m) \<le> now" "now < te_expires (ofr_terms m)" "action = ''agree'' \<or> action = ''reject''"
  obtains d where "decide C j m action now = Inr d" "decision_verify C d m = None" "dc_action d = action" "dc_at d = now"
proof
  let ?u = "\<lparr>dc_rekey = None, dc_envelope = offer_hash m, dc_action = action, dc_at = now, dc_signature = []\<rparr>"
  let ?d = "?u\<lparr>dc_signature := sign C j ''decision'' (decision_json (decision_unsigned ?u))\<rparr>"
  show v: "decision_verify C ?d m = None"
    using assms sign_verifies [OF assms(2, 1)] verified_key_suite [OF assms(3)] key_suites
    by (auto simp: decision_verify_def decision_unsigned_def Let_def)
  show "decide C j m action now = Inr ?d"
    using assms(2, 5) v by (simp add: decide_def decide_rekey_def Let_def)
qed simp_all

lemma apply_first:
  "decision_verify C d m = None \<Longrightarrow> now < te_expires (ofr_terms m) \<Longrightarrow> dc_at d \<le> now + minute \<Longrightarrow>
    apply_decision C \<lparr>mr_offer = m, mr_decision = None, mr_release = None\<rparr> d now =
      ok \<lparr>mr_offer = m, mr_decision = Some d, mr_release = None\<rparr>"
  "release_verify C l m d = None \<Longrightarrow>
    apply_release C \<lparr>mr_offer = m, mr_decision = Some d, mr_release = None\<rparr> l =
      ok \<lparr>mr_offer = m, mr_decision = Some d, mr_release = Some l\<rparr>"
  by (simp_all add: apply_decision_def apply_release_def)

lemma honest_run:
  assumes C: "crypto_ok C" and i: "identity_public C i = Inr p" and j: "identity_public C j = Inr q"
    and pq: "public_id p \<noteq> public_id q"
    and body: "length plain \<le> MaxText" "utf8_valid (string_of plain)"
    and card: "length invitation \<le> MaxInvitation" "utf8_valid invitation"
    and time: "created \<noteq> 0" "created \<le> decided" "decided < expiry" "relayed < expiry" "decided \<le> relayed + minute"
    and x: "options_ok x"
    and rnd: "length rid = 32" "length key = 32" "length nonce = 12" "length eph = 32" "length nonce' = 12"
  obtains m d l where
    "seal_with_options C i q plain invitation created expiry x rid key nonce = Inr (m, key)"
    "offer_verify C m = None" "decide C j m ''agree'' decided = Inr d"
    "apply_decision C \<lparr>mr_offer = m, mr_decision = None, mr_release = None\<rparr> d relayed =
      ok \<lparr>mr_offer = m, mr_decision = Some d, mr_release = None\<rparr>"
    "wrap_key C i m d key eph nonce' = Inr l" "release_verify C l m d = None"
    "apply_release C \<lparr>mr_offer = m, mr_decision = Some d, mr_release = None\<rparr> l =
      ok \<lparr>mr_offer = m, mr_decision = Some d, mr_release = Some l\<rparr>"
    "open_message C j \<lparr>mr_offer = m, mr_decision = Some d, mr_release = Some l\<rparr> = Inr plain"
    "te_created (ofr_terms m) = created" "te_expires (ofr_terms m) = expiry" "dc_at d = decided"
    "ofr_terms m = seal_terms p q invitation created expiry x (hex_encode rid)"
proof -
  have q: "public_validate C q = None" by (rule public_validate_own [OF j C])
  have "created < expiry" using time by simp
  then obtain m where m: "seal_with_options C i q plain invitation created expiry x rid key nonce = Inr (m, key)"
    "offer_verify C m = None" "te_sender (ofr_terms m) = p" "te_recipient (ofr_terms m) = q"
    "te_created (ofr_terms m) = created" "te_expires (ofr_terms m) = expiry"
    "ofr_terms m = seal_terms p q invitation created expiry x (hex_encode rid)"
    "decrypt C key (ofr_ciphertext m) (text_aad (ofr_terms m)) = Inr plain"
    using seal_ok [OF C i q pq body card time(1) _ x rnd(1-3)] by metis
  obtain d where d: "decide C j m ''agree'' decided = Inr d" "decision_verify C d m = None" "dc_action d = ''agree''" "dc_at d = decided"
    using decide_ok [OF C, of j m decided "''agree''"] j m time by auto
  obtain l where l: "wrap_key C i m d key eph nonce' = Inr l" "release_verify C l m d = None"
    "open_message C j \<lparr>mr_offer = m, mr_decision = Some d, mr_release = Some l\<rparr> = Inr plain"
    using wrap_open [OF C, of i m j d key plain eph nonce'] i j m d(2, 3) rnd by metis
  show ?thesis
    by (rule that [of m d l]) (use m d l time apply_first in simp_all)
qed

text \<open>
  C5. An honest run delivers the text: sealing an offer gives one that verifies, the recipient's agreement is accepted by
  the relay, the sender wraps the key against it, the relay accepts the release, and the recipient opens exactly the text
  that was sealed. The primitives obey their documented laws, the identities have different identifiers, the text, the
  invitation and the options are within the limits, and the clocks are in order, with years that JSON can print.
\<close>

theorem message_delivered:
  assumes "crypto_ok C" "identity_public C i = Inr p" "identity_public C j = Inr q" "public_id p \<noteq> public_id q"
    and "length plain \<le> MaxText" "utf8_valid (string_of plain)" "length invitation \<le> MaxInvitation" "utf8_valid invitation"
    and "json_year_ok created" "json_year_ok expiry" "created \<noteq> 0" "created \<le> decided" "decided < expiry"
    and "relayed < expiry" "decided \<le> relayed + minute" "options_ok x"
    and "length rid = 32" "length key = 32" "length nonce = 12" "length eph = 32" "length nonce' = 12"
  shows "\<exists>m d l. seal_with_options C i q plain invitation created expiry x rid key nonce = Inr (m, key) \<and>
    decide C j m ''agree'' decided = Inr d \<and>
    apply_decision C \<lparr>mr_offer = m, mr_decision = None, mr_release = None\<rparr> d relayed =
      ok \<lparr>mr_offer = m, mr_decision = Some d, mr_release = None\<rparr> \<and>
    wrap_key C i m d key eph nonce' = Inr l \<and>
    apply_release C \<lparr>mr_offer = m, mr_decision = Some d, mr_release = None\<rparr> l =
      ok \<lparr>mr_offer = m, mr_decision = Some d, mr_release = Some l\<rparr> \<and>
    open_message C j \<lparr>mr_offer = m, mr_decision = Some d, mr_release = Some l\<rparr> = Inr plain"
proof -
  from honest_run [OF assms(1-8) assms(11-21)] obtain m d l where
    "seal_with_options C i q plain invitation created expiry x rid key nonce = Inr (m, key)" "decide C j m ''agree'' decided = Inr d"
    "apply_decision C \<lparr>mr_offer = m, mr_decision = None, mr_release = None\<rparr> d relayed =
      ok \<lparr>mr_offer = m, mr_decision = Some d, mr_release = None\<rparr>"
    "wrap_key C i m d key eph nonce' = Inr l"
    "apply_release C \<lparr>mr_offer = m, mr_decision = Some d, mr_release = None\<rparr> l =
      ok \<lparr>mr_offer = m, mr_decision = Some d, mr_release = Some l\<rparr>"
    "open_message C j \<lparr>mr_offer = m, mr_decision = Some d, mr_release = Some l\<rparr> = Inr plain"
    by metis
  then show ?thesis by blast
qed

theorem message_delivered_witness:
  "\<exists>m d l. seal_with_options ex_crypto ex_alice ex_bob_pub [] [] ex_hour (2 * ex_hour) ex_options
      (replicate 32 0) (replicate 32 1) (replicate 12 0) = Inr (m, replicate 32 1) \<and>
    decide ex_crypto ex_bob m ''agree'' ex_hour = Inr d \<and>
    apply_decision ex_crypto \<lparr>mr_offer = m, mr_decision = None, mr_release = None\<rparr> d ex_hour =
      ok \<lparr>mr_offer = m, mr_decision = Some d, mr_release = None\<rparr> \<and>
    wrap_key ex_crypto ex_alice m d (replicate 32 1) (replicate 32 0) (replicate 12 0) = Inr l \<and>
    apply_release ex_crypto \<lparr>mr_offer = m, mr_decision = Some d, mr_release = None\<rparr> l =
      ok \<lparr>mr_offer = m, mr_decision = Some d, mr_release = Some l\<rparr> \<and>
    open_message ex_crypto ex_bob \<lparr>mr_offer = m, mr_decision = Some d, mr_release = Some l\<rparr> = Inr []"
  by (rule message_delivered [OF ex_crypto_ok ex_public ex_ids _ ex_text(1) _ ex_text(2) ex_years(1, 2) _ _ _ _ _ ex_options_ok])
    (use ex_years(3) in \<open>simp_all add: minute_def second_def\<close>)

lemma ex_run:
  obtains m d l where "release_verify ex_crypto l m d = None" "json_year_ok (te_created (ofr_terms m))"
    "json_year_ok (te_expires (ofr_terms m))" "json_year_ok (dc_at d)"
    "open_message ex_crypto ex_bob \<lparr>mr_offer = m, mr_decision = Some d, mr_release = Some l\<rparr> = Inr []"
proof -
  have t: "ex_hour \<noteq> 0" "ex_hour \<le> ex_hour" "ex_hour < 2 * ex_hour" "ex_hour < 2 * ex_hour" "ex_hour \<le> ex_hour + minute"
    using ex_years(3) by (simp_all add: minute_def second_def)
  have s: "length ([] :: bytes) \<le> MaxText" "length ([] :: string) \<le> MaxInvitation" by simp_all
  have r: "length (replicate 32 0 :: bytes) = 32" "length (replicate 32 1 :: bytes) = 32" "length (replicate 12 0 :: bytes) = 12" by simp_all
  from honest_run [OF ex_crypto_ok ex_public ex_ids s(1) ex_text(1) s(2) ex_text(2) t ex_options_ok r(1, 2, 3, 1, 3)] that ex_years
  show ?thesis by metis
qed

text \<open>
  C11. Nothing opens without consent: when \<open>Open\<close> returns a text, the record holds an offer that verifies, a decision to
  agree that the offer's recipient signed over the hash of this offer within its window, and a release that the sender
  signed over the hashes of both; and the identity that opened it is the one the offer names, with working keys.
\<close>

theorem open_needs_consent:
  assumes "open_message C j r = Inr plain"
  shows "\<exists>p d l. identity_public C j = Inr p \<and> public_id p = public_id (te_recipient (ofr_terms (mr_offer r))) \<and>
    offer_verify C (mr_offer r) = None \<and> mr_decision r = Some d \<and> mr_release r = Some l \<and>
    dc_action d = ''agree'' \<and> dc_envelope d = offer_hash (mr_offer r) \<and>
    te_created (ofr_terms (mr_offer r)) \<le> dc_at d \<and> dc_at d < te_expires (ofr_terms (mr_offer r)) \<and>
    sig_verify C (te_recipient (ofr_terms (mr_offer r))) ''decision'' (decision_json (decision_unsigned d)) (dc_signature d) \<and>
    rl_envelope l = offer_hash (mr_offer r) \<and> rl_acceptance l = decision_hash d \<and>
    sig_verify C (te_sender (ofr_terms (mr_offer r))) ''release'' (release_json (release_unsigned l)) (rl_signature l)"
proof -
  have v: "record_verify C r = None" using assms by (auto simp: open_message_def split: option.splits)
  obtain p where p: "identity_public C j = Inr p" "public_id p = public_id (te_recipient (ofr_terms (mr_offer r)))"
    using assms v by (auto simp: open_message_def try_bind_Inr split: if_splits)
  obtain l where l: "mr_release r = Some l"
    using assms v p by (auto simp: open_message_def split: option.splits)
  then obtain d where d: "mr_decision r = Some d" "release_verify C l (mr_offer r) d = None"
    using v by (auto elim!: record_verifyE)
  note a = release_verified [OF d(2)] and b = decision_verified [OF release_verified(1) [OF d(2)]]
  show ?thesis using p l d(1) a b by blast
qed

theorem open_needs_consent_witness:
  "\<exists>r d l. open_message ex_crypto ex_bob r = Inr [] \<and> mr_decision r = Some d \<and> mr_release r = Some l \<and>
    dc_action d = ''agree'' \<and> dc_envelope d = offer_hash (mr_offer r) \<and> rl_acceptance l = decision_hash d"
proof -
  obtain r where r: "open_message ex_crypto ex_bob r = Inr []" using ex_run by metis
  then obtain d l where "mr_decision r = Some d" "mr_release r = Some l" "dc_action d = ''agree''"
      "dc_envelope d = offer_hash (mr_offer r)" "rl_acceptance l = decision_hash d"
    using open_needs_consent [OF r] by metis
  with r show ?thesis by metis
qed

text \<open>
  C21. A release binds one offer and one decision: if a release verifies against two offers with their decisions, the two
  offers agree in every field but the signature, and so do the two decisions, or two different signed texts with one SHA-256
  value are at hand. No key released for one envelope can be passed off as consent to another.
\<close>

theorem release_binds:
  assumes "release_verify C l m d = None" "release_verify C l m' d' = None"
    and "json_year_ok (te_created (ofr_terms m))" "json_year_ok (te_expires (ofr_terms m))" "json_year_ok (dc_at d)"
    and "json_year_ok (te_created (ofr_terms m'))" "json_year_ok (te_expires (ofr_terms m'))" "json_year_ok (dc_at d')"
  shows "offer_unsigned m = offer_unsigned m' \<and> decision_unsigned d = decision_unsigned d' \<or>
    collide sha256 [wire ''offer'' (offer_json (offer_unsigned m)), wire ''decision'' (decision_json (decision_unsigned d))]
      [wire ''offer'' (offer_json (offer_unsigned m')), wire ''decision'' (decision_json (decision_unsigned d'))]"
proof -
  note r = release_verified [OF assms(1)] and r' = release_verified [OF assms(2)]
  note d = decision_verified [OF r(1)] and d' = decision_verified [OF r'(1)]
  have "offer_unsigned m = offer_unsigned m' \<or> collide sha256 [wire ''offer'' (offer_json (offer_unsigned m))] [wire ''offer'' (offer_json (offer_unsigned m'))]"
    using digest_binds [of "''offer''" "offer_json (offer_unsigned m)" "offer_json (offer_unsigned m')"] r(3) r'(3)
      offer_json_inj [of "offer_unsigned m" "offer_unsigned m'"] offer_verify_clean [OF d(1) assms(3, 4)] offer_verify_clean [OF d'(1) assms(6, 7)]
    by (auto simp: offer_hash_def offer_unsigned_def)
  moreover have "decision_unsigned d = decision_unsigned d' \<or>
      collide sha256 [wire ''decision'' (decision_json (decision_unsigned d))] [wire ''decision'' (decision_json (decision_unsigned d'))]"
    using digest_binds [of "''decision''" "decision_json (decision_unsigned d)" "decision_json (decision_unsigned d')"] r(4) r'(4)
      decision_json_inj [of "decision_unsigned d" "decision_unsigned d'"] assms(5, 8)
      verified_decision_utf8 [OF r(1)] verified_decision_utf8 [OF r'(1)]
    by (auto simp: decision_hash_def decision_unsigned_def)
  ultimately show ?thesis by (auto simp: collide_iff)
qed

text \<open>
  One release that verifies for two offers which differ in their signatures: the primitives of the example, with a
  check of signatures that ignores their second half.
\<close>

definition ex_malleable :: crypto where
  "ex_malleable = ex_crypto\<lparr>cr_ed_verify := (\<lambda>p m s. length s = 64 \<and> take 32 s = p)\<rparr>"

definition resigned :: "offer \<Rightarrow> offer" where
  "resigned m = m\<lparr>ofr_signature := take 32 (ofr_signature m) @ replicate 32 1\<rparr>"

lemma malleable_verifies:
  assumes "release_verify ex_crypto l m d = None"
  shows "release_verify ex_malleable l m d = None" and "release_verify ex_malleable l (resigned m) d = None"
    and "resigned m \<noteq> m"
proof -
  have sig: "sig_verify ex_crypto p t s x \<Longrightarrow> sig_verify ex_malleable p t s x"
    "sig_verify ex_crypto p t s x \<Longrightarrow> sig_verify ex_malleable p t s (take 32 x @ replicate 32 1)" for p t s x
    by (auto simp: sig_verify_def ex_malleable_def ex_crypto_def)
  have keys: "public_validate ex_malleable = public_validate ex_crypto"
    by (simp add: fun_eq_iff public_validate_def x_ecdh_def ex_malleable_def)
  have same: "ofr_terms (resigned m) = ofr_terms m" "ofr_ciphertext (resigned m) = ofr_ciphertext m"
    "offer_unsigned (resigned m) = offer_unsigned m" "offer_hash (resigned m) = offer_hash m"
    "ofr_signature (resigned m) = take 32 (ofr_signature m) @ replicate 32 1"
    by (simp_all add: resigned_def offer_unsigned_def offer_hash_def)
  note r = release_verified [OF assms] and d = decision_verified [OF release_verified(1) [OF assms]]
  have m: "offer_verify ex_malleable m = None" "offer_verify ex_malleable (resigned m) = None"
    using d(1) sig unfolding offer_verify_def keys same Let_def by (simp_all split: if_splits) auto
  then have "decision_verify ex_malleable d m = None" "decision_verify ex_malleable d (resigned m) = None"
    using r(1) sig by (simp_all add: decision_verify_def same Let_def split: if_splits) auto
  then show "release_verify ex_malleable l m d = None" "release_verify ex_malleable l (resigned m) d = None"
    using assms sig by (simp_all add: release_verify_def same Let_def split: if_splits)
  have "sig_verify ex_crypto (te_sender (ofr_terms m)) ''offer'' (offer_json (offer_unsigned m)) (ofr_signature m)"
    using d(1) by (auto simp: offer_verify_def Let_def split: if_splits)
  then obtain p :: bytes where "ofr_signature m = p @ replicate 32 0" "length p = 32"
    by (auto simp: sig_verify_def ex_crypto_def)
  then have "ofr_signature (resigned m) \<noteq> ofr_signature m"
    unfolding same by (simp add: replicate_eq_replicate)
  then show "resigned m \<noteq> m" by metis
qed

theorem release_binds_witness:
  "\<exists>l m m' d. m \<noteq> m' \<and> release_verify ex_malleable l m d = None \<and> release_verify ex_malleable l m' d = None \<and>
    (offer_unsigned m = offer_unsigned m' \<and> decision_unsigned d = decision_unsigned d \<or>
     collide sha256 [wire ''offer'' (offer_json (offer_unsigned m)), wire ''decision'' (decision_json (decision_unsigned d))]
      [wire ''offer'' (offer_json (offer_unsigned m')), wire ''decision'' (decision_json (decision_unsigned d))])"
proof -
  obtain m d l where r: "release_verify ex_crypto l m d = None" "json_year_ok (te_created (ofr_terms m))"
    "json_year_ok (te_expires (ofr_terms m))" "json_year_ok (dc_at d)"
    using ex_run by metis
  note v = malleable_verifies [OF r(1)]
  have "ofr_terms (resigned m) = ofr_terms m" by (simp add: resigned_def)
  with release_binds [OF v(1, 2) r(2-4) _ _ r(4)] r(2, 3)
  have "offer_unsigned m = offer_unsigned (resigned m) \<and> decision_unsigned d = decision_unsigned d \<or>
     collide sha256 [wire ''offer'' (offer_json (offer_unsigned m)), wire ''decision'' (decision_json (decision_unsigned d))]
      [wire ''offer'' (offer_json (offer_unsigned (resigned m))), wire ''decision'' (decision_json (decision_unsigned d))]"
    by simp
  with v(1, 2) v(3) [symmetric] show ?thesis by blast
qed

text \<open>
  C4. A relay never takes back or replaces a step: from a record that verifies, any sequence of submitted decisions and
  releases, valid or not, in any order and at any times, leaves a record that verifies and holds the same offer and every
  step that was taken before; a call that fails changes nothing; and submitting again exactly the decision or the
  release the record holds succeeds without a change, even after the offer has expired.
\<close>

theorem relay_keeps_consent:
  assumes "record_verify C r = None"
  shows "record_verify C (relay_run C r cs) = None \<and> record_extends r (relay_run C r cs) \<and>
    (\<forall>c e. snd (relay_step C (relay_run C r cs) c) = Some e \<longrightarrow> fst (relay_step C (relay_run C r cs) c) = relay_run C r cs) \<and>
    (\<forall>d now. mr_decision (relay_run C r cs) = Some d \<longrightarrow> relay_step C (relay_run C r cs) (SubmitDecision d now) = ok (relay_run C r cs)) \<and>
    (\<forall>l. mr_release (relay_run C r cs) = Some l \<longrightarrow> relay_step C (relay_run C r cs) (SubmitRelease l) = ok (relay_run C r cs))"
proof -
  note k = relay_run_keeps [OF assms, of cs]
  then have v: "record_verify C (relay_run C r cs) = None" by blast
  show ?thesis
    using k relay_step_keeps [OF v] retry_decision [OF v] retry_release [OF v] by auto
qed

theorem relay_keeps_consent_witness:
  "\<exists>m d. record_extends \<lparr>mr_offer = m, mr_decision = Some d, mr_release = None\<rparr>
    (relay_run ex_crypto \<lparr>mr_offer = m, mr_decision = Some d, mr_release = None\<rparr> [SubmitDecision d (3 * ex_hour)])"
proof -
  obtain m d l where r: "release_verify ex_crypto l m d = None" using ex_run by metis
  have "record_verify ex_crypto \<lparr>mr_offer = m, mr_decision = Some d, mr_release = None\<rparr> = None"
    using release_verified(1) [OF r] decision_verified(1) [OF release_verified(1) [OF r]] by (simp add: record_verify_def)
  from relay_keeps_consent [OF this] show ?thesis by blast
qed

text \<open>
  C25. The first decision stands: on a record that holds a decision, submitting any other decision fails, with
  \<open>ErrInvalid\<close> when it does not verify for the offer and with \<open>ErrState\<close> when it does, even when the recipient signed both;
  a second agreement at another time, or a rejection after an agreement, is another decision.
\<close>

theorem first_decision_stands:
  assumes "mr_decision r = Some d0" "decision_verify C d0 (mr_offer r) = None" "json_year_ok (dc_at d0)" "json_year_ok (dc_at d)"
    and "d \<noteq> d0"
  shows "apply_decision C r d now = fail r (if decision_verify C d (mr_offer r) = None then ErrState else ErrInvalid)"
proof (cases "decision_verify C d (mr_offer r)")
  case None
  then have "decision_json d0 \<noteq> decision_json d"
    using decision_json_inj [of d0 d] verified_decision_utf8 [OF None] verified_decision_utf8 [OF assms(2)] assms(3-5) by metis
  then show ?thesis using None assms(1) by (simp add: apply_decision_def)
next
  case (Some e)
  then have "e = ErrInvalid" by (auto simp: decision_verify_def Let_def split: if_splits)
  then show ?thesis using Some by (simp add: apply_decision_def)
qed

theorem first_decision_stands_witness:
  "\<exists>m d. apply_decision ex_crypto \<lparr>mr_offer = m, mr_decision = Some d, mr_release = None\<rparr> (d\<lparr>dc_action := ''maybe''\<rparr>) ex_hour =
    fail \<lparr>mr_offer = m, mr_decision = Some d, mr_release = None\<rparr> ErrInvalid"
proof -
  obtain m d l where r: "release_verify ex_crypto l m d = None" "json_year_ok (dc_at d)" using ex_run by metis
  let ?r = "\<lparr>mr_offer = m, mr_decision = Some d, mr_release = None\<rparr>" and ?d = "d\<lparr>dc_action := ''maybe''\<rparr>"
  have "?d \<noteq> d" using release_verified(2) [OF r(1)] by (cases d) auto
  moreover have "decision_verify ex_crypto ?d m \<noteq> None" using decision_verified(3) [of ex_crypto ?d m] by auto
  ultimately have "apply_decision ex_crypto ?r ?d ex_hour = fail ?r ErrInvalid"
    using first_decision_stands [of ?r d ex_crypto ?d ex_hour] r release_verified(1) [OF r(1)] by auto
  then show ?thesis by blast
qed

end
