(* ===== verification/Trade.thy ===== *)
theory Trade
  imports Message_Laws
begin

text \<open>
  Trades over sealed messages, \<open>internal/message/trade_protocol.go\<close>: each message of a trade is an operation that
  names the one it answers by the hash of its signed offer, and commits to encrypted terms. The lemmas show
  what a chain of accepted successors is: one of the legal sequences of operations, taken in turns by the
  same two parties, whose last offer determines the whole history. A link fixes the terms it commits to, up to
  bytes that are no valid UTF-8: JSON writes all of them alike and \<open>Validate\<close> lets them pass.
\<close>

subsection \<open>Payloads and successors\<close>

definition obligation_bad :: "obligation \<Rightarrow> bool" where
  "obligation_bad b \<longleftrightarrow> ob_description b = [] \<or> sint (ob_units b) < 0 \<or> sint (ob_budget b) < 0"

definition payload_validate :: "trade_payload \<Rightarrow> trade_link \<Rightarrow> go_error option" where
  "payload_validate p l =
    (if tp_version p \<noteq> 1 \<or> length (tp_salt p) \<noteq> 32 \<or> tp_trade_id p \<noteq> tl_id l \<or> tp_action p \<noteq> tl_action l \<or>
        tp_parent p \<noteq> tl_parent l \<or> payload_commitment p \<noteq> tl_commitment l then Some ErrInvalid
     else if 64 < length (tp_obligations p) then Some ErrInvalid
     else if list_ex obligation_bad (tp_obligations p) then Some ErrInvalid
     else if tp_action p = ''settle'' \<and> tp_settlement p = []
       then Some (Errorf ''message: settlement evidence reference required'' [])
     else trade_validate l)"

text \<open>The operations that may answer an operation.\<close>

definition allowed_actions :: "string \<Rightarrow> string list" where
  "allowed_actions a =
    (if a = ''request'' then [''offer'', ''reject'']
     else if a = ''offer'' then [''counteroffer'', ''accept'', ''reject'']
     else if a = ''counteroffer'' then [''counteroffer'', ''accept'', ''reject'']
     else if a = ''accept'' then [''fulfill'']
     else if a = ''fulfill'' then [''settle'']
     else [])"

definition validate_trade_successor :: "msg_record \<Rightarrow> offer \<Rightarrow> go_error option" where
  "validate_trade_successor parent child =
    (let pt = ofr_terms (mr_offer parent); ct = ofr_terms child in
     case te_trade pt of
       None \<Rightarrow> Some ErrState
     | Some p \<Rightarrow> (case te_trade ct of
         None \<Rightarrow> Some ErrState
       | Some c \<Rightarrow>
           if tl_id c \<noteq> tl_id p \<or> tl_parent c \<noteq> offer_hash (mr_offer parent) \<or> te_reply_to ct \<noteq> te_id pt \<or>
              te_conversation ct \<noteq> te_conversation pt \<or> public_id (te_sender ct) \<noteq> public_id (te_recipient pt) \<or>
              public_id (te_recipient ct) \<noteq> public_id (te_sender pt) \<or> mr_release parent = None then Some ErrState
           else if tl_action c \<in> set (allowed_actions (tl_action p)) then None
           else Some ErrState))"

subsection \<open>Chains of operations\<close>

definition trade_action :: "msg_record \<Rightarrow> string" where
  "trade_action r = (case te_trade (ofr_terms (mr_offer r)) of None \<Rightarrow> [] | Some l \<Rightarrow> tl_action l)"

text \<open>The messages of a trade, newest first: every offer verifies, every message was accepted as the
  successor of the one before, and the first is a request.\<close>

fun trade_chain :: "crypto \<Rightarrow> msg_record list \<Rightarrow> bool" where
  "trade_chain C [] = False"
| "trade_chain C [r] = (offer_verify C (mr_offer r) = None \<and> trade_action r = ''request'')"
| "trade_chain C (c # r # rs) =
    (offer_verify C (mr_offer c) = None \<and> validate_trade_successor r (mr_offer c) = None \<and> trade_chain C (r # rs))"

lemma successorE:
  assumes "validate_trade_successor r m = None"
  obtains p c where "te_trade (ofr_terms (mr_offer r)) = Some p" "te_trade (ofr_terms m) = Some c" "tl_id c = tl_id p"
    "tl_parent c = offer_hash (mr_offer r)" "te_reply_to (ofr_terms m) = te_id (ofr_terms (mr_offer r))"
    "te_conversation (ofr_terms m) = te_conversation (ofr_terms (mr_offer r))"
    "public_id (te_sender (ofr_terms m)) = public_id (te_recipient (ofr_terms (mr_offer r)))"
    "public_id (te_recipient (ofr_terms m)) = public_id (te_sender (ofr_terms (mr_offer r)))"
    "mr_release r \<noteq> None" "tl_action c \<in> set (allowed_actions (tl_action p))"
  using assms by (auto simp: validate_trade_successor_def Let_def split: option.splits if_splits)

lemma successor_action:
  "validate_trade_successor r (mr_offer c) = None \<Longrightarrow> trade_action c \<in> set (allowed_actions (trade_action r))"
  by (elim successorE) (simp add: trade_action_def)

lemma chain_actions: "trade_chain C rs \<Longrightarrow> successively (\<lambda>a b. a \<in> set (allowed_actions b)) (map trade_action rs)"
  by (induction C rs rule: trade_chain.induct) (auto dest: successor_action)

subsection \<open>The legal sequences\<close>

text \<open>The operations in order: a request, an offer, any number of counteroffers, and an end.\<close>

definition trade_words :: "string list set" where
  "trade_words = {take n (''request'' # ''offer'' # replicate k ''counteroffer'' @ end') | n k end'.
     end' \<in> {[''accept'', ''fulfill'', ''settle''], [''reject'']}} \<union> {[''request'', ''reject'']}"

lemma take_request: "take (Suc n) (''request'' # xs) = ''request'' # take n xs"
  by simp

lemma counter_word:
  assumes "successively (\<lambda>a b. b \<in> set (allowed_actions a)) (a # as)" "a = ''offer'' \<or> a = ''counteroffer''"
  shows "\<exists>n k e. e \<in> {[''accept'', ''fulfill'', ''settle''], [''reject'']} \<and> as = take n (replicate k ''counteroffer'' @ e)"
  using assms
proof (induction as arbitrary: a)
  case Nil
  show ?case by (intro exI [of _ 0] exI [of _ 0] exI [of _ "[''reject'']"]) simp
next
  case (Cons b bs)
  let ?S = "successively (\<lambda>a b. b \<in> set (allowed_actions a))"
  have s: "?S (b # bs)" "b \<in> {''counteroffer'', ''accept'', ''reject''}"
    using Cons.prems by (auto simp: allowed_actions_def)
  consider (counter) "b = ''counteroffer''" | (accept) "b = ''accept''" | (reject) "b = ''reject''" using s(2) by blast
  then show ?case
  proof cases
    case counter
    from Cons.IH [OF s(1)] counter obtain n k e where
      e: "e \<in> {[''accept'', ''fulfill'', ''settle''], [''reject'']}" "bs = take n (replicate k ''counteroffer'' @ e)" by blast
    then have "b # bs = take (Suc n) (replicate (Suc k) ''counteroffer'' @ e)" using counter by simp
    with e(1) show ?thesis by blast
  next
    case reject
    then have "bs = []" using s(1) by (cases bs) (simp_all add: allowed_actions_def)
    then show ?thesis using reject by (intro exI [of _ 1] exI [of _ 0] exI [of _ "[''reject'']"]) simp
  next
    case accept
    have "b # bs = take (Suc (length bs)) [''accept'', ''fulfill'', ''settle'']"
    proof (cases bs)
      case (Cons c cs)
      then have c: "c = ''fulfill''" "?S (c # cs)" using accept s(1) by (auto simp: allowed_actions_def)
      show ?thesis
      proof (cases cs)
        case D: (Cons d ds)
        then have "d = ''settle''" "?S (d # ds)" using c by (auto simp: allowed_actions_def)
        then have "ds = []" by (cases ds) (simp_all add: allowed_actions_def)
        then show ?thesis using accept Cons c D \<open>d = ''settle''\<close> by simp
      qed (use accept Cons c in simp)
    qed (use accept in simp)
    then have "b # bs = take (Suc (length bs)) (replicate 0 ''counteroffer'' @ [''accept'', ''fulfill'', ''settle''])" by simp
    then show ?thesis by blast
  qed
qed

lemma request_word:
  assumes "successively (\<lambda>a b. b \<in> set (allowed_actions a)) (''request'' # as)"
  shows "''request'' # as \<in> trade_words"
proof (cases as)
  case Nil
  have "[''request''] = take 1 (''request'' # ''offer'' # replicate 0 ''counteroffer'' @ [''reject''])" by simp
  then show ?thesis using Nil unfolding trade_words_def by blast
next
  case (Cons b bs)
  then consider "b = ''offer''" | "b = ''reject''" using assms by (auto simp: allowed_actions_def)
  then show ?thesis
  proof cases
    case 1
    with Cons assms obtain n k e where e: "e \<in> {[''accept'', ''fulfill'', ''settle''], [''reject'']}"
      "bs = take n (replicate k ''counteroffer'' @ e)"
      using counter_word [of b bs] by auto
    then have "''request'' # as = take (Suc (Suc n)) (''request'' # ''offer'' # replicate k ''counteroffer'' @ e)"
      using 1 Cons by simp
    with e(1) show ?thesis unfolding trade_words_def by blast
  next
    case 2
    then have "bs = []" using Cons assms by (cases bs) (simp_all add: allowed_actions_def)
    then show ?thesis using 2 Cons by (simp add: trade_words_def)
  qed
qed

lemma chain_first: "trade_chain C rs \<Longrightarrow> rs \<noteq> [] \<and> trade_action (last rs) = ''request''"
  by (induction C rs rule: trade_chain.induct) auto

lemma chain_word:
  assumes "trade_chain C rs"
  shows "map trade_action (rev rs) \<in> trade_words"
proof -
  have "successively (\<lambda>a b. b \<in> set (allowed_actions a)) (map trade_action (rev rs))"
    using chain_actions [OF assms] by (simp only: rev_map [symmetric] successively_rev)
  moreover have "hd (map trade_action (rev rs)) = ''request''" "map trade_action (rev rs) \<noteq> []"
    using chain_first [OF assms] by (simp_all add: hd_map hd_rev)
  ultimately show ?thesis by (metis list.collapse request_word)
qed

text \<open>The two parties take turns.\<close>

definition sender_id :: "msg_record \<Rightarrow> string" where
  "sender_id r = public_id (te_sender (ofr_terms (mr_offer r)))"

definition recipient_id :: "msg_record \<Rightarrow> string" where
  "recipient_id r = public_id (te_recipient (ofr_terms (mr_offer r)))"

lemma offer_parties_differ: "offer_verify C (mr_offer r) = None \<Longrightarrow> sender_id r \<noteq> recipient_id r"
  by (auto simp: offer_verify_def Let_def sender_id_def recipient_id_def split: if_splits)

lemma chain_turns:
  assumes "trade_chain C rs" "i < length rs"
  shows "sender_id (rev rs ! i) = (if even i then sender_id (last rs) else recipient_id (last rs)) \<and>
    recipient_id (rev rs ! i) = (if even i then recipient_id (last rs) else sender_id (last rs)) \<and>
    te_conversation (ofr_terms (mr_offer (rev rs ! i))) = te_conversation (ofr_terms (mr_offer (last rs))) \<and>
    map_option tl_id (te_trade (ofr_terms (mr_offer (rev rs ! i)))) = map_option tl_id (te_trade (ofr_terms (mr_offer (last rs)))) \<and>
    (Suc i < length rs \<longrightarrow> mr_release (rev rs ! i) \<noteq> None)"
  using assms
proof (induction C rs arbitrary: i rule: trade_chain.induct)
  case (3 C c r rs)
  let ?n = "length (r # rs)"
  from "3.prems" have s: "validate_trade_successor r (mr_offer c) = None" and t: "trade_chain C (r # rs)" by simp_all
  have r: "rev (r # rs) ! length rs = r" by (simp add: nth_append)
  have old: "rev (c # r # rs) ! k = rev (r # rs) ! k" if "k < ?n" for k using that by (simp add: nth_append)
  have new: "rev (c # r # rs) ! ?n = c" using nth_append_length [of "rev (r # rs)" c "[]"] by simp
  have l: "last (c # r # rs) = last (r # rs)" by simp
  show ?case
  proof (cases "i = ?n")
    case True
    note top = "3.IH" [OF t, of "length rs", unfolded r]
    show ?thesis
      unfolding True new l using top s by (elim successorE) (auto simp: sender_id_def recipient_id_def)
  next
    case False
    then have i: "i < ?n" using "3.prems"(2) by simp
    have "mr_release (rev (r # rs) ! i) \<noteq> None"
    proof (cases "Suc i < ?n")
      case False
      then have "i = length rs" using i by simp
      then show ?thesis using s r by (auto elim: successorE)
    qed (use "3.IH" [OF t i] in blast)
    then show ?thesis unfolding old [OF i] l using "3.IH" [OF t i] by blast
  qed
qed simp_all

text \<open>Times that JSON can print.\<close>

definition printable :: "msg_record \<Rightarrow> bool" where
  "printable r \<longleftrightarrow> json_year_ok (te_created (ofr_terms (mr_offer r))) \<and> json_year_ok (te_expires (ofr_terms (mr_offer r)))"

text \<open>A trade of two messages between the example identities: a request, and the offer that answers it.\<close>

definition ex_link :: "string \<Rightarrow> string \<Rightarrow> trade_link" where
  "ex_link action parent =
    \<lparr>tl_id = hex_encode (replicate 32 0), tl_action = action, tl_parent = parent, tl_commitment = hex_encode (replicate 32 0)\<rparr>"

lemma ex_trade:
  obtains r0 r1 where "trade_chain ex_crypto [r1, r0]" "printable r0" "printable r1"
    "trade_action r0 = ''request''" "trade_action r1 = ''offer''"
proof -
  have s: "length ([] :: bytes) \<le> MaxText" "length ([] :: string) \<le> MaxInvitation" by simp_all
  have r: "length (replicate 32 0 :: bytes) = 32" "length (replicate 12 0 :: bytes) = 12" by simp_all
  have t: "ex_hour \<noteq> 0" "ex_hour \<le> ex_hour" "ex_hour < 2 * ex_hour" "ex_hour < 2 * ex_hour" "ex_hour \<le> ex_hour + minute"
    using ex_years(3) by (simp_all add: minute_def second_def)
  let ?x = "ex_options\<lparr>so_trade := Some (ex_link ''request'' [])\<rparr>"
  have x: "options_ok ?x"
    by (simp add: options_ok_def ex_options_def supported_key_suite_def trade_validate_def ex_link_def)
  from honest_run [OF ex_crypto_ok ex_public ex_ids s(1) ex_text(1) s(2) ex_text(2) t x r(1, 1, 2, 1, 2)]
  obtain m d l where m: "offer_verify ex_crypto m = None" "release_verify ex_crypto l m d = None"
    "ofr_terms m = seal_terms ex_alice_pub ex_bob_pub [] ex_hour (2 * ex_hour) ?x (hex_encode (replicate 32 0))" by metis
  let ?r0 = "\<lparr>mr_offer = m, mr_decision = Some d, mr_release = Some l\<rparr>"
  let ?y = "\<lparr>so_key_suite = [], so_conversation = hex_encode (replicate 32 0), so_reply_to = hex_encode (replicate 32 0),
    so_trade = Some (ex_link ''offer'' (offer_hash m))\<rparr>"
  have y: "options_ok ?y"
    by (simp add: options_ok_def supported_key_suite_def trade_validate_def ex_link_def offer_hash_def digest_def)
  from seal_ok [OF ex_crypto_ok ex_public(2) ex_valid(1) ex_ids [symmetric] s(1) ex_text(1) s(2) ex_text(2) t(1, 3) y r(1, 1, 2)]
  obtain n where n: "offer_verify ex_crypto n = None"
    "ofr_terms n = seal_terms ex_bob_pub ex_alice_pub [] ex_hour (2 * ex_hour) ?y (hex_encode (replicate 32 0))" by metis
  let ?r1 = "\<lparr>mr_offer = n, mr_decision = None, mr_release = None\<rparr>"
  have "hex_encode (replicate 32 0) \<noteq> []" using length_hex_encode [of "replicate 32 0"] by (auto simp del: length_hex_encode)
  then have "validate_trade_successor ?r0 n = None"
    using m(3) n(2) by (simp add: validate_trade_successor_def Let_def seal_terms_def ex_link_def ex_options_def allowed_actions_def)
  moreover have "trade_action ?r0 = ''request''" "trade_action ?r1 = ''offer''"
    using m(3) n(2) by (simp_all add: trade_action_def seal_terms_def ex_link_def)
  moreover have "printable ?r0" "printable ?r1"
    using m(3) n(2) ex_years by (simp_all add: printable_def seal_terms_def)
  ultimately show ?thesis using that [of ?r1 ?r0] m(1) n(1) by simp
qed

text \<open>
  C16. A trade is one of the legal sequences, taken in turns: for every chain of accepted successors from a request, the
  operations are a request followed by a rejection, or a request, an offer and counteroffers that end in a rejection or
  in acceptance, fulfilment and settlement, or a prefix of that; the messages at even positions come from the requester
  and the others from its peer, always to the other one; all carry the same trade and conversation; and every message but
  the last has been released to its recipient.
\<close>

theorem trade_follows_protocol:
  assumes "trade_chain C rs"
  shows "map trade_action (rev rs) \<in> trade_words \<and> sender_id (last rs) \<noteq> recipient_id (last rs) \<and>
    (\<forall>i < length rs. sender_id (rev rs ! i) = (if even i then sender_id (last rs) else recipient_id (last rs)) \<and>
      recipient_id (rev rs ! i) = (if even i then recipient_id (last rs) else sender_id (last rs)) \<and>
      te_conversation (ofr_terms (mr_offer (rev rs ! i))) = te_conversation (ofr_terms (mr_offer (last rs))) \<and>
      map_option tl_id (te_trade (ofr_terms (mr_offer (rev rs ! i)))) = map_option tl_id (te_trade (ofr_terms (mr_offer (last rs)))) \<and>
      (Suc i < length rs \<longrightarrow> mr_release (rev rs ! i) \<noteq> None))"
proof -
  have "offer_verify C (mr_offer (last rs)) = None"
    using assms by (induction C rs rule: trade_chain.induct) auto
  then show ?thesis
    using chain_word [OF assms] chain_turns [OF assms] offer_parties_differ by blast
qed

theorem trade_follows_protocol_witness:
  "\<exists>r0 r1. trade_chain ex_crypto [r1, r0] \<and> [trade_action r0, trade_action r1] \<in> trade_words \<and> sender_id r1 = recipient_id r0 \<and>
    mr_release r0 \<noteq> None"
proof -
  obtain r0 r1 where c: "trade_chain ex_crypto [r1, r0]" using ex_trade by metis
  from trade_follows_protocol [OF c] have "[trade_action r0, trade_action r1] \<in> trade_words" "sender_id r1 = recipient_id r0"
    "mr_release r0 \<noteq> None"
    by (auto dest: spec [of _ "0 :: nat"] spec [of _ "1 :: nat"])
  with c show ?thesis by blast
qed

subsection \<open>The last offer determines the history\<close>

definition unsigned_offers :: "msg_record list \<Rightarrow> offer list" where
  "unsigned_offers rs = map (\<lambda>r. offer_unsigned (mr_offer r)) rs"

definition offer_inputs :: "msg_record list \<Rightarrow> bytes list" where
  "offer_inputs rs = map (\<lambda>r. wire ''offer'' (offer_json (offer_unsigned (mr_offer r)))) rs"

lemma offer_hash_binds:
  assumes "offer_hash (mr_offer r) = offer_hash (mr_offer s)" "offer_verify C (mr_offer r) = None" "offer_verify C (mr_offer s) = None"
    and "printable r" "printable s"
  shows "offer_unsigned (mr_offer r) = offer_unsigned (mr_offer s) \<or> collide sha256 (offer_inputs [r]) (offer_inputs [s])"
  using digest_binds [OF assms(1) [unfolded offer_hash_def]] offer_json_inj [of "offer_unsigned (mr_offer r)" "offer_unsigned (mr_offer s)"]
    offer_verify_clean [OF assms(2)] offer_verify_clean [OF assms(3)] assms(4, 5)
  by (auto simp: offer_inputs_def printable_def offer_unsigned_def)

lemma same_offer_terms: "offer_unsigned m = offer_unsigned n \<Longrightarrow> ofr_terms m = ofr_terms n"
  by (metis offer.select_convs(1) offer.surjective offer.update_convs(3) offer_unsigned_def)

lemma chain_head_verified: "trade_chain C (r # rs) \<Longrightarrow> offer_verify C (mr_offer r) = None"
  by (cases rs) auto

lemma request_answers_nothing: "''request'' \<notin> set (allowed_actions a)"
  by (simp add: allowed_actions_def)

lemma request_alone:
  assumes "trade_chain C (r # rs)"
  shows "trade_action r = ''request'' \<longleftrightarrow> rs = []"
proof (cases rs)
  case Nil
  then show ?thesis using assms by simp
next
  case (Cons s ss)
  then have "trade_action r \<in> set (allowed_actions (trade_action s))" using assms successor_action by simp
  then have "trade_action r \<noteq> ''request''" using request_answers_nothing [of "trade_action s"] by (intro notI) (simp only:)
  then show ?thesis using Cons by simp
qed

lemma history_binds:
  assumes "trade_chain C rs" "trade_chain C ss" "\<forall>r \<in> set (rs @ ss). printable r"
    and "offer_unsigned (mr_offer (hd rs)) = offer_unsigned (mr_offer (hd ss))"
  shows "unsigned_offers rs = unsigned_offers ss \<or> collide sha256 (offer_inputs rs) (offer_inputs ss)"
  using assms
proof (induction rs arbitrary: ss)
  case (Cons r rs)
  obtain s ss' where ss: "ss = s # ss'" using Cons.prems(2) by (cases ss) auto
  have terms: "ofr_terms (mr_offer r) = ofr_terms (mr_offer s)" 
    using Cons.prems(4) ss by (intro same_offer_terms) simp
  then have act: "trade_action r = trade_action s" by (simp add: trade_action_def)
  then have empty: "rs = [] \<longleftrightarrow> ss' = []"
    using request_alone [OF Cons.prems(1)] request_alone [OF Cons.prems(2) [unfolded ss]] by simp
  show ?case
  proof (cases "rs = []")
    case True
    then show ?thesis using empty ss Cons.prems(4) by (simp add: unsigned_offers_def)
  next
    case False
    then obtain p ps q qs where parts: "rs = p # ps" "ss' = q # qs" using empty by (metis list.exhaust)
    have c: "trade_chain C rs" "trade_chain C ss'" "validate_trade_successor p (mr_offer r) = None"
      "validate_trade_successor q (mr_offer s) = None"
      using Cons.prems(1, 2) ss parts by simp_all
    have "offer_hash (mr_offer p) = offer_hash (mr_offer q)"
      using c(3, 4) terms by (elim successorE) simp
    moreover have "offer_verify C (mr_offer p) = None" "offer_verify C (mr_offer q) = None"
      using c(1, 2) parts chain_head_verified by blast+
    moreover have "printable p" "printable q" using Cons.prems(3) ss parts by auto
    ultimately consider "offer_unsigned (mr_offer p) = offer_unsigned (mr_offer q)"
      | "collide sha256 (offer_inputs [p]) (offer_inputs [q])"
      using offer_hash_binds by blast
    then show ?thesis
    proof cases
      case 1
      with Cons.IH [OF c(1, 2)] parts Cons.prems(3) ss
      have "unsigned_offers rs = unsigned_offers ss' \<or> collide sha256 (offer_inputs rs) (offer_inputs ss')" by auto
      then show ?thesis
        using Cons.prems(4) ss by (auto simp: unsigned_offers_def collide_iff offer_inputs_def)
    next
      case 2
      then show ?thesis using parts ss by (auto simp: collide_iff offer_inputs_def)
    qed
  qed
qed simp

text \<open>
  C23. The last operation of a trade determines its history: if two chains of verified operations end in the same offer,
  they have the same length and the same offers at every step, in every field but the signatures, or two different offers
  with one SHA-256 value are among them.
\<close>

theorem trade_history_binds:
  assumes "trade_chain C rs" "trade_chain C ss" "\<forall>r \<in> set (rs @ ss). printable r"
    and "offer_unsigned (mr_offer (hd rs)) = offer_unsigned (mr_offer (hd ss))"
  shows "unsigned_offers rs = unsigned_offers ss \<or> collide sha256 (offer_inputs rs) (offer_inputs ss)"
  by (rule history_binds [OF assms])

text \<open>Two chains that end in one offer, of which one holds no decision on that offer and the other holds one.\<close>

theorem trade_history_binds_witness:
  "\<exists>r0 r1 d. let rs = [r1\<lparr>mr_decision := None\<rparr>, r0]; ss = [r1\<lparr>mr_decision := Some d\<rparr>, r0] in
    rs \<noteq> ss \<and> trade_chain ex_crypto rs \<and> trade_chain ex_crypto ss \<and>
    (unsigned_offers rs = unsigned_offers ss \<or> collide sha256 (offer_inputs rs) (offer_inputs ss))"
proof -
  obtain r0 r1 where c: "trade_chain ex_crypto [r1, r0]" "printable r0" "printable r1" using ex_trade by metis
  fix d
  define rs ss where "rs = [r1\<lparr>mr_decision := None\<rparr>, r0]" and "ss = [r1\<lparr>mr_decision := Some d\<rparr>, r0]"
  have "trade_chain ex_crypto rs" "trade_chain ex_crypto ss" "\<forall>r \<in> set (rs @ ss). printable r"
      "offer_unsigned (mr_offer (hd rs)) = offer_unsigned (mr_offer (hd ss))"
    using c by (simp_all add: rs_def ss_def printable_def)
  note binds = trade_history_binds [OF this] this(1, 2)
  have "r1\<lparr>mr_decision := None\<rparr> \<noteq> r1\<lparr>mr_decision := Some d\<rparr>"
    by (cases r1) simp
  with binds show ?thesis
    unfolding rs_def ss_def Let_def by (intro exI [of _ r0] exI [of _ r1] exI [of _ d]) simp
qed

subsection \<open>The commitment determines the terms\<close>

lemma opt_int_unique:
  assumes "opt_int key m @ x = opt_int key n @ y" "\<not> opens key x" "\<not> opens key y"
    and "x \<noteq> []" "\<not> is_digit (hd x)" "y \<noteq> []" "\<not> is_digit (hd y)"
  shows "m = n \<and> x = y"
proof -
  have o: "opens key (opt_int key k @ z)" if "k \<noteq> 0" for k z
    using that by (simp add: opens_def opt_int_def)
  show ?thesis
  proof (cases "m = 0"; cases "n = 0")
    assume "m \<noteq> 0" "n \<noteq> 0"
    then have "itoa (sint m) @ x = itoa (sint n) @ y" using assms(1) by (simp add: opt_int_def)
    then have "sint m = sint n \<and> x = y" using itoa_unique assms(5, 7) by blast
    then show ?thesis using signed_word_eqI by blast
  next
    assume "m = 0" "n \<noteq> 0"
    then have "opens key x" using assms(1) o [of n y] by (simp add: opt_int_def)
    then show ?thesis using assms(2) by simp
  next
    assume "m \<noteq> 0" "n = 0"
    then have "opens key y" using assms(1) o [of m x] by (simp add: opt_int_def)
    then show ?thesis using assms(3) by simp
  qed (use assms(1) in \<open>simp add: opt_int_def\<close>)
qed

text \<open>
  What the text of an obligation and of a payload says: every field, and of the free texts everything but the bytes that
  are no valid UTF-8 (\<open>same_text\<close>), which \<open>Validate\<close> lets pass and JSON writes all alike.
\<close>

definition same_obligation :: "obligation \<Rightarrow> obligation \<Rightarrow> bool" where
  "same_obligation a b \<longleftrightarrow> same_text (ob_description a) (ob_description b) \<and> ob_units a = ob_units b
     \<and> same_text (ob_unit a) (ob_unit b) \<and> ob_budget a = ob_budget b \<and> ob_deadline a = ob_deadline b"

definition same_payload :: "trade_payload \<Rightarrow> trade_payload \<Rightarrow> bool" where
  "same_payload p q \<longleftrightarrow> tp_version p = tp_version q \<and> tp_trade_id p = tp_trade_id q \<and> tp_action p = tp_action q
     \<and> tp_parent p = tp_parent q \<and> tp_salt p = tp_salt q \<and> same_text (tp_text p) (tp_text q)
     \<and> list_all2 same_obligation (tp_obligations p) (tp_obligations q) \<and> same_text (tp_settlement p) (tp_settlement q)"

definition payload_utf8 :: "trade_payload \<Rightarrow> bool" where
  "payload_utf8 p \<longleftrightarrow> utf8_valid (tp_text p) \<and> utf8_valid (tp_settlement p)
     \<and> (\<forall>b \<in> set (tp_obligations p). utf8_valid (ob_description b) \<and> utf8_valid (ob_unit b))"

lemma same_payload_valid:
  assumes "same_payload p q" "payload_utf8 p"
  shows "p = q"
proof -
  have "a = b" if "same_obligation a b" "a \<in> set (tp_obligations p)" for a b
  proof -
    have "ob_description a = ob_description b" "ob_unit a = ob_unit b"
      using that assms(2) same_text_valid unfolding same_obligation_def payload_utf8_def by blast+
    with that(1) show ?thesis
      by (auto simp: same_obligation_def intro: obligation.equality)
  qed
  with assms(1) have "list_all2 (=) (tp_obligations p) (tp_obligations q)"
    unfolding same_payload_def by (blast intro: list.rel_mono_strong)
  moreover have "tp_text p = tp_text q" "tp_settlement p = tp_settlement q"
    using assms same_text_valid unfolding same_payload_def payload_utf8_def by blast+
  ultimately show ?thesis
    using assms(1) by (auto simp: same_payload_def list.rel_eq intro: trade_payload.equality)
qed

lemma comma_not_digit: "\<not> is_digit CHR '',''"
  by (simp add: is_digit_def char_code_def)

lemma obligation_json_same:
  assumes "obligation_json a @ x = obligation_json b @ y" "json_year_ok (ob_deadline a)" "json_year_ok (ob_deadline b)"
  shows "same_obligation a b \<and> x = y"
proof -
  define e1 where \<open>e1 b x = '',"deadline":'' @ time_json (ob_deadline b) @ ''}'' @ x\<close> for b :: obligation and x
  define e2 where "e2 b x = opt_int ''budget'' (ob_budget b) @ e1 b x" for b :: obligation and x
  define e3 where "e3 b x = opt_field ''unit'' (ob_unit b) @ e2 b x" for b :: obligation and x
  have n: "\<not> opens ''budget'' (e1 b x)" "\<not> opens ''unit'' (e2 b x)" "\<not> opens ''units'' (e3 b x)" for b x
    by (simp_all add: opens_def e1_def e2_def e3_def opt_int_def opt_field_def)
  have h: "e1 b x \<noteq> []" "\<not> is_digit (hd (e1 b x))" "e3 b x \<noteq> []" "\<not> is_digit (hd (e3 b x))" for b x
    by (simp_all add: e1_def e2_def e3_def opt_int_def opt_field_def comma_not_digit)
  have "json_str (ob_description a) @ opt_int ''units'' (ob_units a) @ e3 a x =
      json_str (ob_description b) @ opt_int ''units'' (ob_units b) @ e3 b y"
    using assms(1) by (simp add: obligation_json_def e1_def e2_def e3_def)
  from json_str_same [OF this] have 1: "same_text (ob_description a) (ob_description b)"
    and e: "opt_int ''units'' (ob_units a) @ e3 a x = opt_int ''units'' (ob_units b) @ e3 b y" by auto
  from opt_int_unique [OF e n(3) n(3) h(3, 4) h(3, 4)] have 2: "ob_units a = ob_units b" and e: "e3 a x = e3 b y" by auto
  from opt_field_same [OF e [unfolded e3_def] n(2) n(2)] have 3: "same_text (ob_unit a) (ob_unit b)" and e: "e2 a x = e2 b y" by auto
  from opt_int_unique [OF e [unfolded e2_def] n(1) n(1) h(1, 2) h(1, 2)] have 4: "ob_budget a = ob_budget b" and e: "e1 a x = e1 b y" by auto
  from e time_json_unique [OF _ assms(2, 3)] have "ob_deadline a = ob_deadline b" "x = y" by (auto simp: e1_def)
  with 1 2 3 4 show ?thesis by (auto simp: same_obligation_def)
qed

lemma obligations_same:
  assumes "json_items (map obligation_json as) @ CHR '']'' # x = json_items (map obligation_json bs) @ CHR '']'' # y"
    and "\<forall>b \<in> set (as @ bs). json_year_ok (ob_deadline b)"
  shows "list_all2 same_obligation as bs \<and> x = y"
proof -
  have items: "json_items (map obligation_json (a # as)) = obligation_json a @
      (if as = [] then [] else CHR '','' # json_items (map obligation_json as))" for a as
    by (cases as) simp_all
  have brace: "json_items (map obligation_json (a # as)) @ z \<noteq> CHR '']'' # w" for a as z w
    unfolding items by (simp add: obligation_json_def)
  show ?thesis using assms
  proof (induction as arbitrary: bs)
    case Nil
    then show ?case using brace by (cases bs) (auto, metis)
  next
    case (Cons a as)
    show ?case
    proof (cases bs)
      case Nil
      then show ?thesis using Cons.prems(1) brace [of a as] by (metis append_Nil json_items.simps(1) list.simps(8))
    next
      case B: (Cons b bs')
      let ?r = "\<lambda>as x. (if as = [] then [] else CHR '','' # json_items (map obligation_json as)) @ CHR '']'' # x"
      have "obligation_json a @ ?r as x = obligation_json b @ ?r bs' y"
        using Cons.prems(1) unfolding B items by simp
      then have "same_obligation a b" and r: "?r as x = ?r bs' y"
        using obligation_json_same [of a "?r as x" b "?r bs' y"] Cons.prems(2) B by auto
      then show ?thesis using Cons.IH [of bs'] Cons.prems(2) B r by (auto split: if_splits)
    qed
  qed
qed

abbreviation dated :: "trade_payload \<Rightarrow> bool" where
  "dated p \<equiv> \<forall>b \<in> set (tp_obligations p). json_year_ok (ob_deadline b)"

text \<open>The trade, action and parent are those of one link in what follows, so their text needs no reading.\<close>

lemma payload_json_same:
  assumes "payload_json p = payload_json q" "dated p" "dated q"
    and "tp_trade_id p = tp_trade_id q" "tp_action p = tp_action q" "tp_parent p = tp_parent q"
  shows "same_payload p q"
proof -
  define e1 where \<open>e1 p = opt_field ''settlement_ref'' (tp_settlement p) @ ''}''\<close> for p :: trade_payload
  define e2 where \<open>e2 p = opt_obligations (tp_obligations p) @ e1 p\<close> for p :: trade_payload
  define e4 where \<open>e4 p = '',"trade_id":'' @ json_str (tp_trade_id p) @ '',"action":'' @ json_str (tp_action p) @
    opt_field ''parent'' (tp_parent p) @ '',"salt":'' @ bytes_json (tp_salt p) @ '',"text":'' @ json_str (tp_text p) @ e2 p\<close>
    for p :: trade_payload
  have nd: "e4 p = [] \<or> \<not> is_digit (hd (e4 p))" for p by (simp add: e4_def comma_not_digit)
  have "itoa (tp_version p) @ e4 p = itoa (tp_version q) @ e4 q"
    using assms(1) by (simp add: payload_json_def e1_def e2_def e4_def)
  from itoa_unique [OF this nd nd] have 1: "tp_version p = tp_version q" and "e4 p = e4 q" by auto
  then have 2: "tp_salt p = tp_salt q \<and> same_text (tp_text p) (tp_text q)" and e: "e2 p = e2 q"
    using assms(4-6) by (auto simp: e4_def dest!: json_str_same bytes_json_unique)
  have start: \<open>e1 p \<noteq> '',"obligations":['' @ z\<close> for p z by (simp add: e1_def opt_field_def)
  have 3: "list_all2 same_obligation (tp_obligations p) (tp_obligations q) \<and> e1 p = e1 q"
  proof (cases "tp_obligations p = []"; cases "tp_obligations q = []")
    assume "tp_obligations p \<noteq> []" "tp_obligations q \<noteq> []"
    then have "json_items (map obligation_json (tp_obligations p)) @ CHR '']'' # e1 p =
        json_items (map obligation_json (tp_obligations q)) @ CHR '']'' # e1 q"
      using e by (simp add: e2_def opt_obligations_def)
    then show ?thesis by (rule obligations_same) (use assms(2, 3) in auto)
  next
    assume "tp_obligations p \<noteq> []" "tp_obligations q = []"
    then show ?thesis using e start [of q] by (simp add: e2_def opt_obligations_def) metis
  next
    assume "tp_obligations p = []" "tp_obligations q \<noteq> []"
    then show ?thesis using e start [of p] by (simp add: e2_def opt_obligations_def) metis
  qed (use e in \<open>simp add: e2_def opt_obligations_def\<close>)
  have "\<not> opens ''settlement_ref'' ''}''" by (simp add: opens_def)
  then have "same_text (tp_settlement p) (tp_settlement q)"
    using opt_field_same [of "''settlement_ref''" "tp_settlement p" "''}''" "tp_settlement q" "''}''"] 3
    unfolding e1_def by blast
  with 1 2 3 assms(4-6) show ?thesis by (simp add: same_payload_def)
qed

text \<open>
  C24. A link commits to its terms: two payloads that validate against one trade link, with deadlines in the years that
  JSON can print (the code panics on others), agree in the version, the trade, the action, the parent, the salt, the number
  of obligations, their amounts, budgets and deadlines, and in every text up to bytes that are no valid UTF-8; so they are
  the same payload as soon as the texts of one of them are valid UTF-8, which \<open>Validate\<close> does not check. Otherwise two
  different texts with one SHA-256 value are at hand.
\<close>

theorem link_commits:
  assumes "payload_validate p l = None" "payload_validate q l = None" "dated p" "dated q"
  shows "same_payload p q \<and> (payload_utf8 p \<longrightarrow> p = q)
    \<or> collide sha256 [wire ''trade-terms'' (payload_json p)] [wire ''trade-terms'' (payload_json q)]"
proof -
  have eq: "payload_commitment p = payload_commitment q" "tp_trade_id p = tp_trade_id q" "tp_action p = tp_action q"
      "tp_parent p = tp_parent q"
    using assms(1, 2) by (auto simp: payload_validate_def split: if_splits)
  then have "payload_json p = payload_json q
      \<or> collide sha256 [wire ''trade-terms'' (payload_json p)] [wire ''trade-terms'' (payload_json q)]"
    using digest_binds [of "''trade-terms''" "payload_json p" "payload_json q"] by (simp add: payload_commitment_def)
  then show ?thesis
    using payload_json_same eq(2-4) assms(3, 4) same_payload_valid by blast
qed

definition ex_payload :: trade_payload where
  "ex_payload =
    \<lparr>tp_version = 1, tp_trade_id = hex_encode (replicate 32 0), tp_action = ''request'', tp_parent = [], tp_salt = replicate 32 7,
     tp_text = ''ten units'', tp_obligations = [\<lparr>ob_description = ''deliver'', ob_units = 10, ob_unit = [], ob_budget = 0, ob_deadline = ex_hour\<rparr>],
     tp_settlement = []\<rparr>"

lemma ex_payload_valid:
  "payload_validate (ex_payload\<lparr>tp_text := s\<rparr>) (ex_link ''request'' []\<lparr>tl_commitment := payload_commitment (ex_payload\<lparr>tp_text := s\<rparr>)\<rparr>) = None"
proof -
  have "valid_id (payload_commitment (ex_payload\<lparr>tp_text := s\<rparr>))" by (simp add: payload_commitment_def digest_def)
  then show ?thesis
    by (simp add: payload_validate_def ex_link_def trade_validate_def) (simp add: ex_payload_def obligation_bad_def)
qed

text \<open>Bytes that are no valid UTF-8 are not bound: two different payloads have one text, so one link fits both.\<close>

lemma bad_bytes_unbound:
  "ex_payload\<lparr>tp_text := [CHR 0xFF]\<rparr> \<noteq> ex_payload\<lparr>tp_text := [CHR 0xFE]\<rparr>
   \<and> payload_json (ex_payload\<lparr>tp_text := [CHR 0xFF]\<rparr>) = payload_json (ex_payload\<lparr>tp_text := [CHR 0xFE]\<rparr>)"
  by (simp add: payload_json_def same_text_bad ex_payload_def)

theorem link_commits_witness:
  "\<exists>p q l. p \<noteq> q \<and> payload_validate p l = None \<and> payload_validate q l = None \<and> same_payload p q \<and> \<not> payload_utf8 p"
proof -
  let ?p = "ex_payload\<lparr>tp_text := [CHR 0xFF]\<rparr>" and ?q = "ex_payload\<lparr>tp_text := [CHR 0xFE]\<rparr>"
  let ?l = "ex_link ''request'' []\<lparr>tl_commitment := payload_commitment ?p\<rparr>"
  have "payload_commitment ?q = payload_commitment ?p"
    using bad_bytes_unbound by (simp add: payload_commitment_def)
  then have v: "payload_validate ?p ?l = None" "payload_validate ?q ?l = None"
    using ex_payload_valid [of "[CHR 0xFF]"] ex_payload_valid [of "[CHR 0xFE]"] by simp_all
  moreover have "dated ?p" "dated ?q"
    using ex_years by (simp_all add: ex_payload_def)
  ultimately have "same_payload ?p ?q \<and> (payload_utf8 ?p \<longrightarrow> ?p = ?q)"
    using link_commits [OF v] bad_bytes_unbound by (auto simp: collide_iff)
  with v bad_bytes_unbound show ?thesis by blast
qed

end
