(* ===== verification/Nex_Contract.thy ===== *)
theory Nex_Contract
  imports Checkpoint Message_Crypto
begin

text \<open>
  The public contract of package \<open>nex\<close> (\<open>nex/contract.go\<close>, \<open>nex/identity.go\<close>): an agreement between two public
  identities that moves only on signed commands, each of which names the terms and the receipt it follows.
  The lemmas give, for every sequence of \<open>Apply\<close> calls, the log of the commands that were accepted and what
  the receipts and the state are in terms of it.
\<close>

subsection \<open>Hashes and signatures\<close>

text \<open>\<open>Hash\<close>, on the JSON text of its argument; a time outside the years 0 to 9999 makes \<open>json.Marshal\<close> fail and \<open>Hash\<close> panic.\<close>

definition nex_hash :: "string \<Rightarrow> string" where
  "nex_hash text = hex_encode (sha256 (bytes_of text))"

definition nex_signed :: "string \<Rightarrow> string \<Rightarrow> bytes" where
  "nex_signed domain text = bytes_of (''nex-example/v1/'' @ domain @ ''/'' @ nex_hash text)"

definition nex_sign :: "crypto \<Rightarrow> identity \<Rightarrow> string \<Rightarrow> string \<Rightarrow> bytes" where
  "nex_sign C i domain text = cr_ed_sign C (idn_signing i) (nex_signed domain text)"

definition nex_verify :: "crypto \<Rightarrow> public_key \<Rightarrow> string \<Rightarrow> string \<Rightarrow> bytes \<Rightarrow> go_error option" where
  "nex_verify C p domain text sig =
    (case public_validate C p of
       Some e \<Rightarrow> Some e
     | None \<Rightarrow> if \<not> cr_ed_verify C (pb_signing p) (nex_signed domain text) sig
              then Some (Errorf ''invalid signature'' []) else None)"

subsection \<open>State\<close>

record contract_terms =
  ct_kind :: string
  ct_buyer :: string
  ct_seller :: string
  ct_amount :: i64
  ct_spec :: string
  ct_created :: go_time
  ct_deadline :: go_time

record command =
  cmd_terms :: string
  cmd_head :: string
  cmd_action :: string
  cmd_evidence :: string

record contract =
  cn_agreement :: agreement
  cn_terms :: string
  cn_buyer :: public_key
  cn_seller :: public_key
  cn_agreed :: bool
  cn_definition :: contract_terms

text \<open>The JSON texts; the specification is embedded as \<open>json.Marshal\<close> wrote it.\<close>

definition terms_text :: "contract_terms \<Rightarrow> string" where
  \<open>terms_text t =
    ''{"Kind":'' @ json_str (ct_kind t) @ '',"Buyer":'' @ json_str (ct_buyer t) @ '',"Seller":'' @ json_str (ct_seller t) @
    '',"Amount":'' @ itoa (sint (ct_amount t)) @ '',"Spec":'' @ ct_spec t @ '',"Created":'' @ time_json (ct_created t) @
    '',"Deadline":'' @ time_json (ct_deadline t) @ ''}''\<close>

definition command_text :: "command \<Rightarrow> string" where
  \<open>command_text c =
    ''{"Terms":'' @ json_str (cmd_terms c) @ '',"Head":'' @ json_str (cmd_head c) @
    '',"Action":'' @ json_str (cmd_action c) @ '',"Evidence":'' @ json_str (cmd_evidence c) @ ''}''\<close>

subsection \<open>Opening\<close>

text \<open>
  \<open>New\<close>: \<open>spec\<close> is what \<open>json.Marshal\<close> made of the specification, \<open>ds\<close> the primes that the key generator of the
  sealed path draws; \<open>None\<close> while it is still running.
\<close>

definition contract_new ::
  "crypto \<Rightarrow> string \<Rightarrow> public_key \<Rightarrow> public_key \<Rightarrow> i64 \<Rightarrow> go_error + string \<Rightarrow> go_time \<Rightarrow> go_time \<Rightarrow>
   (int option \<times> int option) list \<Rightarrow> (go_error + contract) option" where
  "contract_new C kind buyer seller amount spec now deadline ds =
    (case public_validate C buyer of Some e \<Rightarrow> Some (Inl e) | None \<Rightarrow>
     case public_validate C seller of Some e \<Rightarrow> Some (Inl e) | None \<Rightarrow>
     case spec of Inl e \<Rightarrow> Some (Inl (Wrapf ''contract specification: %w'' [] e)) | Inr raw \<Rightarrow>
     let d = \<lparr>ct_kind = kind, ct_buyer = public_id buyer, ct_seller = public_id seller, ct_amount = amount, ct_spec = raw,
              ct_created = now, ct_deadline = deadline\<rparr>;
         cid = nex_hash (terms_text d)
     in case open_agreement cid kind (public_id buyer) (public_id seller) amount
           \<lparr>mt_cost_usd = 0, mt_effort = [], mt_budget_usd = 0, mt_max_steps = 128\<rparr> now of
          Inl e \<Rightarrow> Some (Inl e)
        | Inr a \<Rightarrow>
            (case set_deadline a (ag_buyer a) deadline now of
               (a, Some e) \<Rightarrow> Some (Inl e)
             | (a, None) \<Rightarrow>
                 (case start_sealed a ds of
                    None \<Rightarrow> None
                  | Some (a, Some e) \<Rightarrow> Some (Inl e)
                  | Some (a, None) \<Rightarrow>
                      Some (Inr \<lparr>cn_agreement = a, cn_terms = cid, cn_buyer = buyer, cn_seller = seller,
                                 cn_agreed = False, cn_definition = d\<rparr>))))"

subsection \<open>Commands\<close>

definition contract_head :: "contract \<Rightarrow> string" where
  "contract_head c = r_hash (last (ag_receipts (cn_agreement c)))"

definition contract_status :: "contract \<Rightarrow> status" where
  "contract_status c = ag_status (cn_agreement c)"

definition new_command :: "contract \<Rightarrow> string \<Rightarrow> string \<Rightarrow> command" where
  "new_command c action evidence =
    \<lparr>cmd_terms = cn_terms c, cmd_head = contract_head c, cmd_action = action, cmd_evidence = evidence\<rparr>"

definition contract_signer :: "contract \<Rightarrow> string \<Rightarrow> public_key" where
  "contract_signer c action = (if action = ''agree'' \<or> action = ''reject'' then cn_seller c else cn_buyer c)"

text \<open>The agreement is changed in place, so its outcome is the contract's.\<close>

definition on_agreement :: "contract \<Rightarrow> agreement outcome \<Rightarrow> contract outcome" where
  "on_agreement c out = (c\<lparr>cn_agreement := fst out\<rparr>, snd out)"

definition apply_verified ::
  "proof_decoder \<Rightarrow> randomness \<Rightarrow> contract \<Rightarrow> command \<Rightarrow> bytes \<Rightarrow> go_time \<Rightarrow> contract outcome" where
  "apply_verified dec rnd c cmd sig now =
    (let a = cn_agreement c in
     if cmd_terms cmd \<noteq> cn_terms c \<or> cmd_head cmd \<noteq> contract_head c then fail c (Errorf ''stale or foreign command'' [])
     else if cmd_action cmd = ''expire'' then on_agreement c (ag_expire a (ag_buyer a) now)
     else if now < ag_created_at a \<or> \<not> now < ag_deadline a then fail c (Errorf ''outside agreement time window'' [])
     else if cmd_action cmd = ''lock'' then
       (if ag_status a \<noteq> StatusOpen then fail c (Errorf ''already locked'' [])
        else on_agreement c (ag_apply dec rnd a \<lparr>mv_actor = ag_buyer a, mv_action = ''seal'', mv_partial = ag_amount a\<rparr> now))
     else if cmd_action cmd = ''agree'' then
       (if ag_status a \<noteq> StatusLocked \<or> cn_agreed c then fail c (Errorf ''cannot agree'' [])
        else and_then (on_agreement c (ag_note a (ag_seller a) ''evidence'' (''signed-consent:'' @ nex_hash (bytes_json sig)) now))
          (\<lambda>c. ok (c\<lparr>cn_agreed := True\<rparr>)))
     else if cmd_action cmd = ''settle'' then
       (if \<not> cn_agreed c \<or> cmd_evidence cmd = [] \<or> ag_status a \<noteq> StatusLocked
        then fail c (Errorf ''consent and verified evidence required'' [])
        else on_agreement c (accept_with_evidence dec rnd a (ag_buyer a) (ag_seller a) (cmd_evidence cmd) now))
     else if cmd_action cmd = ''reject'' then
       on_agreement c (ag_apply dec rnd a \<lparr>mv_actor = ag_seller a, mv_action = ''reject'', mv_partial = 0\<rparr> now)
     else fail c (Errorf ''unknown command %q'' [cmd_action cmd]))"

definition contract_apply ::
  "crypto \<Rightarrow> proof_decoder \<Rightarrow> randomness \<Rightarrow> contract \<Rightarrow> command \<Rightarrow> bytes \<Rightarrow> go_time \<Rightarrow> contract outcome" where
  "contract_apply C dec rnd c cmd sig now =
    (case nex_verify C (contract_signer c (cmd_action cmd)) ''contract'' (command_text cmd) sig of
       Some e \<Rightarrow> fail c e
     | None \<Rightarrow> apply_verified dec rnd c cmd sig now)"

definition contract_execute ::
  "crypto \<Rightarrow> proof_decoder \<Rightarrow> randomness \<Rightarrow> contract \<Rightarrow> identity \<Rightarrow> string \<Rightarrow> string \<Rightarrow> go_time \<Rightarrow> contract outcome" where
  "contract_execute C dec rnd c i action evidence now =
    (let cmd = new_command c action evidence
     in contract_apply C dec rnd c cmd (nex_sign C i ''contract'' (command_text cmd)) now)"

subsection \<open>The log of accepted commands\<close>

text \<open>A command that was accepted: with its signature, and the head and status it left.\<close>

record entry =
  en_command :: command
  en_signature :: bytes
  en_head :: string
  en_status :: status

text \<open>
  \<open>tale b s es rs st consent\<close>: the commands \<open>es\<close>, accepted one after the other, account for the receipts \<open>rs\<close> of a
  contract between \<open>b\<close> and \<open>s\<close>, and leave it in the status with the consent flag. Every command names the hash of
  the receipt it follows.
\<close>

definition follows :: "entry \<Rightarrow> receipt list \<Rightarrow> string \<Rightarrow> receipt list \<Rightarrow> status \<Rightarrow> bool" where
  "follows e rs action rs' st \<longleftrightarrow> cmd_action (en_command e) = action \<and> cmd_head (en_command e) = r_hash (last rs) \<and>
    en_head e = r_hash (last rs') \<and> en_status e = st"

inductive tale :: "party \<Rightarrow> party \<Rightarrow> entry list \<Rightarrow> receipt list \<Rightarrow> status \<Rightarrow> bool \<Rightarrow> bool" for b s where
  start: "r_action r0 = ''open'' \<Longrightarrow> r_action r1 = ''deadline'' \<Longrightarrow> tale b s [] [r0, r1] StatusOpen False"
| lock: "tale b s es rs StatusOpen g \<Longrightarrow> r_action r = ''seal'' \<Longrightarrow> r_actor r = b \<Longrightarrow>
    follows e rs ''lock'' [r] StatusLocked \<Longrightarrow> tale b s (es @ [e]) (rs @ [r]) StatusLocked g"
| agree: "tale b s es rs StatusLocked False \<Longrightarrow> r_action r = ''evidence'' \<Longrightarrow> r_actor r = s \<Longrightarrow>
    r_note r = ''signed-consent:'' @ nex_hash (bytes_json (en_signature e)) \<Longrightarrow>
    follows e rs ''agree'' [r] StatusLocked \<Longrightarrow> tale b s (es @ [e]) (rs @ [r]) StatusLocked True"
| settle: "tale b s es rs StatusLocked True \<Longrightarrow> r_action r = ''evidence'' \<Longrightarrow> r_actor r = b \<Longrightarrow>
    r_note r = cmd_evidence (en_command e) \<Longrightarrow> r_action r' = ''accept'' \<Longrightarrow> r_actor r' = s \<Longrightarrow>
    follows e rs ''settle'' [r, r'] StatusAccepted \<Longrightarrow> tale b s (es @ [e]) (rs @ [r, r']) StatusAccepted True"
| reject: "tale b s es rs StatusLocked g \<Longrightarrow> r_action r = ''reject'' \<Longrightarrow> r_actor r = s \<Longrightarrow>
    follows e rs ''reject'' [r] StatusRejected \<Longrightarrow> tale b s (es @ [e]) (rs @ [r]) StatusRejected g"
| expire: "tale b s es rs st g \<Longrightarrow> st = StatusOpen \<or> st = StatusLocked \<Longrightarrow> r_action r = ''expire'' \<Longrightarrow> r_actor r = b \<Longrightarrow>
    follows e rs ''expire'' [r] StatusExpired \<Longrightarrow> tale b s (es @ [e]) (rs @ [r]) StatusExpired g"

text \<open>The invariant of a contract.\<close>

definition contract_ok :: "contract \<Rightarrow> bool" where
  "contract_ok c \<longleftrightarrow>
    (let a = cn_agreement c; d = cn_definition c in
     ag_wf a \<and> (\<exists>ms. sealed_state ms a) \<and> ag_sealed a \<noteq> None \<and> ag_id a = cn_terms c \<and> cn_terms c = nex_hash (terms_text d) \<and>
     ag_kind a = ct_kind d \<and> ag_kind a \<noteq> [] \<and> ag_buyer a = ct_buyer d \<and> ag_seller a = ct_seller d \<and>
     ct_buyer d = public_id (cn_buyer c) \<and> ct_seller d = public_id (cn_seller c) \<and> ag_amount a = ct_amount d \<and>
     ag_created_at a = ct_created d \<and> ag_deadline a = ct_deadline d \<and> mt_max_steps (ag_meter a) = 128)"

definition contract_tale :: "entry list \<Rightarrow> contract \<Rightarrow> bool" where
  "contract_tale es c \<longleftrightarrow> tale (ag_buyer (cn_agreement c)) (ag_seller (cn_agreement c)) es
    (ag_receipts (cn_agreement c)) (ag_status (cn_agreement c)) (cn_agreed c)"

text \<open>What no call changes.\<close>

definition same_contract :: "contract \<Rightarrow> contract \<Rightarrow> bool" where
  "same_contract c c' \<longleftrightarrow> cn_terms c' = cn_terms c \<and> cn_buyer c' = cn_buyer c \<and> cn_seller c' = cn_seller c \<and>
    cn_definition c' = cn_definition c \<and> same_terms (cn_agreement c) (cn_agreement c') \<and>
    ag_deadline (cn_agreement c') = ag_deadline (cn_agreement c)"

subsection \<open>What a new contract is\<close>

lemma contract_newE:
  assumes "contract_new C kind buyer seller amount spec now deadline ds = Some (Inr c)"
  obtains raw a0 a1 l where "public_validate C buyer = None" "public_validate C seller = None" "spec = Inr raw"
    "cn_definition c = \<lparr>ct_kind = kind, ct_buyer = public_id buyer, ct_seller = public_id seller, ct_amount = amount, ct_spec = raw,
       ct_created = now, ct_deadline = deadline\<rparr>"
    "cn_terms c = nex_hash (terms_text (cn_definition c))" "cn_buyer c = buyer" "cn_seller c = seller" "\<not> cn_agreed c"
    "open_agreement (cn_terms c) kind (public_id buyer) (public_id seller) amount
       \<lparr>mt_cost_usd = 0, mt_effort = [], mt_budget_usd = 0, mt_max_steps = 128\<rparr> now = Inr a0"
    "set_deadline a0 (ag_buyer a0) deadline now = (a1, None)" "start_sealed a1 ds = Some (cn_agreement c, None)"
  using assms
  by (auto simp: contract_new_def Let_def split: option.splits sum.splits prod.splits)

lemma open_agreement_fields:
  assumes "open_agreement aid kind buyer seller amount
    \<lparr>mt_cost_usd = 0, mt_effort = [], mt_budget_usd = 0, mt_max_steps = 128\<rparr> now = Inr a"
  shows "ag_created_at a = now \<and> mt_max_steps (ag_meter a) = 128 \<and> kind \<noteq> [] \<and>
    (\<exists>r. ag_receipts a = [r] \<and> r_action r = ''open'' \<and> r_actor r = buyer)"
  using assms by (auto simp: open_agreement_def open_agreement_with_def ag_append_eq pushed_def Let_def split: if_splits)

lemma new_contract:
  assumes "contract_new C kind buyer seller amount spec now deadline ds = Some (Inr c)"
  shows "contract_ok c \<and> contract_tale [] c \<and> \<not> cn_agreed c \<and> contract_status c = StatusOpen \<and> cn_buyer c = buyer \<and>
    cn_seller c = seller \<and> ct_amount (cn_definition c) = amount \<and> ct_created (cn_definition c) = now \<and>
    ct_deadline (cn_definition c) = deadline"
  using assms
proof (rule contract_newE)
  fix raw a0 a1
  assume d: "cn_definition c = \<lparr>ct_kind = kind, ct_buyer = public_id buyer, ct_seller = public_id seller, ct_amount = amount, ct_spec = raw,
       ct_created = now, ct_deadline = deadline\<rparr>"
    and t: "cn_terms c = nex_hash (terms_text (cn_definition c))" "cn_buyer c = buyer" "cn_seller c = seller" "\<not> cn_agreed c"
    and a0: "open_agreement (cn_terms c) kind (public_id buyer) (public_id seller) amount
       \<lparr>mt_cost_usd = 0, mt_effort = [], mt_budget_usd = 0, mt_max_steps = 128\<rparr> now = Inr a0"
    and a1: "set_deadline a0 (ag_buyer a0) deadline now = (a1, None)"
    and a2: "start_sealed a1 ds = Some (cn_agreement c, None)"
  note o = open_agreement_with_Inr [OF open_agreement_Inr [OF a0]] and f = open_agreement_fields [OF a0]
  have m1: "ag_move a0 EvDeadline a1" by (rule op_move(4) [OF a1])
  have m2: "ag_move a1 (EvStart ds) (cn_agreement c)" by (rule op_move(8) [OF a2])
  have wf: "ag_wf (cn_agreement c)" using ag_move_wf [OF m2 ag_move_wf [OF m1]] o by blast
  have st: "sealed_state [] (cn_agreement c)"
    using ag_move_sealed [OF m2 ag_move_sealed [OF m1 opened_sealed_state [OF open_agreement_Inr [OF a0]]]] by simp
  have tm: "same_terms a0 (cn_agreement c)" using ag_move_terms [OF m1] ag_move_terms [OF m2] same_terms_trans by simp
  obtain l where l: "cn_agreement c = a1\<lparr>ag_sealed := Some l\<rparr>" using start_sealed_ok [OF a2] by blast
  have a1': "a1 = (pushed a0 (ag_buyer a0) ''deadline'' (format_rfc3339 deadline) now)\<lparr>ag_deadline := deadline\<rparr>"
    using set_deadline_ok [OF a1] by blast
  have "ag_status (cn_agreement c) = StatusOpen" "ag_deadline (cn_agreement c) = deadline" "ag_sealed (cn_agreement c) \<noteq> None"
    using o by (simp_all add: l a1')
  moreover obtain r where "ag_receipts a0 = [r]" "r_action r = ''open''" using f by blast
  then have "contract_tale [] c"
    using o t(4) tale.start [of r] by (simp add: contract_tale_def l a1')
  ultimately show ?thesis
    using wf st tm o f d t by (auto simp: contract_ok_def contract_status_def same_terms_defs)
qed

subsection \<open>What a command does\<close>

lemma ag_moves_sealed_from: "ag_moves a evs b \<Longrightarrow> sealed_state ms a \<Longrightarrow> sealed_state (ms @ sealed_amounts evs) b"
proof (induction rule: ag_moves.induct)
  case (more evs b ev c)
  then show ?case using ag_move_sealed [of b ev c "ms @ sealed_amounts evs"] by simp
qed simp

lemma moved_ok:
  assumes "contract_ok c" "ag_moves (cn_agreement c) evs a" "EvUnit \<notin> set evs" "ag_deadline a = ag_deadline (cn_agreement c)"
    and "ag_sealed (cn_agreement c) \<noteq> None \<Longrightarrow> ag_sealed a \<noteq> None"
  shows "contract_ok (c\<lparr>cn_agreement := a\<rparr>) \<and> same_contract c (c\<lparr>cn_agreement := a\<rparr>)"
proof -
  obtain ms where "sealed_state ms (cn_agreement c)" using assms(1) by (auto simp: contract_ok_def Let_def)
  then have "\<exists>ms. sealed_state ms a" using ag_moves_sealed_from [OF assms(2)] by blast
  moreover have "ag_wf a \<and> same_terms (cn_agreement c) a"
    using ag_moves_wf [OF assms(2)] ag_moves_terms [OF assms(2, 3)] assms(1) by (auto simp: contract_ok_def Let_def)
  ultimately show ?thesis
    using assms by (auto simp: contract_ok_def same_contract_def same_terms_defs Let_def)
qed

text \<open>The five commands, seen from their success.\<close>

lemma apply_verifiedE:
  assumes "apply_verified dec rnd c cmd sig now = (c', None)"
  obtains (expire) a' where "cmd_action cmd = ''expire''" "ag_expire (cn_agreement c) (ag_buyer (cn_agreement c)) now = (a', None)"
      "c' = c\<lparr>cn_agreement := a'\<rparr>"
  | (lock) a' where "cmd_action cmd = ''lock''" "ag_status (cn_agreement c) = StatusOpen" "now < ag_deadline (cn_agreement c)"
      "ag_seal_lock rnd (cn_agreement c) (ag_buyer (cn_agreement c)) (ag_amount (cn_agreement c)) now = (a', None)"
      "c' = c\<lparr>cn_agreement := a'\<rparr>"
  | (agree) a' where "cmd_action cmd = ''agree''" "ag_status (cn_agreement c) = StatusLocked" "\<not> cn_agreed c"
      "ag_note (cn_agreement c) (ag_seller (cn_agreement c)) ''evidence'' (''signed-consent:'' @ nex_hash (bytes_json sig)) now = (a', None)"
      "c' = c\<lparr>cn_agreement := a', cn_agreed := True\<rparr>" "now < ag_deadline (cn_agreement c)"
  | (settle) n a' where "cmd_action cmd = ''settle''" "cn_agreed c" "ag_status (cn_agreement c) = StatusLocked"
      "ag_note (cn_agreement c) (ag_buyer (cn_agreement c)) ''evidence'' (cmd_evidence cmd) now = (n, None)"
      "ag_accept dec rnd n (ag_seller (cn_agreement c)) now = (a', None)" "c' = c\<lparr>cn_agreement := a'\<rparr>"
      "now < ag_deadline (cn_agreement c)"
  | (reject) a' where "cmd_action cmd = ''reject''" "ag_reject (cn_agreement c) (ag_seller (cn_agreement c)) now = (a', None)"
      "c' = c\<lparr>cn_agreement := a'\<rparr>" "now < ag_deadline (cn_agreement c)"
proof -
  let ?a = "cn_agreement c"
  have "cmd_action cmd \<in> {''expire'', ''lock'', ''agree'', ''settle'', ''reject''}"
    using assms by (auto simp: apply_verified_def Let_def split: if_splits)
  then show thesis
  proof (elim insertE emptyE)
    assume "cmd_action cmd = ''expire''"
    with assms show thesis
      by (intro expire [of "fst (ag_expire ?a (ag_buyer ?a) now)"])
        (auto simp: apply_verified_def Let_def on_agreement_def prod_eq_iff split: if_splits)
  next
    assume "cmd_action cmd = ''lock''"
    with assms show thesis
      by (intro lock [of "fst (ag_seal_lock rnd ?a (ag_buyer ?a) (ag_amount ?a) now)"])
        (auto simp: apply_verified_def Let_def on_agreement_def ag_apply_def prod_eq_iff split: if_splits)
  next
    assume act: "cmd_action cmd = ''agree''"
    let ?out = "ag_note ?a (ag_seller ?a) ''evidence'' (''signed-consent:'' @ nex_hash (bytes_json sig)) now"
    have g: "ag_status ?a = StatusLocked" "\<not> cn_agreed c" "now < ag_deadline ?a"
      and o: "and_then (on_agreement c ?out) (\<lambda>c. ok (c\<lparr>cn_agreed := True\<rparr>)) = (c', None)"
      using assms act by (auto simp: apply_verified_def Let_def split: if_splits)
    from o have "snd ?out = None" "c' = c\<lparr>cn_agreement := fst ?out, cn_agreed := True\<rparr>"
      by (auto simp: and_then_ok_iff on_agreement_def)
    with act g show thesis by (intro agree [of "fst ?out"]) (simp_all add: prod_eq_iff)
  next
    assume act: "cmd_action cmd = ''settle''"
    let ?out = "accept_with_evidence dec rnd ?a (ag_buyer ?a) (ag_seller ?a) (cmd_evidence cmd) now"
    have g: "cn_agreed c" "ag_status ?a = StatusLocked" "now < ag_deadline ?a"
      and o: "snd ?out = None" "c' = c\<lparr>cn_agreement := fst ?out\<rparr>"
      using assms act by (auto simp: apply_verified_def Let_def on_agreement_def split: if_splits)
    then have "?out = (fst ?out, None)" by (simp add: prod_eq_iff)
    from accept_with_evidence_ok [OF this] obtain n where "ag_note ?a (ag_buyer ?a) ''evidence'' (cmd_evidence cmd) now = (n, None)"
      "ag_accept dec rnd n (ag_seller ?a) now = (fst ?out, None)" by blast
    with act g o show thesis by (intro settle [of n "fst ?out"])
  next
    assume "cmd_action cmd = ''reject''"
    with assms show thesis
      by (intro reject [of "fst (ag_reject ?a (ag_seller ?a) now)"])
        (auto simp: apply_verified_def Let_def on_agreement_def ag_apply_def prod_eq_iff split: if_splits)
  qed
qed

lemma apply_verified_error:
  assumes "apply_verified dec rnd c cmd sig now = (c', Some e)"
  shows "c' = c"
proof -
  have same: "on_agreement c out = (c', Some e) \<Longrightarrow> fst out = cn_agreement c \<Longrightarrow> c' = c" for out
    by (auto simp: on_agreement_def)
  have keep: "snd out = Some e \<Longrightarrow> (\<And>a' e. out = (a', Some e) \<Longrightarrow> a' = cn_agreement c) \<Longrightarrow> fst out = cn_agreement c" for out :: "agreement outcome"
    by (metis prod.collapse)
  show ?thesis
    using assms
    by (auto simp: apply_verified_def Let_def on_agreement_def and_then_def split: if_splits option.splits
        dest!: keep intro: ag_ops_error ag_apply_error)
qed

text \<open>The entry a command adds to the log.\<close>

definition entry_of :: "contract \<Rightarrow> command \<Rightarrow> bytes \<Rightarrow> entry" where
  "entry_of c cmd sig = \<lparr>en_command = cmd, en_signature = sig, en_head = contract_head c, en_status = contract_status c\<rparr>"

lemma entry_of_fields [simp]:
  "en_command (entry_of c cmd sig) = cmd" "en_signature (entry_of c cmd sig) = sig"
  "en_head (entry_of c cmd sig) = contract_head c" "en_status (entry_of c cmd sig) = contract_status c"
  by (simp_all add: entry_of_def)

lemma apply_verified_head: "apply_verified dec rnd c cmd sig now = (c', None) \<Longrightarrow> cmd_head cmd = contract_head c \<and> cmd_terms cmd = cn_terms c"
  by (auto simp: apply_verified_def Let_def split: if_splits)

lemma pushed_tale: "ag_receipts (pushed a p act n t) = ag_receipts a @ [new_receipt (ag_id a) (ag_receipts a) p act n t]"
  by simp

lemma apply_verified_step:
  assumes ok: "contract_ok c" and tl: "contract_tale es c" and step: "apply_verified dec rnd c cmd sig now = (c', None)"
  shows "contract_ok c' \<and> same_contract c c' \<and> contract_tale (es @ [entry_of c' cmd sig]) c'"
proof -
  let ?a = "cn_agreement c" and ?e = "entry_of c' cmd sig"
  note hd = apply_verified_head [OF step]
  have tl': "tale (ag_buyer ?a) (ag_seller ?a) es (ag_receipts ?a) (ag_status ?a) (cn_agreed c)" using tl by (simp add: contract_tale_def)
  have fol: "follows ?e (ag_receipts ?a) (cmd_action cmd) rs' st" if "contract_head c' = r_hash (last rs')" "contract_status c' = st" for rs' st
    using that hd by (simp add: follows_def contract_head_def)
  from step show ?thesis
  proof (cases rule: apply_verifiedE)
    case (expire a')
    note x = ag_expire_ok [OF expire(2)]
    have "contract_ok c' \<and> same_contract c c'"
      unfolding expire(3) using x by (intro moved_ok [OF ok ag_moves_one [OF op_move(5) [OF expire(2)]]]) auto
    moreover have "contract_tale (es @ [?e]) c'"
      using tl' x fol expire(1) unfolding contract_tale_def expire(3)
      by (auto intro!: tale.expire simp: contract_head_def contract_status_def)
    ultimately show ?thesis by blast
  next
    case (lock a')
    note x = ag_seal_lock_ok [OF lock(4)]
    have "contract_ok c' \<and> same_contract c c'"
      unfolding lock(5) using x by (intro moved_ok [OF ok ag_moves_one [OF op_move(7) [OF lock(4)]]]) auto
    moreover have "contract_tale (es @ [?e]) c'"
      using tl' x fol lock(1, 2) unfolding contract_tale_def lock(5)
      by (auto intro!: tale.lock simp: contract_head_def contract_status_def)
    ultimately show ?thesis by blast
  next
    case (agree a')
    note x = ag_note_ok [OF agree(4)]
    have "contract_ok (c\<lparr>cn_agreement := a'\<rparr>) \<and> same_contract c (c\<lparr>cn_agreement := a'\<rparr>)"
      using x by (intro moved_ok [OF ok ag_moves_one [OF op_move(6) [OF agree(4)]]]) auto
    then have "contract_ok c' \<and> same_contract c c'"
      unfolding agree(5) by (auto simp: contract_ok_def same_contract_def Let_def)
    moreover have "contract_tale (es @ [?e]) c'"
      using tl' x fol agree(1-3) unfolding contract_tale_def agree(5)
      by (auto intro!: tale.agree simp: contract_head_def contract_status_def)
    ultimately show ?thesis by blast
  next
    case (settle n a')
    note x = ag_note_ok [OF settle(4)] and y = ag_accept_ok [OF settle(5)]
    have "contract_ok c' \<and> same_contract c c'"
      unfolding settle(6) using x y
      by (intro moved_ok [OF ok ag_moves.more [OF ag_moves_one [OF op_move(6) [OF settle(4)]] op_move(2) [OF settle(5)]]]) auto
    moreover have "contract_tale (es @ [?e]) c'"
    proof -
      let ?r = "new_receipt (ag_id ?a) (ag_receipts ?a) (ag_buyer ?a) ''evidence'' (cmd_evidence cmd) now"
      obtain m where a': "ag_receipts a' = (ag_receipts ?a @ [?r]) @ [new_receipt (ag_id ?a) (ag_receipts ?a @ [?r]) (ag_seller ?a) ''accept'' m now]"
        "ag_status a' = StatusAccepted" "ag_buyer a' = ag_buyer ?a" "ag_seller a' = ag_seller ?a"
      proof -
        have n: "n = pushed ?a (ag_buyer ?a) ''evidence'' (cmd_evidence cmd) now" using x by blast
        obtain m where "a' = (pushed n (ag_seller ?a) ''accept'' m now)\<lparr>ag_closed_at := Some now, ag_released_to := ag_seller n,
            ag_status := StatusAccepted, ag_sealed_sum := (if is_sealed n then [] else ag_sealed_sum n)\<rparr>"
          using y by blast
        then show thesis by (intro that [of m]) (simp_all add: n)
      qed
      let ?r' = "new_receipt (ag_id ?a) (ag_receipts ?a @ [?r]) (ag_seller ?a) ''accept'' m now"
      have "follows ?e (ag_receipts ?a) ''settle'' [?r, ?r'] StatusAccepted"
        using fol [of "[?r, ?r']"] settle(1) a' unfolding settle(6) contract_head_def contract_status_def by simp
      then show ?thesis
        using tl' settle(2, 3) a' tale.settle [of "ag_buyer ?a" "ag_seller ?a" es "ag_receipts ?a" ?r ?e ?r']
        unfolding contract_tale_def settle(6) by simp
    qed
    ultimately show ?thesis by blast
  next
    case (reject a')
    note x = ag_reject_ok [OF reject(2)]
    have "contract_ok c' \<and> same_contract c c'"
      unfolding reject(3) using x by (intro moved_ok [OF ok ag_moves_one [OF op_move(3) [OF reject(2)]]]) auto
    moreover have "contract_tale (es @ [?e]) c'"
      using tl' x fol reject(1) unfolding contract_tale_def reject(3)
      by (auto intro!: tale.reject simp: contract_head_def contract_status_def)
    ultimately show ?thesis by blast
  qed
qed

lemma contract_apply_ok:
  "contract_apply C dec rnd c cmd sig now = (c', None) \<longleftrightarrow>
    nex_verify C (contract_signer c (cmd_action cmd)) ''contract'' (command_text cmd) sig = None \<and>
    apply_verified dec rnd c cmd sig now = (c', None)"
  by (auto simp: contract_apply_def split: option.splits)

lemma contract_apply_error: "contract_apply C dec rnd c cmd sig now = (c', Some e) \<Longrightarrow> c' = c"
  by (auto simp: contract_apply_def dest: apply_verified_error split: option.splits)

subsection \<open>Sequences of calls\<close>

record contract_call =
  cc_command :: command
  cc_signature :: bytes
  cc_now :: go_time
  cc_random :: randomness

text \<open>The contract after the calls, and the log of those that were accepted.\<close>

fun contract_run :: "crypto \<Rightarrow> proof_decoder \<Rightarrow> contract \<Rightarrow> contract_call list \<Rightarrow> contract \<times> entry list" where
  "contract_run C dec c [] = (c, [])"
| "contract_run C dec c (k # ks) =
    (case contract_apply C dec (cc_random k) c (cc_command k) (cc_signature k) (cc_now k) of
       (c', Some e) \<Rightarrow> contract_run C dec c' ks
     | (c', None) \<Rightarrow> (case contract_run C dec c' ks of (d, es) \<Rightarrow> (d, entry_of c' (cc_command k) (cc_signature k) # es)))"

definition entry_signed :: "crypto \<Rightarrow> contract \<Rightarrow> entry \<Rightarrow> bool" where
  "entry_signed C c e \<longleftrightarrow> cmd_terms (en_command e) = cn_terms c \<and>
    nex_verify C (contract_signer c (cmd_action (en_command e))) ''contract'' (command_text (en_command e)) (en_signature e) = None"

lemma same_contract_refl [simp]: "same_contract c c"
  by (simp add: same_contract_def same_terms_defs)

lemma same_contract_trans: "same_contract a b \<Longrightarrow> same_contract b c \<Longrightarrow> same_contract a c"
  by (auto simp: same_contract_def same_terms_defs)

lemma same_contract_signer: "same_contract c c' \<Longrightarrow> contract_signer c' = contract_signer c \<and> cn_terms c' = cn_terms c"
  by (auto simp: same_contract_def contract_signer_def fun_eq_iff)

lemma contract_run_tale:
  assumes "contract_ok c" "contract_tale es c" "contract_run C dec c ks = (d, fs)"
  shows "contract_ok d \<and> same_contract c d \<and> contract_tale (es @ fs) d \<and> list_all (entry_signed C c) fs"
  using assms
proof (induction ks arbitrary: c es d fs)
  case (Cons k ks)
  obtain c' r where step: "contract_apply C dec (cc_random k) c (cc_command k) (cc_signature k) (cc_now k) = (c', r)" by fastforce
  show ?case
  proof (cases r)
    case (Some e)
    then have "c' = c" using step contract_apply_error by blast
    then show ?thesis using Cons.IH [OF Cons.prems(1, 2), of d fs] Cons.prems(3) step Some by simp
  next
    case None
    let ?e = "entry_of c' (cc_command k) (cc_signature k)"
    from step None have av: "apply_verified dec (cc_random k) c (cc_command k) (cc_signature k) (cc_now k) = (c', None)"
      and sg: "nex_verify C (contract_signer c (cmd_action (cc_command k))) ''contract'' (command_text (cc_command k)) (cc_signature k) = None"
      by (auto simp: contract_apply_ok)
    obtain gs where gs: "contract_run C dec c' ks = (d, gs)" "fs = ?e # gs"
      using Cons.prems(3) step None by (auto split: prod.splits)
    note s = apply_verified_step [OF Cons.prems(1, 2) av]
    have "contract_ok d \<and> same_contract c' d \<and> contract_tale ((es @ [?e]) @ gs) d \<and> list_all (entry_signed C c') gs"
      using Cons.IH [of c' "es @ [?e]" d gs] s gs(1) by blast
    moreover have "entry_signed C c = entry_signed C c'"
      using s same_contract_signer by (auto simp: entry_signed_def fun_eq_iff)
    moreover have "entry_signed C c ?e" using sg apply_verified_head [OF av] by (simp add: entry_signed_def entry_of_def)
    ultimately show ?thesis using s gs(2) same_contract_trans by auto
  qed
qed simp

subsection \<open>What a log can be\<close>

definition entry_actions :: "entry list \<Rightarrow> string list" where
  "entry_actions es = map (\<lambda>e. cmd_action (en_command e)) es"

fun legal_logs :: "status \<Rightarrow> string list set" where
  "legal_logs StatusOpen = {[]}"
| "legal_logs StatusLocked = {[''lock''], [''lock'', ''agree'']}"
| "legal_logs StatusAccepted = {[''lock'', ''agree'', ''settle'']}"
| "legal_logs StatusRejected = {[''lock'', ''reject''], [''lock'', ''agree'', ''reject'']}"
| "legal_logs StatusExpired = {[''expire''], [''lock'', ''expire''], [''lock'', ''agree'', ''expire'']}"
| "legal_logs _ = {}"

lemma tale_log:
  "tale b s es rs st g \<Longrightarrow> entry_actions es \<in> legal_logs st \<and> (g \<longleftrightarrow> ''agree'' \<in> set (entry_actions es))"
  by (induction rule: tale.induct) (auto simp: entry_actions_def follows_def)

lemma tale_last: "tale b s es rs st g \<Longrightarrow> es \<noteq> [] \<Longrightarrow> en_head (last es) = r_hash (last rs) \<and> en_status (last es) = st"
  by (induction rule: tale.induct) (auto simp: follows_def)

text \<open>The commands name the hashes of receipts before the last, each of another one.\<close>

definition heads_in_order :: "entry list \<Rightarrow> receipt list \<Rightarrow> nat list \<Rightarrow> bool" where
  "heads_in_order es rs is \<longleftrightarrow> length is = length es \<and> sorted_wrt (<) is \<and> (\<forall>i \<in> set is. 1 \<le> i \<and> i < length rs - 1) \<and>
    2 \<le> length rs \<and> map (\<lambda>e. cmd_head (en_command e)) es = map (\<lambda>i. r_hash (rs ! i)) is"

lemma heads_grow:
  assumes "heads_in_order es rs is" "rs' \<noteq> []" "follows e rs act ss st"
  shows "heads_in_order (es @ [e]) (rs @ rs') (is @ [length rs - 1])"
proof -
  have rs: "rs \<noteq> []" "2 \<le> length rs" using assms(1) by (auto simp: heads_in_order_def)
  then have "cmd_head (en_command e) = r_hash ((rs @ rs') ! (length rs - 1))"
    using assms(3) by (simp add: follows_def nth_append last_conv_nth)
  moreover have "map (\<lambda>i. r_hash ((rs @ rs') ! i)) is = map (\<lambda>i. r_hash (rs ! i)) is"
    using assms(1) by (auto simp: heads_in_order_def nth_append)
  moreover have "1 \<le> length rs'" using assms(2) by (cases rs') auto
  ultimately show ?thesis
    using assms(1) rs(2) by (auto simp: heads_in_order_def sorted_wrt_append)
qed

lemma tale_heads: "tale b s es rs st g \<Longrightarrow> \<exists>is. heads_in_order es rs is"
proof (induction rule: tale.induct)
  case (start r0 r1)
  then show ?case by (intro exI [of _ "[]"]) (simp add: heads_in_order_def)
qed (auto dest: heads_grow)

end
