(* ===== verification/Nex_Contract_Laws.thy ===== *)
theory Nex_Contract_Laws
  imports Nex_Contract Message_Example
begin

text \<open>
  The properties of the public contract: what its log says for every sequence of calls, that a command is
  accepted at most once, and that honest parties can always bring a fresh contract to settlement.
\<close>

subsection \<open>Distinct heads\<close>

lemma receipt_text_seq:
  assumes "receipt_text cid r = receipt_text cid r'"
  shows "r_seq r = r_seq r'"
proof -
  define z where "z r = ''|'' @ format_rfc3339_nano (r_at r) @ ''|'' @ r_action r @ ''|'' @ r_actor r @ ''|'' @ r_note r @ ''|'' @ r_prev r"
    for r :: receipt
  have "itoa (r_seq r) @ z r = itoa (r_seq r') @ z r'"
    using assms by (simp add: receipt_text_def z_def)
  moreover have "\<not> is_digit (hd (z r))" for r by (simp add: z_def is_digit_def char_code_def)
  ultimately show ?thesis using itoa_unique by blast
qed

lemma verified_hashes_differ:
  assumes "verify_receipts cid rs = None" "i < length rs" "j < length rs" "i \<noteq> j" "r_hash (rs ! i) = r_hash (rs ! j)"
  shows "text_collision (texts cid rs) (texts cid rs)"
proof -
  note vi = verify_receipts_nth [OF assms(1, 2)] and vj = verify_receipts_nth [OF assms(1, 3)]
  have "receipt_text cid (rs ! i) \<noteq> receipt_text cid (rs ! j)"
    using receipt_text_seq [of cid "rs ! i" "rs ! j"] vi vj assms(4) by auto
  moreover have "hash_text (receipt_text cid (rs ! i)) = hash_text (receipt_text cid (rs ! j))"
    using vi vj assms(5) by (simp add: hash_text_def hash_receipt_def)
  ultimately show ?thesis
    using assms(2, 3) by (simp add: text_collision_def texts_def list_ex_iff) (metis nth_mem)
qed

subsection \<open>Honest signatures\<close>

lemma nex_sign_verifies:
  assumes "identity_public C i = Inr p" "crypto_ok C"
  shows "nex_verify C p domain text (nex_sign C i domain text) = None"
proof -
  obtain seed where s: "length seed = 32" "idn_signing i = seed @ cr_ed_public C seed" "pb_signing p = cr_ed_public C seed"
    using identity_publicE [OF assms] by metis
  then show ?thesis
    using assms(2) public_validate_own [OF assms] by (simp add: nex_verify_def nex_sign_def crypto_ok_def signs_ok_def)
qed

lemma execute_verified:
  assumes "crypto_ok C" "identity_public C i = Inr (contract_signer c action)"
  shows "contract_execute C dec rnd c i action evidence now =
    apply_verified dec rnd c (new_command c action evidence) (nex_sign C i ''contract'' (command_text (new_command c action evidence))) now"
  using nex_sign_verifies [OF assms(2, 1)] by (simp add: contract_execute_def contract_apply_def Let_def new_command_def)

subsection \<open>Settlement\<close>

lemma execute_lock:
  assumes C: "crypto_ok C" and i: "identity_public C i = Inr (cn_buyer c)" and ok: "contract_ok c" and st: "contract_status c = StatusOpen"
    and t: "ag_created_at (cn_agreement c) \<le> t" "t < ag_deadline (cn_agreement c)" and steps: "ag_steps (cn_agreement c) < 128"
    and l: "ag_sealed (cn_agreement c) = Some l" and key: "valid_key P Q (lg_p l)" "sint (ag_amount (cn_agreement c)) < min P Q"
    and draw: "rnd 0 = Some r" "Enc_Ledger.unit_factor (pl_n (lg_p l)) r"
  obtains a l' where "contract_execute C dec rnd c i ''lock'' [] t = ok (c\<lparr>cn_agreement := a\<rparr>)"
    "ag_move (cn_agreement c) (EvSeal (sint (ag_amount (cn_agreement c)))) a" "sealed_state [sint (ag_amount (cn_agreement c))] a"
    "ag_sealed a = Some l'" "lg_p l' = lg_p l" "ag_status a = StatusLocked" "ag_steps a = ag_steps (cn_agreement c) + 1"
    "ag_deadline a = ag_deadline (cn_agreement c)"
proof -
  let ?a = "cn_agreement c"
  have wf: "ag_wf ?a" "mt_max_steps (ag_meter ?a) = 128" using ok by (simp_all add: contract_ok_def Let_def)
  obtain ms where "sealed_state ms ?a" using ok by (auto simp: contract_ok_def Let_def)
  then have s0: "sealed_state [] ?a" using st by (auto simp: sealed_state_def contract_status_def)
  have "1 < P" "1 < Q" "pl_n (lg_p l) = P * Q" using key(1) is_prime_gt by (auto simp: valid_key_def)
  then have "P \<le> pl_n (lg_p l)" by simp
  then have x: "0 < sint (ag_amount ?a)" "sint (ag_amount ?a) < pl_n (lg_p l)" using wf key(2) by (auto simp: ag_wf_def)
  have "\<not> ag_terminal ?a" "can_append ?a"
    using st wf steps by (simp_all add: ag_terminal_def contract_status_def ag_wf_can_append)
  from seal_lock_progress [where rnd = rnd and t = t, OF l key(1) s0 this x draw] obtain a l' where
    a: "ag_seal_lock rnd ?a (ag_buyer ?a) (ag_amount ?a) t = ok a" "ag_move ?a (EvSeal (sint (ag_amount ?a))) a"
      "ag_sealed a = Some l'" "lg_p l' = lg_p l" "ag_status a = StatusLocked" "ag_steps a = ag_steps ?a + 1" by blast
  have d: "ag_deadline a = ag_deadline ?a" using ag_seal_lock_ok [OF a(1)] by auto
  have "contract_execute C dec rnd c i ''lock'' [] t = ok (c\<lparr>cn_agreement := a\<rparr>)"
    using execute_verified [OF C, of i c "''lock''" dec rnd "[]" t] i st t a(1)
    by (simp add: contract_signer_def apply_verified_def new_command_def contract_status_def ag_apply_def on_agreement_def Let_def)
  then show ?thesis
    using that [of a l'] a(2-6) d ag_move_sealed [OF a(2) s0] by simp
qed

lemma execute_agree:
  assumes C: "crypto_ok C" and j: "identity_public C j = Inr (cn_seller c)" and ok: "contract_ok c" and st: "contract_status c = StatusLocked"
    and g: "\<not> cn_agreed c" and t: "ag_created_at (cn_agreement c) \<le> t" "t < ag_deadline (cn_agreement c)"
    and steps: "ag_steps (cn_agreement c) < 128"
  obtains a where "contract_execute C dec rnd c j ''agree'' [] t = ok (c\<lparr>cn_agreement := a, cn_agreed := True\<rparr>)"
    "ag_move (cn_agreement c) EvNote a" "ag_sealed a = ag_sealed (cn_agreement c)" "ag_status a = StatusLocked"
    "ag_steps a = ag_steps (cn_agreement c) + 1" "ag_deadline a = ag_deadline (cn_agreement c)"
proof -
  let ?a = "cn_agreement c"
  let ?sig = "nex_sign C j ''contract'' (command_text (new_command c ''agree'' []))"
  let ?b = "pushed ?a (ag_seller ?a) ''evidence'' (''signed-consent:'' @ nex_hash (bytes_json ?sig)) t"
  have wf: "ag_wf ?a" "mt_max_steps (ag_meter ?a) = 128" using ok by (simp_all add: contract_ok_def Let_def)
  have n: "\<not> ag_terminal ?a" "can_append ?a"
    using st wf steps by (simp_all add: ag_terminal_def contract_status_def ag_wf_can_append)
  then have note_ok: "ag_note ?a (ag_seller ?a) ''evidence'' (''signed-consent:'' @ nex_hash (bytes_json ?sig)) t = ok ?b"
    by (simp add: ag_note_def ag_append_eq)
  have "contract_execute C dec rnd c j ''agree'' [] t = ok (c\<lparr>cn_agreement := ?b, cn_agreed := True\<rparr>)"
    using execute_verified [OF C, of j c "''agree''" dec rnd "[]" t] j st g t note_ok
    by (simp add: contract_signer_def apply_verified_def new_command_def contract_status_def on_agreement_def Let_def)
  then show ?thesis
    using that [of ?b] op_move(6) [OF note_ok] st by (simp add: contract_status_def)
qed

lemma execute_settle:
  assumes C: "crypto_ok C" and i: "identity_public C i = Inr (cn_buyer c)" and ok: "contract_ok c" and st: "contract_status c = StatusLocked"
    and g: "cn_agreed c" and t: "ag_created_at (cn_agreement c) \<le> t" "t < ag_deadline (cn_agreement c)" and ev: "ev \<noteq> []"
    and sealed: "sealed_state [sint (ag_amount (cn_agreement c))] (cn_agreement c)" and steps: "ag_steps (cn_agreement c) + 1 < 128"
    and l: "ag_sealed (cn_agreement c) = Some l" and key: "valid_key P Q (lg_p l)" "sint (ag_amount (cn_agreement c)) < min P Q"
    and draw: "rnd 0 = Some s" "Enc_Ledger.unit_factor (pl_n (lg_p l)) s" and dec: "\<And>pf. dec (zk_marshal pf) = Some pf"
  obtains a where "contract_execute C dec rnd c i ''settle'' ev t = ok (c\<lparr>cn_agreement := a\<rparr>)"
    "ag_status a = StatusAccepted" "ag_released_to a = ag_seller (cn_agreement c)"
proof -
  let ?a = "cn_agreement c"
  let ?n = "pushed ?a (ag_buyer ?a) ''evidence'' ev t"
  have wf: "ag_wf ?a" "mt_max_steps (ag_meter ?a) = 128" using ok by (simp_all add: contract_ok_def Let_def)
  have "\<not> ag_terminal ?a" "can_append ?a"
    using st wf steps by (simp_all add: ag_terminal_def contract_status_def ag_wf_can_append)
  then have note_ok: "ag_note ?a (ag_buyer ?a) ''evidence'' ev t = ok ?n"
    using ev by (simp add: ag_note_def ag_append_eq)
  note m = op_move(6) [OF note_ok]
  have n: "ag_wf ?n" "sealed_state [sint (ag_amount ?n)] ?n"
    using ag_move_wf [OF m wf(1)] ag_move_sealed [OF m sealed] by simp_all
  have "\<exists>k. ag_accept dec rnd ?n (ag_seller ?n) t = ok ((pushed ?n (ag_seller ?n) ''accept'' k t)\<lparr>ag_closed_at := Some t,
      ag_released_to := ag_seller ?n, ag_status := StatusAccepted, ag_sealed_sum := []\<rparr>)"
    using accept_sealed_decision [where rnd = rnd and t = t and s = s, OF n, of l P Q dec] l key draw dec st wf steps
    by (simp add: contract_status_def)
  then obtain k where acc: "ag_accept dec rnd ?n (ag_seller ?a) t = ok ((pushed ?n (ag_seller ?a) ''accept'' k t)\<lparr>ag_closed_at := Some t,
      ag_released_to := ag_seller ?a, ag_status := StatusAccepted, ag_sealed_sum := []\<rparr>)" (is "_ = ok ?f") by auto
  have "contract_execute C dec rnd c i ''settle'' ev t = ok (c\<lparr>cn_agreement := ?f\<rparr>)"
    using execute_verified [OF C, of i c "''settle''" dec rnd ev t] i st g t ev note_ok acc
    by (simp add: contract_signer_def apply_verified_def new_command_def contract_status_def on_agreement_def accept_with_evidence_def Let_def)
  then show ?thesis using that [of ?f] by simp
qed

text \<open>
  C15. Honest parties settle a fresh contract: the buyer locks, the seller agrees and the buyer settles with evidence, each
  executing inside the time window; every command succeeds and the value is released to the seller. The key of the sealed
  path has primes above the amount, the randomness drawn is invertible, the signatures obey their laws, and nothing else
  is needed: the amount that is sealed is the amount agreed.
\<close>

theorem contract_can_settle:
  assumes "contract_new C kind p q amount spec created deadline ds = Some (Inr c)" "crypto_ok C"
    and "identity_public C i = Inr p" "identity_public C j = Inr q"
    and "ag_sealed (cn_agreement c) = Some l" "valid_key P Q (lg_p l)" "sint amount < min P Q"
    and "created \<le> t1" "t1 < deadline" "created \<le> t2" "t2 < deadline" "created \<le> t3" "t3 < deadline" "evidence \<noteq> []"
    and "rnd1 0 = Some r" "Enc_Ledger.unit_factor (pl_n (lg_p l)) r" "rnd3 0 = Some s" "Enc_Ledger.unit_factor (pl_n (lg_p l)) s"
    and "\<And>pf. dec (zk_marshal pf) = Some pf"
  shows "\<exists>c1 c2 c3. contract_execute C dec rnd1 c i ''lock'' [] t1 = ok c1 \<and>
    contract_execute C dec rnd2 c1 j ''agree'' [] t2 = ok c2 \<and> contract_execute C dec rnd3 c2 i ''settle'' evidence t3 = ok c3 \<and>
    contract_status c3 = StatusAccepted \<and> ag_released_to (cn_agreement c3) = public_id q"
proof -
  note new = new_contract [OF assms(1)]
  have f: "ag_created_at (cn_agreement c) = created" "ag_deadline (cn_agreement c) = deadline" "ag_seller (cn_agreement c) = public_id q"
    "ag_amount (cn_agreement c) = amount" "ag_steps (cn_agreement c) = 2" "cn_buyer c = p" "cn_seller c = q"
  proof -
    show "ag_steps (cn_agreement c) = 2"
      using new by (auto simp: contract_tale_def contract_ok_def Let_def ag_wf_def elim: tale.cases)
    show "ag_created_at (cn_agreement c) = created" "ag_deadline (cn_agreement c) = deadline" "ag_seller (cn_agreement c) = public_id q"
      "ag_amount (cn_agreement c) = amount" "cn_buyer c = p" "cn_seller c = q"
      using new by (auto simp: contract_ok_def Let_def)
  qed
  obtain a1 l1 where 1: "contract_execute C dec rnd1 c i ''lock'' [] t1 = ok (c\<lparr>cn_agreement := a1\<rparr>)"
    "ag_move (cn_agreement c) (EvSeal (sint amount)) a1" "sealed_state [sint amount] a1" "ag_sealed a1 = Some l1" "lg_p l1 = lg_p l"
    "ag_status a1 = StatusLocked" "ag_steps a1 = 3" "ag_deadline a1 = deadline"
    using execute_lock [of C i c t1 l P Q rnd1 r dec] assms new f by auto
  let ?c1 = "c\<lparr>cn_agreement := a1\<rparr>"
  have k1: "contract_ok ?c1" "same_terms (cn_agreement c) a1"
    using moved_ok [OF _ ag_moves_one [OF 1(2)]] new 1(4, 8) f ag_move_terms [OF 1(2)] by auto
  obtain a2 where 2: "contract_execute C dec rnd2 ?c1 j ''agree'' [] t2 = ok (?c1\<lparr>cn_agreement := a2, cn_agreed := True\<rparr>)"
    "ag_move a1 EvNote a2" "ag_sealed a2 = Some l1" "ag_status a2 = StatusLocked" "ag_steps a2 = 4" "ag_deadline a2 = deadline"
    using execute_agree [of C j ?c1 t2 dec rnd2] assms new f 1 k1 by (auto simp: contract_status_def same_terms_defs)
  let ?c2 = "c\<lparr>cn_agreement := a2, cn_agreed := True\<rparr>"
  have k2: "contract_ok ?c2" "same_terms a1 a2" "sealed_state [sint amount] a2"
  proof -
    have "contract_ok (?c1\<lparr>cn_agreement := a2\<rparr>)"
      using moved_ok [OF k1(1), of "[EvNote]" a2] ag_moves_one [OF 2(2)] 1 2 by simp
    then show "contract_ok ?c2" by (auto simp: contract_ok_def Let_def)
    show "same_terms a1 a2" "sealed_state [sint amount] a2"
      using ag_move_terms [OF 2(2)] ag_move_sealed [OF 2(2) 1(3)] by simp_all
  qed
  obtain a3 where 3: "contract_execute C dec rnd3 ?c2 i ''settle'' evidence t3 = ok (?c2\<lparr>cn_agreement := a3\<rparr>)"
    "ag_status a3 = StatusAccepted" "ag_released_to a3 = ag_seller a2"
    using execute_settle [of C i ?c2 t3 evidence l1 P Q rnd3 s dec] assms new f 1 2 k1 k2
    by (auto simp: contract_status_def same_terms_defs)
  have "ag_seller a2 = public_id q" using k1(2) k2(2) f by (simp add: same_terms_defs)
  with 1(1) 2(1) 3 show ?thesis by (auto simp: contract_status_def)
qed

text \<open>The example contract: the example identities, an amount of 3 and the small key, from instant 10 to 20.\<close>

lemma ex_contract:
  obtains c where "contract_new ex_crypto ''work'' ex_alice_pub ex_bob_pub 3 (Inr ''null'') 10 20 [(Some 5, Some 7)] = Some (Inr c)"
    "ag_sealed (cn_agreement c) = Some \<lparr>lg_p = ex_key, lg_rs = []\<rparr>"
proof -
  have ne: "public_id p \<noteq> []" for p
    using length_hex_encode [of "sha256 (wire ''identity'' (public_json p))"] by (auto simp: public_id_def digest_def simp del: length_hex_encode)
  have "\<exists>c. contract_new ex_crypto ''work'' ex_alice_pub ex_bob_pub 3 (Inr ''null'') 10 20 [(Some 5, Some 7)] = Some (Inr c) \<and>
      ag_sealed (cn_agreement c) = Some \<lparr>lg_p = ex_key, lg_rs = []\<rparr>"
    using ne ex_ids
    by (simp add: contract_new_def Let_def ex_valid open_agreement_def open_agreement_with_def ag_append_eq can_append_def
        over_budget_def f64_gt_def pushed_def set_deadline_def ag_terminal_def start_sealed_def ex_ledger)
  then show ?thesis using that by blast
qed

theorem contract_can_settle_witness:
  "\<exists>c c1 c2 c3. contract_execute ex_crypto zk_unmarshal (\<lambda>i. Some 2) c ex_alice ''lock'' [] 11 = ok c1 \<and>
    contract_execute ex_crypto zk_unmarshal (\<lambda>i. None) c1 ex_bob ''agree'' [] 12 = ok c2 \<and>
    contract_execute ex_crypto zk_unmarshal (\<lambda>i. Some 2) c2 ex_alice ''settle'' ''done'' 13 = ok c3 \<and>
    contract_status c3 = StatusAccepted \<and> ag_released_to (cn_agreement c3) = public_id ex_bob_pub"
proof -
  obtain c where c: "contract_new ex_crypto ''work'' ex_alice_pub ex_bob_pub 3 (Inr ''null'') 10 20 [(Some 5, Some 7)] = Some (Inr c)"
    "ag_sealed (cn_agreement c) = Some \<lparr>lg_p = ex_key, lg_rs = []\<rparr>" using ex_contract by metis
  have u: "Enc_Ledger.unit_factor (pl_n ex_key) 2" by code_simp
  have "\<exists>c1 c2 c3. contract_execute ex_crypto zk_unmarshal (\<lambda>i. Some 2) c ex_alice ''lock'' [] 11 = ok c1 \<and>
    contract_execute ex_crypto zk_unmarshal (\<lambda>i. None) c1 ex_bob ''agree'' [] 12 = ok c2 \<and>
    contract_execute ex_crypto zk_unmarshal (\<lambda>i. Some 2) c2 ex_alice ''settle'' ''done'' 13 = ok c3 \<and>
    contract_status c3 = StatusAccepted \<and> ag_released_to (cn_agreement c3) = public_id ex_bob_pub"
    by (rule contract_can_settle [OF c(1) ex_crypto_ok ex_public c(2), of 5 7])
      (simp_all add: ex_key_valid zk_unmarshal_marshal, simp_all add: u)
  then show ?thesis by blast
qed

text \<open>
  C1. The log of a contract tells its story: for every sequence of \<open>Apply\<close> calls on a new contract, by anyone, with any
  commands, signatures and times, the commands that were accepted account for the receipts after the two opening ones, one
  after the other, each naming the terms and the hash of the receipt before it and signed by the party its action belongs
  to; they are one of ten words; the value has gone to the seller exactly when they are a lock by the buyer, an agreement by
  the seller and a settlement by the buyer, and back to the buyer when the contract was rejected or has expired; and the
  receipts verify. The terms and the parties never change.
\<close>

theorem contract_tells_story:
  assumes "contract_new C kind p q amount spec created deadline ds = Some (Inr c)" "contract_run C dec c ks = (d, es)"
  shows "contract_tale es d \<and> same_contract c d \<and> list_all (entry_signed C c) es \<and>
    entry_actions es \<in> legal_logs (contract_status d) \<and>
    ag_released_to (cn_agreement d) =
      (if entry_actions es = [''lock'', ''agree'', ''settle''] then public_id q
       else if contract_status d = StatusRejected \<or> contract_status d = StatusExpired then public_id p else []) \<and>
    ag_verify_receipts (cn_agreement d) = None"
proof -
  note new = new_contract [OF assms(1)]
  note r = contract_run_tale [OF _ _ assms(2), of "[]"]
  have d: "contract_ok d" "same_contract c d" "contract_tale es d" "list_all (entry_signed C c) es"
    using r new by auto
  have log: "entry_actions es \<in> legal_logs (contract_status d)"
    using tale_log d(3) unfolding contract_tale_def contract_status_def by blast
  have wf: "ag_wf (cn_agreement d)" and ids: "ag_buyer (cn_agreement d) = public_id p" "ag_seller (cn_agreement d) = public_id q"
    using d(1, 2) new by (auto simp: contract_ok_def same_contract_def Let_def)
  have pay: "ag_released_to (cn_agreement d) = payee (cn_agreement d)"
    and st: "contract_status d \<in> {StatusOpen, StatusLocked, StatusAccepted, StatusRejected, StatusExpired}"
    using wf by (auto simp: ag_wf_def contract_status_def)
  have "ag_released_to (cn_agreement d) =
      (if entry_actions es = [''lock'', ''agree'', ''settle''] then public_id q
       else if contract_status d = StatusRejected \<or> contract_status d = StatusExpired then public_id p else [])"
    using st log unfolding pay contract_status_def by (elim insertE emptyE) (auto simp: payee_def ids)
  then show ?thesis using d log wf by (simp add: ag_verify_receipts_def ag_wf_def)
qed

text \<open>The example contract with a lock that its buyer signed.\<close>

abbreviation ex_lock :: "contract \<Rightarrow> contract_call" where
  "ex_lock c \<equiv> \<lparr>cc_command = new_command c ''lock'' [], cc_signature = nex_sign ex_crypto ex_alice ''contract'' (command_text (new_command c ''lock'' [])),
        cc_now = 11, cc_random = (\<lambda>i. Some 2)\<rparr>"

lemma ex_locked:
  obtains c d e where "contract_new ex_crypto ''work'' ex_alice_pub ex_bob_pub 3 (Inr ''null'') 10 20 [(Some 5, Some 7)] = Some (Inr c)"
    "contract_run ex_crypto zk_unmarshal c [ex_lock c] = (d, [e])" "cmd_action (en_command e) = ''lock''"
proof -
  obtain c where c: "contract_new ex_crypto ''work'' ex_alice_pub ex_bob_pub 3 (Inr ''null'') 10 20 [(Some 5, Some 7)] = Some (Inr c)"
    "ag_sealed (cn_agreement c) = Some \<lparr>lg_p = ex_key, lg_rs = []\<rparr>" using ex_contract by metis
  note new = new_contract [OF c(1)]
  have u: "Enc_Ledger.unit_factor (pl_n ex_key) 2" by code_simp
  have f: "ag_created_at (cn_agreement c) = 10" "ag_deadline (cn_agreement c) = 20" "ag_amount (cn_agreement c) = 3"
    using new by (auto simp: contract_ok_def Let_def)
  have s: "ag_steps (cn_agreement c) < 128"
    using new by (auto simp: contract_tale_def contract_ok_def Let_def ag_wf_def elim: tale.cases)
  obtain a where a: "contract_execute ex_crypto zk_unmarshal (\<lambda>i. Some 2) c ex_alice ''lock'' [] 11 = ok (c\<lparr>cn_agreement := a\<rparr>)"
    using execute_lock [of ex_crypto ex_alice c 11 _ 5 7 "\<lambda>i. Some 2" 2 zk_unmarshal, OF ex_crypto_ok _ _ _ _ _ s c(2)] new f u ex_public ex_key_valid
    by auto
  let ?e = "entry_of (c\<lparr>cn_agreement := a\<rparr>) (new_command c ''lock'' []) (nex_sign ex_crypto ex_alice ''contract'' (command_text (new_command c ''lock'' [])))"
  have run: "contract_run ex_crypto zk_unmarshal c [ex_lock c] = (c\<lparr>cn_agreement := a\<rparr>, [?e])"
    using a by (simp add: contract_execute_def Let_def)
  have "cmd_action (en_command ?e) = ''lock''" by (simp add: entry_of_def new_command_def)
  with c(1) run show ?thesis by (rule that)
qed

theorem contract_tells_story_witness:
  "\<exists>c d e. contract_run ex_crypto zk_unmarshal c [ex_lock c] = (d, [e]) \<and> entry_actions [e] = [''lock''] \<and>
    contract_tale [e] d \<and> entry_signed ex_crypto c e \<and> [''lock''] \<in> legal_logs (contract_status d) \<and>
    ag_verify_receipts (cn_agreement d) = None"
proof -
  obtain c d e where c: "contract_new ex_crypto ''work'' ex_alice_pub ex_bob_pub 3 (Inr ''null'') 10 20 [(Some 5, Some 7)] = Some (Inr c)"
    and run: "contract_run ex_crypto zk_unmarshal c [ex_lock c] = (d, [e])" and act: "cmd_action (en_command e) = ''lock''"
    by (rule ex_locked)
  from contract_tells_story [OF c run] run act show ?thesis
    by (intro exI [of _ c] exI [of _ d] exI [of _ e]) (simp add: entry_actions_def)
qed

text \<open>
  C22. A command is accepted at most once: after any sequence of calls, a command that is in the log is refused as stale,
  whoever signs it and whenever it comes, and the contract stays as it is; or two different receipts of the contract have
  one SHA-256 value.
\<close>

theorem command_accepted_once:
  assumes "contract_new C kind p q amount spec created deadline ds = Some (Inr c)" "contract_run C dec c ks = (d, es)"
    and "e \<in> set es"
  shows "apply_verified dec rnd d (en_command e) sig now = fail d (Errorf ''stale or foreign command'' []) \<or>
    text_collision (texts (cn_terms c) (ag_receipts (cn_agreement d))) (texts (cn_terms c) (ag_receipts (cn_agreement d)))"
proof -
  note new = new_contract [OF assms(1)]
  have d: "contract_ok d" "same_contract c d" "contract_tale es d"
    using contract_run_tale [OF _ _ assms(2), of "[]"] new by auto
  let ?rs = "ag_receipts (cn_agreement d)"
  obtain "is" where i: "heads_in_order es ?rs is" using tale_heads d(3) unfolding contract_tale_def by blast
  then obtain k where k: "k < length is" "e = es ! k" using assms(3) by (metis heads_in_order_def in_set_conv_nth)
  then have len: "k < length es" using i by (simp add: heads_in_order_def)
  have "map (\<lambda>e. cmd_head (en_command e)) es ! k = map (\<lambda>i. r_hash (?rs ! i)) is ! k"
    using i unfolding heads_in_order_def by metis
  then have hd: "cmd_head (en_command e) = r_hash (?rs ! (is ! k))"
    unfolding nth_map [OF len] nth_map [OF k(1)] k(2) .
  have b: "is ! k < length ?rs - 1" "?rs \<noteq> []" using i k by (auto simp: heads_in_order_def)
  have v: "verify_receipts (cn_terms c) ?rs = None"
    using d(1, 2) by (auto simp: contract_ok_def ag_wf_def same_contract_def Let_def)
  show ?thesis
  proof (cases "cmd_head (en_command e) = contract_head d")
    case True
    then have "r_hash (?rs ! (is ! k)) = r_hash (?rs ! (length ?rs - 1))"
      using hd b(2) by (simp add: contract_head_def last_conv_nth)
    then show ?thesis using verified_hashes_differ [OF v, of "is ! k" "length ?rs - 1"] b by auto
  qed (simp add: apply_verified_def Let_def)
qed

theorem command_accepted_once_witness:
  "\<exists>c d es e. contract_run ex_crypto zk_unmarshal c [ex_lock c] = (d, es) \<and> e \<in> set es \<and>
    (apply_verified zk_unmarshal (\<lambda>i. Some 2) d (en_command e) [] 12 = fail d (Errorf ''stale or foreign command'' []) \<or>
      text_collision (texts (cn_terms c) (ag_receipts (cn_agreement d))) (texts (cn_terms c) (ag_receipts (cn_agreement d))))"
proof -
  obtain c d e where c: "contract_new ex_crypto ''work'' ex_alice_pub ex_bob_pub 3 (Inr ''null'') 10 20 [(Some 5, Some 7)] = Some (Inr c)"
    and run: "contract_run ex_crypto zk_unmarshal c [ex_lock c] = (d, [e])"
    by (rule ex_locked)
  have "e \<in> set [e]" by simp
  from command_accepted_once [OF c run this] run this show ?thesis by blast
qed

end
