(* ===== verification/Json_Scan.thy ===== *)
theory Json_Scan
  imports Json_Text
begin

text \<open>
  Two operations of \<open>encoding/json\<close> on a text that is kept as it is, a \<open>json.RawMessage\<close>: the check
  \<open>json.Valid\<close>, as the byte-by-byte state machine of the package's scanner, and the compaction that
  \<open>json.Marshal\<close> applies to the text it embeds.
\<close>

subsection \<open>The scanner\<close>

datatype json_frame = ObjectKey | ObjectValue | ArrayValue

datatype json_state = BeginValue | BeginValueOrEmpty | BeginString | BeginStringOrEmpty | EndValue | EndTop
  | InString | InEscape | InEscapeU nat | AfterMinus | AfterDigit | AfterZero | AfterDot | AfterFraction
  | AfterE | AfterESign | AfterExponent | InLiteral string

type_synonym json_scan = "(json_state \<times> json_frame list) option"

definition json_space :: "char \<Rightarrow> bool" where
  "json_space c \<longleftrightarrow> c = CHR '' '' \<or> c = CHR 0x09 \<or> c = CHR 0x0D \<or> c = CHR 0x0A"

text \<open>The nesting limit of the package.\<close>

definition push_frame :: "json_frame \<Rightarrow> json_state \<Rightarrow> json_frame list \<Rightarrow> json_scan" where
  "push_frame f st fs = (if 10000 < length fs + 1 then None else Some (st, f # fs))"

definition pop_frame :: "json_frame list \<Rightarrow> json_scan" where
  "pop_frame fs = Some (if tl fs = [] then EndTop else EndValue, tl fs)"

definition begin_value :: "char \<Rightarrow> json_frame list \<Rightarrow> json_scan" where
  "begin_value c fs =
    (if json_space c then Some (BeginValue, fs)
     else if c = CHR ''{'' then push_frame ObjectKey BeginStringOrEmpty fs
     else if c = CHR ''['' then push_frame ArrayValue BeginValueOrEmpty fs
     else if c = CHR 0x22 then Some (InString, fs)
     else if c = CHR ''-'' then Some (AfterMinus, fs)
     else if c = CHR ''0'' then Some (AfterZero, fs)
     else if c = CHR ''t'' then Some (InLiteral ''rue'', fs)
     else if c = CHR ''f'' then Some (InLiteral ''alse'', fs)
     else if c = CHR ''n'' then Some (InLiteral ''ull'', fs)
     else if is_digit c then Some (AfterDigit, fs)
     else None)"

definition end_value :: "char \<Rightarrow> json_frame list \<Rightarrow> json_scan" where
  "end_value c fs =
    (case fs of
       [] \<Rightarrow> if json_space c then Some (EndTop, []) else None
     | f # gs \<Rightarrow>
         if json_space c then Some (EndValue, fs)
         else case f of
           ObjectKey \<Rightarrow> if c = CHR '':'' then Some (BeginValue, ObjectValue # gs) else None
         | ObjectValue \<Rightarrow>
             if c = CHR '','' then Some (BeginString, ObjectKey # gs)
             else if c = CHR ''}'' then pop_frame fs else None
         | ArrayValue \<Rightarrow>
             if c = CHR '','' then Some (BeginValue, fs)
             else if c = CHR '']'' then pop_frame fs else None)"

definition begin_string :: "char \<Rightarrow> json_frame list \<Rightarrow> json_scan" where
  "begin_string c fs =
    (if json_space c then Some (BeginString, fs) else if c = CHR 0x22 then Some (InString, fs) else None)"

definition after_fraction :: "json_state \<Rightarrow> char \<Rightarrow> json_frame list \<Rightarrow> json_scan" where
  "after_fraction st c fs =
    (if c = CHR ''e'' \<or> c = CHR ''E'' then Some (AfterE, fs) else end_value c fs)"

definition after_zero :: "char \<Rightarrow> json_frame list \<Rightarrow> json_scan" where
  "after_zero c fs = (if c = CHR ''.'' then Some (AfterDot, fs) else after_fraction AfterZero c fs)"

definition after_sign :: "char \<Rightarrow> json_frame list \<Rightarrow> json_scan" where
  "after_sign c fs = (if is_digit c then Some (AfterExponent, fs) else None)"

fun json_step :: "json_state \<Rightarrow> char \<Rightarrow> json_frame list \<Rightarrow> json_scan" where
  "json_step BeginValue c fs = begin_value c fs"
| "json_step BeginValueOrEmpty c fs =
    (if json_space c then Some (BeginValueOrEmpty, fs) else if c = CHR '']'' then end_value c fs else begin_value c fs)"
| "json_step BeginString c fs = begin_string c fs"
| "json_step BeginStringOrEmpty c fs =
    (if json_space c then Some (BeginStringOrEmpty, fs)
     else if c = CHR ''}'' then end_value c (ObjectValue # tl fs) else begin_string c fs)"
| "json_step EndValue c fs = end_value c fs"
| "json_step EndTop c fs = (if json_space c then Some (EndTop, fs) else None)"
| "json_step InString c fs =
    (if c = CHR 0x22 then Some (EndValue, fs) else if c = CHR 0x5C then Some (InEscape, fs)
     else if char_code c < 0x20 then None else Some (InString, fs))"
| "json_step InEscape c fs =
    (if c \<in> {CHR ''b'', CHR ''f'', CHR ''n'', CHR ''r'', CHR ''t'', CHR 0x5C, CHR ''/'', CHR 0x22} then Some (InString, fs)
     else if c = CHR ''u'' then Some (InEscapeU 3, fs) else None)"
| "json_step (InEscapeU k) c fs =
    (if unhex_digit c = None then None else Some (if k = 0 then InString else InEscapeU (k - 1), fs))"
| "json_step AfterMinus c fs =
    (if c = CHR ''0'' then Some (AfterZero, fs) else if is_digit c then Some (AfterDigit, fs) else None)"
| "json_step AfterDigit c fs = (if is_digit c then Some (AfterDigit, fs) else after_zero c fs)"
| "json_step AfterZero c fs = after_zero c fs"
| "json_step AfterDot c fs = (if is_digit c then Some (AfterFraction, fs) else None)"
| "json_step AfterFraction c fs =
    (if is_digit c then Some (AfterFraction, fs) else after_fraction AfterFraction c fs)"
| "json_step AfterE c fs = (if c = CHR ''+'' \<or> c = CHR ''-'' then Some (AfterESign, fs) else after_sign c fs)"
| "json_step AfterESign c fs = after_sign c fs"
| "json_step AfterExponent c fs = (if is_digit c then Some (AfterExponent, fs) else end_value c fs)"
| "json_step (InLiteral []) c fs = None"
| "json_step (InLiteral (x # xs)) c fs =
    (if c = x then Some (if xs = [] then EndValue else InLiteral xs, fs) else None)"

fun json_scan :: "json_state \<Rightarrow> json_frame list \<Rightarrow> string \<Rightarrow> json_scan" where
  "json_scan st fs [] = Some (st, fs)"
| "json_scan st fs (c # cs) = (case json_step st c fs of None \<Rightarrow> None | Some (st', fs') \<Rightarrow> json_scan st' fs' cs)"

text \<open>\<open>json.Valid\<close>; at the end of the text the scanner is given a space.\<close>

definition json_valid :: "string \<Rightarrow> bool" where
  "json_valid s = (case json_scan BeginValue [] (s @ '' '') of Some (EndTop, _) \<Rightarrow> True | _ \<Rightarrow> False)"

subsection \<open>Compaction\<close>

text \<open>
  Space outside strings goes; three characters and the two line separators are escaped, as in every
  text \<open>json.Marshal\<close> writes. The mode is that of the scanner, as far as it matters here; the number counts the
  bytes of a separator that are still to be passed over.
\<close>

datatype text_mode = Outside | Inside | Escaped

definition next_mode :: "text_mode \<Rightarrow> char \<Rightarrow> text_mode" where
  "next_mode m c =
    (case m of
       Outside \<Rightarrow> if c = CHR 0x22 then Inside else Outside
     | Inside \<Rightarrow> if c = CHR 0x22 then Outside else if c = CHR 0x5C then Escaped else Inside
     | Escaped \<Rightarrow> Inside)"

fun json_compact_from :: "text_mode \<Rightarrow> nat \<Rightarrow> string \<Rightarrow> string" where
  "json_compact_from m k [] = []"
| "json_compact_from m k (c # cs) =
    (if 0 < k then json_compact_from m (k - 1) cs
     else if c \<in> {CHR ''<'', CHR ''>'', CHR ''&''} then
       CHR 0x5C # ''u00'' @ [hex_digit (char_code c div 16), hex_digit (char_code c mod 16)] @ json_compact_from (next_mode m c) 0 cs
     else if c = CHR 0xE2 \<and> take 2 cs \<in> {[CHR 0x80, CHR 0xA8], [CHR 0x80, CHR 0xA9]} then
       CHR 0x5C # ''u202'' @ [hex_digit (char_code (cs ! 1) mod 16)] @ json_compact_from m 2 cs
     else if m = Outside \<and> json_space c then json_compact_from m 0 cs
     else c # json_compact_from (next_mode m c) 0 cs)"

definition json_compact :: "string \<Rightarrow> string" where
  "json_compact = json_compact_from Outside 0"

subsection \<open>Examples and texts that are valid\<close>

lemma json_valid_null: "json_valid ''null''"
  by (simp add: json_valid_def begin_value_def end_value_def json_space_def)

lemma json_compact_null: "json_compact ''null'' = ''null''"
  by (simp add: json_compact_def next_mode_def json_space_def)

end
