(* ===== verification/Nex_Store.thy ===== *)
theory Nex_Store
  imports Nex_Contract_Laws Json_Scan "HOL-Library.AList"
begin

text \<open>
  The durable store of contracts, \<open>nex/store.go\<close>. A file holds one encrypted record: the terms, the keys of
  the parties, the private checkpoint of the agreement and the operations that were applied. This theory has the
  records, \<open>restore\<close>, which rebuilds a contract from a record and trusts nothing of it. The
  operations and the laws are in the theories that follow.

  The text that \<open>encoding/json\<close> makes of a record is a parameter (\<open>codec\<close>); what marshalling and unmarshalling do to
  the fields is \<open>json_stored\<close>, and \<open>codec_ok\<close> says that the codec does that.
\<close>

subsection \<open>Records\<close>

definition storeHeader :: string where
  "storeHeader = ''NEXSTORE1''"

definition maxCheckpoint :: nat where
  "maxCheckpoint = 16 * 2 ^ 20"

record operation =
  op_id :: string
  op_command :: command

record op_result =
  or_contract :: string
  or_operation :: string
  or_head :: string
  or_status :: status

record contract_state =
  vs_id :: string
  vs_terms :: contract_terms
  vs_head :: string
  vs_status :: status
  vs_agreed :: bool
  vs_receipts :: "receipt list"

record committed =
  cm_operation :: operation
  cm_signature :: bytes
  cm_result :: op_result

text \<open>\<open>Operations\<close> is a map: the list of its entries, in an order that nothing may depend on, or \<open>None\<close> for \<open>nil\<close>.\<close>

record stored_contract =
  sc_version :: int
  sc_terms :: contract_terms
  sc_buyer :: public_key
  sc_seller :: public_key
  sc_agreed :: bool
  sc_checkpoint :: checkpoint_data
  sc_operations :: "(string \<times> committed) list option"

text \<open>The JSON text of an operation, which is what is signed.\<close>

definition operation_text :: "operation \<Rightarrow> string" where
  \<open>operation_text x = ''{"ID":'' @ json_str (op_id x) @ '',"Command":'' @ command_text (op_command x) @ ''}''\<close>

definition operation_verify :: "crypto \<Rightarrow> public_key \<Rightarrow> operation \<Rightarrow> bytes \<Rightarrow> go_error option" where
  "operation_verify C p x sig = nex_verify C p ''operation'' (operation_text x) sig"

text \<open>
  \<open>strings.TrimSpace(id) != id\<close>: the first or the last rune is white space. On a string that is not valid UTF-8 the
  caller fails anyway.
\<close>

definition space_rune :: "rune \<Rightarrow> bool" where
  "space_rune r \<longleftrightarrow> (case r of BadByte \<Rightarrow> False | Rune u \<Rightarrow>
     map char_code u \<in> {[0x09], [0x0A], [0x0B], [0x0C], [0x0D], [0x20], [0xC2, 0x85], [0xC2, 0xA0], [0xE1, 0x9A, 0x80],
       [0xE2, 0x80, 0xA8], [0xE2, 0x80, 0xA9], [0xE2, 0x80, 0xAF], [0xE2, 0x81, 0x9F], [0xE3, 0x80, 0x80]} \<or>
     (\<exists>k \<in> {0x80..0x8A}. map char_code u = [0xE2, 0x80, k]))"

definition outer_space :: "string \<Rightarrow> bool" where
  "outer_space s \<longleftrightarrow> runes s \<noteq> [] \<and> (space_rune (hd (runes s)) \<or> space_rune (last (runes s)))"

definition validate_operation_id :: "string \<Rightarrow> go_error option" where
  "validate_operation_id s =
    (if length s < 1 \<or> 128 < length s \<or> outer_space s \<or> \<not> utf8_valid s
     then Some (Errorf (''nex: operation ID must contain 1'' @ [CHR 0xE2, CHR 0x80, CHR 0x93] @ ''128 UTF-8 bytes without surrounding whitespace'') []) else None)"

subsection \<open>Restoring a contract\<close>

text \<open>\<open>Hash\<close> of terms as they were read: \<open>json.Marshal\<close> compacts the specification.\<close>

definition terms_hash :: "contract_terms \<Rightarrow> string" where
  "terms_hash t = nex_hash (terms_text (t\<lparr>ct_spec := json_compact (ct_spec t)\<rparr>))"

definition entry_ok :: "crypto \<Rightarrow> contract \<Rightarrow> string \<Rightarrow> committed \<Rightarrow> bool" where
  "entry_ok C c key m \<longleftrightarrow>
    \<not> (validate_operation_id key \<noteq> None \<or> op_id (cm_operation m) \<noteq> key \<or>
       cmd_terms (op_command (cm_operation m)) \<noteq> cn_terms c \<or> or_contract (cm_result m) \<noteq> cn_terms c \<or>
       or_operation (cm_result m) \<noteq> key \<or>
       operation_verify C (contract_signer c (cmd_action (op_command (cm_operation m)))) (cm_operation m) (cm_signature m) \<noteq> None)"

abbreviation op_head :: "committed \<Rightarrow> string" where
  "op_head m \<equiv> cmd_head (op_command (cm_operation m))"

text \<open>The index of the operations by the head they follow.\<close>

fun by_head :: "crypto \<Rightarrow> contract \<Rightarrow> (string \<times> committed) list \<Rightarrow> (string \<times> committed) list \<Rightarrow> (string \<times> committed) list option" where
  "by_head C c acc [] = Some acc"
| "by_head C c acc ((key, m) # xs) =
    (if \<not> entry_ok C c key m then None
     else if map_of acc (op_head m) \<noteq> None then None
     else by_head C c ((op_head m, m) # acc) xs)"

text \<open>
  The walk along the receipts. \<open>prev\<close> is the receipt before the ones that are left; every operation must account for
  the next one, a settlement for two.
\<close>

definition result_agrees :: "committed \<Rightarrow> receipt \<Rightarrow> status \<Rightarrow> bool" where
  "result_agrees m r st \<longleftrightarrow> \<not> (or_head (cm_result m) \<noteq> r_hash r \<or> or_status (cm_result m) \<noteq> st)"

fun restore_walk ::
  "party \<Rightarrow> party \<Rightarrow> (string \<Rightarrow> committed option) \<Rightarrow> receipt \<Rightarrow> receipt list \<Rightarrow> status \<Rightarrow> bool \<Rightarrow> nat \<Rightarrow> (status \<times> bool \<times> nat) option"
where
  "restore_walk b s look prev [] st g used = Some (st, g, used)"
| "restore_walk b s look prev (r # rs) st g used =
    (case look (r_hash prev) of
       None \<Rightarrow> None
     | Some m \<Rightarrow>
         let act = cmd_action (op_command (cm_operation m)) in
         if act = ''lock'' then
           (if st \<noteq> StatusOpen \<or> r_action r \<noteq> ''seal'' \<or> r_actor r \<noteq> b then None
            else if \<not> result_agrees m r StatusLocked then None
            else restore_walk b s look r rs StatusLocked g (used + 1))
         else if act = ''agree'' then
           (if st \<noteq> StatusLocked \<or> g \<or> r_action r \<noteq> ''evidence'' \<or> r_actor r \<noteq> s \<or>
               r_note r \<noteq> ''signed-consent:'' @ nex_hash (bytes_json (cm_signature m)) then None
            else if \<not> result_agrees m r st then None
            else restore_walk b s look r rs st True (used + 1))
         else if act = ''settle'' then
           (if st \<noteq> StatusLocked \<or> \<not> g \<or> r_action r \<noteq> ''evidence'' \<or> r_actor r \<noteq> b \<or>
               r_note r \<noteq> cmd_evidence (op_command (cm_operation m)) then None
            else case rs of
                [] \<Rightarrow> None
              | r' # rs' \<Rightarrow>
                  if r_action r' \<noteq> ''accept'' \<or> r_actor r' \<noteq> s then None
                  else if \<not> result_agrees m r' StatusAccepted then None
                  else restore_walk b s look r' rs' StatusAccepted g (used + 1))
         else if act = ''reject'' then
           (if st \<noteq> StatusLocked \<or> r_action r \<noteq> ''reject'' \<or> r_actor r \<noteq> s then None
            else if \<not> result_agrees m r StatusRejected then None
            else restore_walk b s look r rs StatusRejected g (used + 1))
         else if act = ''expire'' then
           (if (st \<noteq> StatusOpen \<and> st \<noteq> StatusLocked) \<or> r_action r \<noteq> ''expire'' \<or> r_actor r \<noteq> b then None
            else if \<not> result_agrees m r StatusExpired then None
            else restore_walk b s look r rs StatusExpired g (used + 1))
         else None)"

definition record_rejected :: "crypto \<Rightarrow> string \<Rightarrow> stored_contract \<Rightarrow> bool" where
  "record_rejected C cid r \<longleftrightarrow>
    sc_version r \<noteq> 1 \<or> public_validate C (sc_buyer r) \<noteq> None \<or> public_validate C (sc_seller r) \<noteq> None \<or>
    \<not> json_valid (ct_spec (sc_terms r)) \<or> terms_hash (sc_terms r) \<noteq> cid \<or> ct_buyer (sc_terms r) \<noteq> public_id (sc_buyer r) \<or>
    ct_seller (sc_terms r) \<noteq> public_id (sc_seller r) \<or> sc_operations r = None"

definition agreement_differs :: "string \<Rightarrow> contract_terms \<Rightarrow> agreement \<Rightarrow> bool" where
  "agreement_differs cid t a \<longleftrightarrow>
    ag_id a \<noteq> cid \<or> ag_kind a \<noteq> ct_kind t \<or> ag_buyer a \<noteq> ct_buyer t \<or> ag_seller a \<noteq> ct_seller t \<or>
    ag_amount a \<noteq> ct_amount t \<or> ag_created_at a \<noteq> ct_created t \<or> ag_deadline a \<noteq> ct_deadline t \<or> ag_sealed a = None"

definition contract_of :: "stored_contract \<Rightarrow> string \<Rightarrow> agreement \<Rightarrow> contract" where
  "contract_of r cid a = \<lparr>cn_agreement = a, cn_terms = cid, cn_buyer = sc_buyer r, cn_seller = sc_seller r,
     cn_agreed = sc_agreed r, cn_definition = sc_terms r\<rparr>"

definition restore :: "crypto \<Rightarrow> string \<Rightarrow> stored_contract \<Rightarrow> go_error + contract" where
  "restore C cid r =
    (if record_rejected C cid r then Inl ErrCorruptStore
     else case restore_private (sc_checkpoint r) of
       Inl e \<Rightarrow> Inl ErrCorruptStore
     | Inr a \<Rightarrow>
         if agreement_differs cid (sc_terms r) a then Inl ErrCorruptStore
         else let c = contract_of r cid a in
           (case by_head C c [] (the (sc_operations r)) of
              None \<Rightarrow> Inl ErrCorruptStore
            | Some idx \<Rightarrow>
                (case ag_receipts a of
                   r0 # r1 # rs \<Rightarrow>
                     if r_action r0 \<noteq> ''open'' \<or> r_action r1 \<noteq> ''deadline'' then Inl ErrCorruptStore
                     else (case restore_walk (ag_buyer a) (ag_seller a) (map_of idx) r1 rs StatusOpen False 0 of
                         None \<Rightarrow> Inl ErrCorruptStore
                       | Some (st, g, used) \<Rightarrow>
                           if used \<noteq> length (the (sc_operations r)) \<or> st \<noteq> ag_status a \<or> g \<noteq> sc_agreed r
                           then Inl ErrCorruptStore else Inr c)
                 | _ \<Rightarrow> Inl ErrCorruptStore)))"

end
