(* ===== verification/Store_Disk.thy ===== *)
theory Store_Disk
  imports Go_Std
begin

text \<open>
  The directory the store keeps its files in, and the system calls the store makes on it. A call can fail with
  an error or the process can die at it; after a power loss the directory may show, for every name, what it
  named when it was last synced or what it names now, and a file whose contents were never flushed can hold
  anything. So \<open>os.Rename\<close> is atomic and \<open>Sync\<close> makes contents and names durable, which is what the store relies on.
\<close>

subsection \<open>Calls with faults\<close>

text \<open>
  What a stage of an operation does; the hooks of the store's own tests are stages too. The number says how many bytes
  a call that writes had written when it failed or the process died in it.
\<close>

datatype fault = Works | Fails nat go_error | Kills nat

type_synonym faults = "string \<Rightarrow> fault"

text \<open>How an operation ends: it returns, it returns an error, or the process dies in it.\<close>

datatype 'a result = Returns 'a | Raises go_error | Dies

type_synonym ('s, 'a) io = "'s \<Rightarrow> 's \<times> 'a result"

definition io_return :: "'a \<Rightarrow> ('s, 'a) io" where
  "io_return v s = (s, Returns v)"

definition io_raise :: "go_error \<Rightarrow> ('s, 'a) io" where
  "io_raise e s = (s, Raises e)"

definition io_bind :: "('s, 'a) io \<Rightarrow> ('a \<Rightarrow> ('s, 'b) io) \<Rightarrow> ('s, 'b) io" where
  "io_bind m k s = (case m s of (s', Returns v) \<Rightarrow> k v s' | (s', Raises e) \<Rightarrow> (s', Raises e) | (s', Dies) \<Rightarrow> (s', Dies))"

text \<open>\<open>fmt.Errorf\<close> around an error, and a deferred call, which a dying process does not make and whose error is dropped.\<close>

definition io_wrap :: "(go_error \<Rightarrow> go_error) \<Rightarrow> ('s, 'a) io \<Rightarrow> ('s, 'a) io" where
  "io_wrap f m s = (case m s of (s', Raises e) \<Rightarrow> (s', Raises (f e)) | out \<Rightarrow> out)"

definition io_defer :: "('s, unit) io \<Rightarrow> ('s, 'a) io \<Rightarrow> ('s, 'a) io" where
  "io_defer fin m s =
    (case m s of
       (s', Dies) \<Rightarrow> (s', Dies)
     | (s', r) \<Rightarrow> (case fin s' of (s'', Dies) \<Rightarrow> (s'', Dies) | (s'', _) \<Rightarrow> (s'', r)))"

text \<open>
  One call: its effect when it works, none otherwise. \<open>sys_get\<close> is a call that only looks, and \<open>sys_part\<close> one with an
  effect up to the point where it fails.
\<close>

definition sys :: "faults \<Rightarrow> string \<Rightarrow> ('s \<Rightarrow> 's) \<Rightarrow> ('s, unit) io" where
  "sys flt stage eff s = (case flt stage of Works \<Rightarrow> (eff s, Returns ()) | Fails n e \<Rightarrow> (s, Raises e) | Kills n \<Rightarrow> (s, Dies))"

definition sys_get :: "faults \<Rightarrow> string \<Rightarrow> ('s \<Rightarrow> 'a) \<Rightarrow> ('s, 'a) io" where
  "sys_get flt stage look s = (case flt stage of Works \<Rightarrow> (s, Returns (look s)) | Fails n e \<Rightarrow> (s, Raises e) | Kills n \<Rightarrow> (s, Dies))"

definition sys_part :: "faults \<Rightarrow> string \<Rightarrow> (nat option \<Rightarrow> 's \<Rightarrow> 's) \<Rightarrow> ('s, unit) io" where
  "sys_part flt stage eff s =
    (case flt stage of Works \<Rightarrow> (eff None s, Returns ()) | Fails n e \<Rightarrow> (eff (Some n) s, Raises e) | Kills n \<Rightarrow> (eff (Some n) s, Dies))"

definition no_faults :: faults where
  "no_faults stage = Works"

text \<open>The value of an operation, for running it when nothing fails.\<close>

named_theorems io_simps \<open>the combinators and calls of operations\<close>

lemmas [io_simps] = io_return_def io_raise_def io_bind_def io_wrap_def io_defer_def sys_def sys_get_def sys_part_def no_faults_def

lemma io_bindE:
  assumes "io_bind m k s = (t, r)"
  obtains (stops) r' where "m s = (t, r')" "\<And>v. r' \<noteq> Returns v" "\<And>v. r \<noteq> Returns v" "r = Dies \<longleftrightarrow> r' = Dies"
      "\<And>e. r = Raises e \<longleftrightarrow> r' = Raises e"
  | (goes) s' v where "m s = (s', Returns v)" "k v s' = (t, r)"
proof (cases "m s")
  case (Pair s' r')
  then show ?thesis using assms stops [of r'] goes [of s'] by (cases r') (auto simp: io_bind_def)
qed

lemma io_wrapE:
  assumes "io_wrap f m s = (t, r)"
  obtains (fails) e where "m s = (t, Raises e)" "r = Raises (f e)" | (same) "m s = (t, r)" "\<And>e. r \<noteq> Raises e"
proof (cases "m s")
  case (Pair s' r')
  then show ?thesis using assms fails same by (cases r') (auto simp: io_wrap_def)
qed

lemma sysE:
  assumes "sys flt stage eff s = (t, r)"
  obtains (works) "flt stage = Works" "t = eff s" "r = Returns ()"
  | (fails) n e where "flt stage = Fails n e" "t = s" "r = Raises e"
  | (kills) n where "flt stage = Kills n" "t = s" "r = Dies"
  using assms by (cases "flt stage") (auto simp: sys_def)

lemma sys_getE:
  assumes "sys_get flt stage look s = (t, r)"
  obtains (works) "flt stage = Works" "t = s" "r = Returns (look s)"
  | (fails) n e where "flt stage = Fails n e" "t = s" "r = Raises e"
  | (kills) n where "flt stage = Kills n" "t = s" "r = Dies"
  using assms by (cases "flt stage") (auto simp: sys_get_def)

lemma sys_partE:
  assumes "sys_part flt stage eff s = (t, r)"
  obtains (works) "flt stage = Works" "t = eff None s" "r = Returns ()"
  | (fails) n e where "flt stage = Fails n e" "t = eff (Some n) s" "r = Raises e"
  | (kills) n where "flt stage = Kills n" "t = eff (Some n) s" "r = Dies"
  using assms by (cases "flt stage") (auto simp: sys_part_def)

lemma io_deferE:
  assumes "io_defer fin m s = (t, r)"
  obtains (dies) "m s = (t, Dies)" "r = Dies"
  | (cleanup) s' r' f where "m s = (s', r')" "r' \<noteq> Dies" "fin s' = (t, f)" "r = (if f = Dies then Dies else r')"
proof (cases "m s")
  case (Pair s' r')
  show ?thesis
  proof (cases "r' = Dies")
    case True
    then show ?thesis using assms Pair dies by (simp add: io_defer_def)
  next
    case False
    obtain t' f where f: "fin s' = (t', f)" by fastforce
    have "t' = t \<and> r = (if f = Dies then Dies else r')"
      using assms Pair False f by (cases r'; cases f) (auto simp: io_defer_def)
    then show ?thesis using Pair False f cleanup by blast
  qed
qed

subsection \<open>The directory\<close>

text \<open>A file is its contents and whether they have been flushed.\<close>

type_synonym disk_file = "bytes \<times> bool"

record disk =
  dk_live :: "string \<Rightarrow> disk_file option"
  dk_kept :: "string \<Rightarrow> disk_file option"

definition put_file :: "string \<Rightarrow> disk_file option \<Rightarrow> disk \<Rightarrow> disk" where
  "put_file p f d = d\<lparr>dk_live := (dk_live d)(p := f)\<rparr>"

text \<open>Writing data to a new file: all of it, or its first bytes when the write stops there.\<close>

definition write_file :: "string \<Rightarrow> bytes \<Rightarrow> nat option \<Rightarrow> disk \<Rightarrow> disk" where
  "write_file p data stop = put_file p (Some (case stop of None \<Rightarrow> data | Some n \<Rightarrow> take n data, False))"

definition flush_file :: "string \<Rightarrow> disk \<Rightarrow> disk" where
  "flush_file p d = (case dk_live d p of None \<Rightarrow> d | Some (b, _) \<Rightarrow> put_file p (Some (b, True)) d)"

definition rename_file :: "string \<Rightarrow> string \<Rightarrow> disk \<Rightarrow> disk" where
  "rename_file p q d = d\<lparr>dk_live := (dk_live d)(q := dk_live d p, p := None)\<rparr>"

definition keep_names :: "disk \<Rightarrow> disk" where
  "keep_names d = d\<lparr>dk_kept := dk_live d\<rparr>"

definition empty_disk :: disk where
  "empty_disk = \<lparr>dk_live = (\<lambda>p. None), dk_kept = (\<lambda>p. None)\<rparr>"

lemma file_effects [simp]:
  "dk_live (put_file p f d) q = (if q = p then f else dk_live d q)" "dk_kept (put_file p f d) = dk_kept d"
  "dk_live (rename_file p q d) x = (if x = p then None else if x = q then dk_live d p else dk_live d x)"
  "dk_kept (rename_file p q d) = dk_kept d"
  "dk_live (keep_names d) = dk_live d" "dk_kept (keep_names d) = dk_live d"
  by (simp_all add: put_file_def rename_file_def keep_names_def)

lemma flush_effects [simp]:
  "dk_live (flush_file p d) q = (if q = p then map_option (\<lambda>f. (fst f, True)) (dk_live d p) else dk_live d q)"
  "dk_kept (flush_file p d) = dk_kept d"
  by (auto simp: flush_file_def split: option.splits)

text \<open>What may be left of a file, and of the directory, after a power loss.\<close>

definition left_of :: "disk_file option \<Rightarrow> disk_file option \<Rightarrow> bool" where
  "left_of f g \<longleftrightarrow> (case f of None \<Rightarrow> g = None | Some (b, flushed) \<Rightarrow> (\<exists>b' x. g = Some (b', x) \<and> (flushed \<longrightarrow> b' = b \<and> x)))"

definition power_loss :: "disk \<Rightarrow> disk \<Rightarrow> bool" where
  "power_loss d d' \<longleftrightarrow> dk_kept d' = dk_live d' \<and> (\<forall>p. left_of (dk_live d p) (dk_live d' p) \<or> left_of (dk_kept d p) (dk_live d' p))"

end
