(* ===== verification/Nex_Store_Ops.thy ===== *)
theory Nex_Store_Ops
  imports Nex_Store Store_Disk "HOL-Library.Multiset"
begin

text \<open>
  The operations of the store, \<open>nex/store.go\<close>: \<open>OpenStore\<close>, \<open>Create\<close>, \<open>View\<close>, \<open>Prepare\<close> and \<open>Apply\<close>, with the locking,
  reading and writing beneath them, on the directory of \<open>Store_Disk\<close>. The nonce and the suffix of the temporary
  file are arguments. The lock of a contract makes its operations follow one another, also those of other
  processes, so an operation is one step here; operations on different contracts touch different files.
\<close>

subsection \<open>The codec of records\<close>

record codec =
  cd_marshal :: "stored_contract \<Rightarrow> go_error + bytes"
  cd_unmarshal :: "bytes \<Rightarrow> stored_contract option"

text \<open>What a record becomes when it is marshalled and read back; \<open>Inl\<close> when \<open>json.Marshal\<close> fails.\<close>

definition json_terms :: "contract_terms \<Rightarrow> contract_terms" where
  "json_terms t = t\<lparr>ct_kind := json_string (ct_kind t), ct_buyer := json_string (ct_buyer t),
     ct_seller := json_string (ct_seller t), ct_spec := json_compact (ct_spec t)\<rparr>"

definition json_command :: "command \<Rightarrow> command" where
  "json_command c = \<lparr>cmd_terms = json_string (cmd_terms c), cmd_head = json_string (cmd_head c),
     cmd_action = json_string (cmd_action c), cmd_evidence = json_string (cmd_evidence c)\<rparr>"

definition json_result :: "op_result \<Rightarrow> op_result" where
  "json_result x = \<lparr>or_contract = json_string (or_contract x), or_operation = json_string (or_operation x),
     or_head = json_string (or_head x), or_status = json_status (or_status x)\<rparr>"

definition json_committed :: "committed \<Rightarrow> committed" where
  "json_committed m = m\<lparr>cm_operation := \<lparr>op_id = json_string (op_id (cm_operation m)),
     op_command = json_command (op_command (cm_operation m))\<rparr>, cm_result := json_result (cm_result m)\<rparr>"

definition json_checkpoint :: "checkpoint_data \<Rightarrow> go_error + checkpoint_data" where
  "json_checkpoint s =
    (case pc_agreement s of
       None \<Rightarrow> Inr s
     | Some a \<Rightarrow> try_bind (json_copy a) (\<lambda>a. Inr (s\<lparr>pc_agreement := Some a\<rparr>)))"

definition json_stored :: "stored_contract \<Rightarrow> go_error + stored_contract" where
  "json_stored r =
    (if \<not> json_valid (ct_spec (sc_terms r)) then Inl (Errorf ''json: error calling MarshalJSON'' [])
     else if \<not> json_year_ok (ct_created (sc_terms r)) \<or> \<not> json_year_ok (ct_deadline (sc_terms r))
       then Inl (Errorf ''Time.MarshalJSON: year outside of range [0,9999]'' [])
     else try_bind (json_checkpoint (sc_checkpoint r)) (\<lambda>k.
       Inr (r\<lparr>sc_terms := json_terms (sc_terms r), sc_checkpoint := k,
         sc_operations := map_option (map (\<lambda>(key, m). (json_string key, json_committed m))) (sc_operations r)\<rparr>)))"

text \<open>Two records that differ in the order of the entries of the map only, which is no difference in Go.\<close>

definition same_stored :: "stored_contract \<Rightarrow> stored_contract \<Rightarrow> bool" where
  "same_stored r r' \<longleftrightarrow> (\<exists>xs. r' = r\<lparr>sc_operations := xs\<rparr> \<and> map_option mset xs = map_option mset (sc_operations r))"

definition codec_ok :: "codec \<Rightarrow> bool" where
  "codec_ok K \<longleftrightarrow> (\<forall>r b. cd_marshal K r = Inr b \<longrightarrow>
     (\<exists>r1 r2. json_stored r = Inr r1 \<and> cd_unmarshal K b = Some r2 \<and> same_stored r1 r2))"

subsection \<open>Opening a directory\<close>

record store =
  st_key :: bytes

record dir_info =
  di_is_dir :: bool
  di_symlink :: bool
  di_perm :: "9 word"

definition sync_parent :: "faults \<Rightarrow> ('s, unit) io" where
  "sync_parent flt = io_bind (sys flt ''open-parent'' id) (\<lambda>_. sys flt ''sync-parent'' id)"

text \<open>The state is what there is at the path; \<open>os.Mkdir\<close> fails with \<open>ErrExist\<close> when there is something, which is fine.\<close>

definition open_store :: "faults \<Rightarrow> bytes \<Rightarrow> (dir_info option, store) io" where
  "open_store flt key =
    (if length key \<noteq> 32 then io_raise (Errorf ''nex: storage key must be 32 random bytes'' [])
     else io_bind (sys flt ''abs'' id) (\<lambda>_.
       io_bind (sys_get flt ''mkdir'' (\<lambda>d. d \<noteq> None)) (\<lambda>exists.
       io_bind (if exists then io_return ()
                else sys flt ''mkdir'' (\<lambda>_. Some \<lparr>di_is_dir = True, di_symlink = False, di_perm = 0x1C0\<rparr>)) (\<lambda>_.
       io_bind (sys_get flt ''lstat'' the) (\<lambda>info.
         if \<not> di_is_dir info \<or> di_symlink info \<or> and (di_perm info) 0x3F \<noteq> 0
         then io_raise (Errorf ''nex: store directory must be private (0700), without a symlink'' [])
         else io_bind (sync_parent flt) (\<lambda>_. io_return \<lparr>st_key = key\<rparr>))))))"

subsection \<open>Files\<close>

definition nex_path :: "string \<Rightarrow> string" where
  "nex_path cid = cid @ ''.nex''"

definition lock_path :: "string \<Rightarrow> string" where
  "lock_path cid = cid @ ''.lock''"

definition pending_path :: "string \<Rightarrow> string" where
  "pending_path suffix = ''.pending-'' @ suffix"

definition bound_data :: "string \<Rightarrow> bytes" where
  "bound_data cid = bytes_of (storeHeader @ ''/'' @ cid)"

text \<open>The contents of a file, and what reading them gives.\<close>

definition file_image :: "crypto \<Rightarrow> store \<Rightarrow> string \<Rightarrow> bytes \<Rightarrow> bytes \<Rightarrow> bytes" where
  "file_image C s cid nonce plain = bytes_of storeHeader @ nonce @ cr_gcm_seal C (st_key s) nonce plain (bound_data cid)"

definition decode_file :: "crypto \<Rightarrow> codec \<Rightarrow> store \<Rightarrow> string \<Rightarrow> bytes \<Rightarrow> go_error + stored_contract \<times> contract" where
  "decode_file C K s cid data =
    (let h = length storeHeader; n = 12 in
     if maxCheckpoint < length data \<or> length data < h + n + 16 then Inl ErrCorruptStore
     else if take h data \<noteq> bytes_of storeHeader then Inl ErrStoreVersion
     else case cr_gcm_open C (st_key s) (take n (drop h data)) (drop (h + n) data) (bound_data cid) of
       None \<Rightarrow> Inl ErrCorruptStore
     | Some plain \<Rightarrow>
         (case cd_unmarshal K plain of
            None \<Rightarrow> Inl ErrCorruptStore
          | Some r \<Rightarrow>
              if sc_version r \<noteq> 1 then Inl ErrStoreVersion
              else (case restore C cid r of Inl e \<Rightarrow> Inl e | Inr c \<Rightarrow> Inr (r, c))))"

definition sync_directory :: "faults \<Rightarrow> (disk, unit) io" where
  "sync_directory flt = io_bind (sys flt ''open-dir'' id) (\<lambda>_. sys flt ''sync-dir'' keep_names)"

definition with_lock :: "faults \<Rightarrow> string \<Rightarrow> (disk, 'a) io \<Rightarrow> (disk, 'a) io" where
  "with_lock flt cid m =
    (if \<not> valid_id cid then io_raise (Errorf ''nex: invalid contract ID'' [])
     else io_bind (sys flt ''open-lock'' (\<lambda>d. if dk_live d (lock_path cid) = None then put_file (lock_path cid) (Some ([], False)) d else d)) (\<lambda>_.
       io_bind (sys flt ''lock'' id) (\<lambda>_. m)))"

definition store_read :: "crypto \<Rightarrow> codec \<Rightarrow> store \<Rightarrow> faults \<Rightarrow> string \<Rightarrow> (disk, stored_contract \<times> contract) io" where
  "store_read C K s flt cid =
    io_bind (sys_get flt ''open'' (\<lambda>d. dk_live d (nex_path cid))) (\<lambda>f.
      case f of
        None \<Rightarrow> io_raise ErrNotFound
      | Some (data, _) \<Rightarrow>
          io_bind (sys flt ''read'' id) (\<lambda>_.
            case decode_file C K s cid data of Inl e \<Rightarrow> io_raise e | Inr rc \<Rightarrow> io_return rc))"

abbreviation uncertain :: "go_error \<Rightarrow> go_error" where
  "uncertain e \<equiv> Wrapf ''%w: %v'' [] ErrCommitUncertain"

text \<open>\<open>write\<close>; the part after \<open>os.CreateTemp\<close> runs under the deferred \<open>os.Remove\<close> of the temporary file.\<close>

definition fill_pending :: "faults \<Rightarrow> string \<Rightarrow> bytes \<Rightarrow> (disk, unit) io" where
  "fill_pending flt p data =
    io_bind (sys_part flt ''write'' (write_file p data)) (\<lambda>_.
    io_bind (sys flt ''after-write'' id) (\<lambda>_.
    io_bind (sys flt ''sync'' (flush_file p)) (\<lambda>_.
    io_bind (sys flt ''close'' id) (\<lambda>_.
      sys flt ''before-rename'' id))))"

definition confirm :: "faults \<Rightarrow> (disk, unit) io" where
  "confirm flt =
    io_bind (io_wrap uncertain (sys flt ''after-rename'' id)) (\<lambda>_.
    io_bind (io_wrap uncertain (sync_directory flt)) (\<lambda>_.
      io_wrap uncertain (sys flt ''after-sync'' id)))"

definition store_write ::
  "crypto \<Rightarrow> codec \<Rightarrow> store \<Rightarrow> faults \<Rightarrow> bytes \<Rightarrow> string \<Rightarrow> string \<Rightarrow> stored_contract \<Rightarrow> (disk, unit) io" where
  "store_write C K s flt nonce suffix cid r =
    (case cd_marshal K r of
       Inl e \<Rightarrow> io_raise e
     | Inr plain \<Rightarrow>
         io_bind (sys flt ''nonce'' id) (\<lambda>_.
           let data = file_image C s cid nonce plain; p = pending_path suffix in
           if maxCheckpoint < length data then io_raise (Errorf ''nex: checkpoint size limit exceeded'' [])
           else io_bind (sys flt ''create-temp'' (put_file p (Some ([], False)))) (\<lambda>_.
             io_defer (sys flt ''remove-temp'' (put_file p None))
               (io_bind (fill_pending flt p data) (\<lambda>_.
                io_bind (sys flt ''rename'' (rename_file p (nex_path cid))) (\<lambda>_.
                  confirm flt))))))"

subsection \<open>The operations\<close>

definition created_record :: "contract \<Rightarrow> stored_contract" where
  "created_record c = \<lparr>sc_version = 1, sc_terms = cn_definition c, sc_buyer = cn_buyer c, sc_seller = cn_seller c,
     sc_agreed = False, sc_checkpoint = private_checkpoint (cn_agreement c), sc_operations = Some []\<rparr>"

definition store_create ::
  "crypto \<Rightarrow> codec \<Rightarrow> store \<Rightarrow> faults \<Rightarrow> bytes \<Rightarrow> string \<Rightarrow> contract \<Rightarrow> (disk, unit) io" where
  "store_create C K s flt nonce suffix c =
    (if contract_status c \<noteq> StatusOpen \<or> cn_agreed c \<or> length (ag_receipts (cn_agreement c)) \<noteq> 2 \<or>
        ag_sealed (cn_agreement c) = None
     then io_raise (Errorf ''nex: Create requires a new, unused contract'' [])
     else with_lock flt (cn_terms c)
       (io_bind (sys_get flt ''stat'' (\<lambda>d. dk_live d (nex_path (cn_terms c)) \<noteq> None)) (\<lambda>exists.
          if exists then io_raise ErrExists
          else case restore C (cn_terms c) (created_record c) of
            Inl e \<Rightarrow> io_raise e
          | Inr _ \<Rightarrow> store_write C K s flt nonce suffix (cn_terms c) (created_record c))))"

definition store_view :: "crypto \<Rightarrow> codec \<Rightarrow> store \<Rightarrow> faults \<Rightarrow> string \<Rightarrow> (disk, contract_state) io" where
  "store_view C K s flt cid =
    with_lock flt cid
      (io_bind (store_read C K s flt cid) (\<lambda>(r, c).
       io_bind (io_wrap uncertain (sync_directory flt)) (\<lambda>_.
         io_return \<lparr>vs_id = cid, vs_terms = sc_terms r, vs_head = contract_head c, vs_status = contract_status c,
           vs_agreed = cn_agreed c, vs_receipts = ag_receipts (cn_agreement c)\<rparr>)))"

definition store_prepare ::
  "crypto \<Rightarrow> codec \<Rightarrow> store \<Rightarrow> faults \<Rightarrow> string \<Rightarrow> string \<Rightarrow> string \<Rightarrow> string \<Rightarrow> (disk, operation) io" where
  "store_prepare C K s flt cid opid action evidence =
    (case validate_operation_id opid of
       Some e \<Rightarrow> io_raise e
     | None \<Rightarrow>
         io_bind (store_view C K s flt cid) (\<lambda>v.
           io_return \<lparr>op_id = opid, op_command = \<lparr>cmd_terms = cid, cmd_head = vs_head v, cmd_action = action,
             cmd_evidence = evidence\<rparr>\<rparr>))"

definition operation_bad :: "operation \<Rightarrow> bool" where
  "operation_bad x \<longleftrightarrow>
    64 * 2 ^ 10 < length (cmd_evidence (op_command x)) \<or> 32 < length (cmd_action (op_command x)) \<or>
    \<not> utf8_valid (cmd_evidence (op_command x)) \<or> \<not> utf8_valid (cmd_action (op_command x))"

definition result_of :: "string \<Rightarrow> operation \<Rightarrow> contract \<Rightarrow> op_result" where
  "result_of cid x c = \<lparr>or_contract = cid, or_operation = op_id x, or_head = contract_head c, or_status = contract_status c\<rparr>"

definition applied_record :: "stored_contract \<Rightarrow> string \<Rightarrow> operation \<Rightarrow> bytes \<Rightarrow> contract \<Rightarrow> stored_contract" where
  "applied_record r cid x sig c = r\<lparr>sc_agreed := cn_agreed c, sc_checkpoint := private_checkpoint (cn_agreement c),
     sc_operations := Some (AList.update (op_id x) \<lparr>cm_operation = x, cm_signature = sig, cm_result = result_of cid x c\<rparr>
       (the (sc_operations r)))\<rparr>"

definition store_apply ::
  "crypto \<Rightarrow> codec \<Rightarrow> proof_decoder \<Rightarrow> store \<Rightarrow> faults \<Rightarrow> bytes \<Rightarrow> string \<Rightarrow> randomness \<Rightarrow>
   string \<Rightarrow> operation \<Rightarrow> bytes \<Rightarrow> go_time \<Rightarrow> (disk, op_result) io" where
  "store_apply C K dec s flt nonce suffix rnd cid x sig now =
    (case validate_operation_id (op_id x) of
       Some e \<Rightarrow> io_raise e
     | None \<Rightarrow>
         if operation_bad x then io_raise (Errorf ''nex: operation too large'' [])
         else with_lock flt cid
           (io_bind (store_read C K s flt cid) (\<lambda>(r, c).
              if cmd_terms (op_command x) \<noteq> cid then io_raise (Errorf ''nex: foreign operation'' [])
              else case operation_verify C (contract_signer c (cmd_action (op_command x))) x sig of
                Some e \<Rightarrow> io_raise e
              | None \<Rightarrow>
                  (case map_of (the (sc_operations r)) (op_id x) of
                     Some prior \<Rightarrow>
                       if cm_operation prior \<noteq> x then io_raise ErrOperationConflict
                       else io_bind (io_wrap uncertain (sync_directory flt)) (\<lambda>_. io_return (cm_result prior))
                   | None \<Rightarrow>
                       (case apply_verified dec rnd c (op_command x) sig now of
                          (_, Some e) \<Rightarrow> io_raise e
                        | (c', None) \<Rightarrow>
                            io_bind (store_write C K s flt nonce suffix cid (applied_record r cid x sig c')) (\<lambda>_.
                              io_return (result_of cid x c')))))))"

end
