(* ===== verification/Nex_Store_Restore.thy ===== *)
theory Nex_Store_Restore
  imports Nex_Store_Ops
begin

text \<open>
  What \<open>restore\<close> accepts and when it accepts: the walk along the receipts succeeds exactly on the tales of
  \<open>Nex_Contract\<close>, told by the committed operations.
\<close>

definition commit_entry :: "committed \<Rightarrow> entry" where
  "commit_entry m = \<lparr>en_command = op_command (cm_operation m), en_signature = cm_signature m,
     en_head = or_head (cm_result m), en_status = or_status (cm_result m)\<rparr>"

lemma commit_entry_fields [simp]:
  "en_command (commit_entry m) = op_command (cm_operation m)" "en_signature (commit_entry m) = cm_signature m"
  "en_head (commit_entry m) = or_head (cm_result m)" "en_status (commit_entry m) = or_status (cm_result m)"
  by (simp_all add: commit_entry_def)

subsection \<open>The walk\<close>

lemma walk_consE:
  assumes "restore_walk b s look prev (r # rs) st g u = Some res"
  obtains (one) m act st' g' where "look (r_hash prev) = Some m" "cmd_action (op_command (cm_operation m)) = act"
      "result_agrees m r st'" "restore_walk b s look r rs st' g' (u + 1) = Some res"
      "act = ''lock'' \<and> st = StatusOpen \<and> r_action r = ''seal'' \<and> r_actor r = b \<and> st' = StatusLocked \<and> g' = g \<or>
       act = ''agree'' \<and> st = StatusLocked \<and> \<not> g \<and> r_action r = ''evidence'' \<and> r_actor r = s \<and> st' = StatusLocked \<and> g' \<and>
         r_note r = ''signed-consent:'' @ nex_hash (bytes_json (cm_signature m)) \<or>
       act = ''reject'' \<and> st = StatusLocked \<and> r_action r = ''reject'' \<and> r_actor r = s \<and> st' = StatusRejected \<and> g' = g \<or>
       act = ''expire'' \<and> (st = StatusOpen \<or> st = StatusLocked) \<and> r_action r = ''expire'' \<and> r_actor r = b \<and>
         st' = StatusExpired \<and> g' = g"
  | (settle) m r' rs' where "look (r_hash prev) = Some m" "cmd_action (op_command (cm_operation m)) = ''settle''"
      "st = StatusLocked" g "r_action r = ''evidence''" "r_actor r = b" "r_note r = cmd_evidence (op_command (cm_operation m))"
      "rs = r' # rs'" "r_action r' = ''accept''" "r_actor r' = s" "result_agrees m r' StatusAccepted"
      "restore_walk b s look r' rs' StatusAccepted g (u + 1) = Some res"
proof -
  obtain m where m: "look (r_hash prev) = Some m" using assms by (auto split: option.splits)
  let ?act = "cmd_action (op_command (cm_operation m))"
  have "?act \<in> {''lock'', ''agree'', ''settle'', ''reject'', ''expire''}"
    using assms m by (auto simp: Let_def split: if_splits)
  then consider (lock) "?act = ''lock''" | (agree) "?act = ''agree''" | (settle) "?act = ''settle''"
    | (reject) "?act = ''reject''" | (expire) "?act = ''expire''" by blast
  then show thesis
  proof cases
    case settle
    with assms m that(2) show ?thesis by (auto split: if_splits list.splits)
  next
    case lock
    with assms m that(1) [of m "?act" StatusLocked g] show ?thesis by (auto split: if_splits)
  next
    case agree
    with assms m that(1) [of m "?act" StatusLocked True] show ?thesis by (auto split: if_splits)
  next
    case reject
    with assms m that(1) [of m "?act" StatusRejected g] show ?thesis by (auto split: if_splits)
  next
    case expire
    with assms m that(1) [of m "?act" StatusExpired g] show ?thesis by (auto split: if_splits)
  qed
qed

lemma walk_append:
  "restore_walk b s look p rs st g u = Some (st', g', u') \<Longrightarrow>
   restore_walk b s look p (rs @ qs) st g u = restore_walk b s look (last (p # rs)) qs st' g' u'"
proof (induction "length rs" arbitrary: p rs st g u rule: less_induct)
  case less
  show ?case
  proof (cases rs)
    case Nil
    with less.prems show ?thesis by simp
  next
    case (Cons r rs1)
    from less.prems [unfolded Cons] show ?thesis
    proof (cases rule: walk_consE)
      case (one m act st1 g1)
      then have "restore_walk b s look r (rs1 @ qs) st1 g1 (u + 1) = restore_walk b s look (last (r # rs1)) qs st' g' u'"
        using less.hyps [of rs1 r st1 g1 "u + 1"] Cons by simp
      with one Cons show ?thesis by (elim disjE) (auto simp: Let_def)
    next
      case (settle m r' rs')
      then have "restore_walk b s look r' (rs' @ qs) StatusAccepted g (u + 1) = restore_walk b s look (last (r' # rs')) qs st' g' u'"
        using less.hyps [of rs' r' StatusAccepted g "u + 1"] Cons by simp
      with settle Cons show ?thesis by (simp add: Let_def)
    qed
  qed
qed

lemma tale_one:
  assumes "tale b s es rs st g" "follows (commit_entry m) rs act [r] st'"
    and "act = ''lock'' \<and> st = StatusOpen \<and> r_action r = ''seal'' \<and> r_actor r = b \<and> st' = StatusLocked \<and> g' = g \<or>
       act = ''agree'' \<and> st = StatusLocked \<and> \<not> g \<and> r_action r = ''evidence'' \<and> r_actor r = s \<and> st' = StatusLocked \<and> g' \<and>
         r_note r = ''signed-consent:'' @ nex_hash (bytes_json (cm_signature m)) \<or>
       act = ''reject'' \<and> st = StatusLocked \<and> r_action r = ''reject'' \<and> r_actor r = s \<and> st' = StatusRejected \<and> g' = g \<or>
       act = ''expire'' \<and> (st = StatusOpen \<or> st = StatusLocked) \<and> r_action r = ''expire'' \<and> r_actor r = b \<and>
         st' = StatusExpired \<and> g' = g"
  shows "tale b s (es @ [commit_entry m]) (rs @ [r]) st' g'"
  using assms(3)
proof (elim disjE)
  assume a: "act = ''agree'' \<and> st = StatusLocked \<and> \<not> g \<and> r_action r = ''evidence'' \<and> r_actor r = s \<and> st' = StatusLocked \<and> g' \<and>
         r_note r = ''signed-consent:'' @ nex_hash (bytes_json (cm_signature m))"
  with assms(1, 2) show ?thesis using tale.agree [of b s es rs r "commit_entry m"] by simp
qed (use assms(1, 2) in \<open>auto intro: tale.lock tale.reject tale.expire\<close>)

lemma walk_sound:
  assumes "restore_walk b s look prev rs st g u = Some (st', g', u')" "tale b s es (pre @ [prev]) st g"
    and look: "\<And>h m. look h = Some m \<Longrightarrow> op_head m = h"
  shows "\<exists>fs. tale b s (es @ fs) (pre @ prev # rs) st' g' \<and> u' = u + length fs \<and>
    (\<forall>e \<in> set fs. \<exists>h m. look h = Some m \<and> e = commit_entry m)"
  using assms(1, 2)
proof (induction "length rs" arbitrary: prev rs st g u es pre rule: less_induct)
  case less
  show ?case
  proof (cases rs)
    case Nil
    with less.prems show ?thesis by (auto intro: exI [of _ "[]"])
  next
    case (Cons r rs1)
    have step: ?thesis if "tale b s (es @ [commit_entry m]) (pre @ prev # qs @ [q]) st1 g1" "look h = Some m"
        "restore_walk b s look q rs2 st1 g1 (u + 1) = Some (st', g', u')" "rs = qs @ q # rs2" for m qs q rs2 st1 g1 h
    proof -
      have "length rs2 < length rs" using that(4) by simp
      from less.hyps [OF this that(3), of "es @ [commit_entry m]" "pre @ prev # qs"] that obtain fs where
        "tale b s ((es @ [commit_entry m]) @ fs) (pre @ prev # rs) st' g'" "u' = u + 1 + length fs"
        "\<forall>e \<in> set fs. \<exists>h m. look h = Some m \<and> e = commit_entry m" by auto
      then show ?thesis using that(2) by (intro exI [of _ "commit_entry m # fs"]) auto
    qed
    from less.prems(1) [unfolded Cons] show ?thesis
    proof (cases rule: walk_consE)
      case (one m act st1 g1)
      have f: "follows (commit_entry m) (pre @ [prev]) act [r] st1"
        using one(1-3) look by (simp add: follows_def result_agrees_def)
      have "tale b s (es @ [commit_entry m]) ((pre @ [prev]) @ [r]) st1 g1"
        by (rule tale_one [OF less.prems(2) f one(5)])
      then show ?thesis using step [of m "[]" r st1 g1 _ rs1] one Cons by simp
    next
      case (settle m r' rs')
      have f: "follows (commit_entry m) (pre @ [prev]) ''settle'' [r, r'] StatusAccepted"
        using settle look by (simp add: follows_def result_agrees_def)
      have "tale b s (es @ [commit_entry m]) ((pre @ [prev]) @ [r, r']) StatusAccepted True"
        by (rule tale.settle [where rs = "pre @ [prev]"]) (use settle less.prems(2) f in simp_all)
      then show ?thesis using step [of m "[r]" r' StatusAccepted g _ rs'] settle Cons by simp
    qed
  qed
qed

lemma walk_complete:
  "tale b s es rs st g \<Longrightarrow> (\<forall>e \<in> set es. \<exists>m. look (cmd_head (en_command e)) = Some m \<and> commit_entry m = e) \<Longrightarrow>
   \<exists>r0 r1 qs. rs = r0 # r1 # qs \<and> r_action r0 = ''open'' \<and> r_action r1 = ''deadline'' \<and>
     restore_walk b s look r1 qs StatusOpen False 0 = Some (st, g, length es)"
proof (induction rule: tale.induct)
  case (start r0 r1)
  then show ?case by simp
next
  case (lock es rs g r e)
  then obtain r0 r1 qs m where w: "rs = r0 # r1 # qs" "r_action r0 = ''open''" "r_action r1 = ''deadline''"
      "restore_walk b s look r1 qs StatusOpen False 0 = Some (StatusOpen, g, length es)"
    and m: "look (cmd_head (en_command e)) = Some m" "e = commit_entry m" by fastforce
  with lock show ?case using walk_append [OF w(4), of "[r]"]
    by (auto simp: follows_def result_agrees_def)
next
  case (agree es rs r e)
  then obtain r0 r1 qs m where w: "rs = r0 # r1 # qs" "r_action r0 = ''open''" "r_action r1 = ''deadline''"
      "restore_walk b s look r1 qs StatusOpen False 0 = Some (StatusLocked, False, length es)"
    and m: "look (cmd_head (en_command e)) = Some m" "e = commit_entry m" by fastforce
  with agree show ?case using walk_append [OF w(4), of "[r]"]
    by (auto simp: follows_def result_agrees_def)
next
  case (settle es rs r e r')
  then obtain r0 r1 qs m where w: "rs = r0 # r1 # qs" "r_action r0 = ''open''" "r_action r1 = ''deadline''"
      "restore_walk b s look r1 qs StatusOpen False 0 = Some (StatusLocked, True, length es)"
    and m: "look (cmd_head (en_command e)) = Some m" "e = commit_entry m" by fastforce
  with settle show ?case using walk_append [OF w(4), of "[r, r']"]
    by (auto simp: follows_def result_agrees_def)
next
  case (reject es rs g r e)
  then obtain r0 r1 qs m where w: "rs = r0 # r1 # qs" "r_action r0 = ''open''" "r_action r1 = ''deadline''"
      "restore_walk b s look r1 qs StatusOpen False 0 = Some (StatusLocked, g, length es)"
    and m: "look (cmd_head (en_command e)) = Some m" "e = commit_entry m" by fastforce
  with reject show ?case using walk_append [OF w(4), of "[r]"]
    by (auto simp: follows_def result_agrees_def)
next
  case (expire es rs st g r e)
  then obtain r0 r1 qs m where w: "rs = r0 # r1 # qs" "r_action r0 = ''open''" "r_action r1 = ''deadline''"
      "restore_walk b s look r1 qs StatusOpen False 0 = Some (st, g, length es)"
    and m: "look (cmd_head (en_command e)) = Some m" "e = commit_entry m" by fastforce
  with expire show ?case using walk_append [OF w(4), of "[r]"]
    by (auto simp: follows_def result_agrees_def)
qed

subsection \<open>The index\<close>

text \<open>The walk does not depend on the order in which the loop visits the map.\<close>

definition op_heads :: "(string \<times> committed) list \<Rightarrow> string list" where
  "op_heads xs = map (\<lambda>x. op_head (snd x)) xs"

definition index_of :: "(string \<times> committed) list \<Rightarrow> (string \<times> committed) list" where
  "index_of xs = rev (map (\<lambda>x. (op_head (snd x), snd x)) xs)"

lemma by_head_eq:
  "by_head C c acc xs =
    (if (\<forall>x \<in> set xs. entry_ok C c (fst x) (snd x)) \<and> distinct (op_heads xs) \<and> set (op_heads xs) \<inter> fst ` set acc = {}
     then Some (index_of xs @ acc) else None)"
proof (induction xs arbitrary: acc)
  case (Cons x xs)
  obtain key m where x: "x = (key, m)" by fastforce
  have "map_of acc (op_head m) = None \<longleftrightarrow> op_head m \<notin> fst ` set acc" by (simp add: map_of_eq_None_iff)
  then show ?case using Cons [of "(op_head m, m) # acc"] by (auto simp: x op_heads_def index_of_def)
qed (simp add: op_heads_def index_of_def)

lemma by_head_start:
  "by_head C c [] xs =
    (if (\<forall>x \<in> set xs. entry_ok C c (fst x) (snd x)) \<and> distinct (op_heads xs) then Some (index_of xs) else None)"
  by (simp add: by_head_eq)

lemma index_lookup:
  assumes "distinct (op_heads xs)"
  shows "map_of (index_of xs) h = Some m \<longleftrightarrow> op_head m = h \<and> m \<in> snd ` set xs"
proof -
  have "distinct (map fst (index_of xs))"
    using assms by (simp add: index_of_def op_heads_def comp_def flip: rev_map)
  then have "map_of (index_of xs) h = Some m \<longleftrightarrow> (h, m) \<in> set (index_of xs)" by (rule map_of_eq_Some_iff)
  then show ?thesis by (auto simp: index_of_def)
qed

subsection \<open>Soundness and completeness\<close>

lemma restoreE:
  assumes "restore C cid r = Inr c"
  obtains a xs es where "\<not> record_rejected C cid r" "sc_version r = 1" "sc_operations r = Some xs" "restore_private (sc_checkpoint r) = Inr a"
    "\<not> agreement_differs cid (sc_terms r) a" "c = contract_of r cid a" "\<forall>x \<in> set xs. entry_ok C c (fst x) (snd x)"
    "distinct (op_heads xs)" "contract_tale es c" "length es = length xs" "set es \<subseteq> (commit_entry \<circ> snd) ` set xs"
proof -
  let ?xs = "the (sc_operations r)"
  from assms obtain a idx where a: "\<not> record_rejected C cid r" "restore_private (sc_checkpoint r) = Inr a"
    "\<not> agreement_differs cid (sc_terms r) a" "by_head C (contract_of r cid a) [] ?xs = Some idx" "c = contract_of r cid a"
    by (auto simp: restore_def Let_def split: if_splits sum.splits option.splits list.splits prod.splits)
  note i = by_head_start [of C "contract_of r cid a" ?xs]
  have xs: "\<forall>x \<in> set ?xs. entry_ok C c (fst x) (snd x)" "distinct (op_heads ?xs)" "idx = index_of ?xs"
    using a(4, 5) i by (auto split: if_splits)
  from assms a obtain r0 r1 rs where rs: "ag_receipts a = r0 # r1 # rs" "r_action r0 = ''open''" "r_action r1 = ''deadline''"
    "restore_walk (ag_buyer a) (ag_seller a) (map_of idx) r1 rs StatusOpen False 0 = Some (ag_status a, sc_agreed r, length ?xs)"
    by (auto simp: restore_def Let_def split: if_splits option.splits list.splits prod.splits)
  have "tale (ag_buyer a) (ag_seller a) [] ([r0] @ [r1]) StatusOpen False" using rs by (simp add: tale.start)
  from walk_sound [OF rs(4) this] index_lookup [OF xs(2)] xs(3) obtain es where
    es: "tale (ag_buyer a) (ag_seller a) es (r0 # r1 # rs) (ag_status a) (sc_agreed r)" "length es = length ?xs"
    "\<forall>e \<in> set es. \<exists>h m. map_of idx h = Some m \<and> e = commit_entry m" by force
  have "set es \<subseteq> (commit_entry \<circ> snd) ` set ?xs"
    using es(3) index_lookup [OF xs(2)] xs(3) by force
  moreover have "contract_tale es c" using es(1) rs(1) a(5) by (simp add: contract_tale_def contract_of_def)
  moreover obtain ys where "sc_operations r = Some ys" "sc_version r = 1" using a(1) by (auto simp: record_rejected_def)
  ultimately show thesis using that [of ys a es] a xs es(2) by simp
qed

lemma restore_complete:
  assumes "\<not> record_rejected C cid r" "sc_operations r = Some xs" "restore_private (sc_checkpoint r) = Inr a"
    and "\<not> agreement_differs cid (sc_terms r) a" "\<forall>x \<in> set xs. entry_ok C (contract_of r cid a) (fst x) (snd x)"
    and "distinct (op_heads xs)" "contract_tale es (contract_of r cid a)" "mset (map (commit_entry \<circ> snd) xs) = mset es"
  shows "restore C cid r = Inr (contract_of r cid a)"
proof -
  have es: "set es = (commit_entry \<circ> snd) ` set xs" "length es = length xs"
    using assms(8) by (metis image_set set_mset_mset) (metis assms(8) length_map size_mset)
  have look: "\<forall>e \<in> set es. \<exists>m. map_of (index_of xs) (cmd_head (en_command e)) = Some m \<and> commit_entry m = e"
    unfolding index_lookup [OF assms(6)] es(1) by auto
  have "tale (ag_buyer a) (ag_seller a) es (ag_receipts a) (ag_status a) (sc_agreed r)"
    using assms(7) by (simp add: contract_tale_def contract_of_def)
  from walk_complete [OF this look] es(2) show ?thesis
    using assms(1-6) by_head_start [of C "contract_of r cid a" xs] by (auto simp: restore_def Let_def)
qed

lemma distinct_heads:
  assumes "tale b s es rs st g" "verify_receipts cid rs = None"
  shows "distinct (map (\<lambda>e. cmd_head (en_command e)) es) \<or> text_collision (texts cid rs) (texts cid rs)"
proof -
  obtain "is" where i: "heads_in_order es rs is" using tale_heads [OF assms(1)] by blast
  show ?thesis
  proof (cases "distinct (map (\<lambda>i. r_hash (rs ! i)) is)")
    case True
    then show ?thesis using i by (auto simp: heads_in_order_def)
  next
    case False
    have "distinct is" using i by (auto simp: heads_in_order_def strict_sorted_iff)
    with False obtain j k where "j \<in> set is" "k \<in> set is" "j \<noteq> k" "r_hash (rs ! j) = r_hash (rs ! k)"
      by (auto simp: distinct_map inj_on_def)
    moreover have "\<forall>i \<in> set is. i < length rs" using i by (fastforce simp: heads_in_order_def)
    ultimately have "text_collision (texts cid rs) (texts cid rs)"
      using verified_hashes_differ [OF assms(2), of j k] by blast
    then show ?thesis ..
  qed
qed

lemma same_entries_heads:
  assumes "mset (map (commit_entry \<circ> snd) xs) = mset es"
  shows "distinct (op_heads xs) \<longleftrightarrow> distinct (map (\<lambda>e. cmd_head (en_command e)) es)"
proof -
  have "mset (op_heads xs) = image_mset (\<lambda>e. cmd_head (en_command e)) (mset (map (commit_entry \<circ> snd) xs))"
    by (simp add: op_heads_def multiset.map_comp comp_def)
  then have "mset (op_heads xs) = mset (map (\<lambda>e. cmd_head (en_command e)) es)" unfolding assms by simp
  then show ?thesis by (rule mset_eq_imp_distinct_iff)
qed

end
