(* ===== verification/Nex_Store_Clean.thy ===== *)
theory Nex_Store_Clean
  imports Nex_Store_Restore
begin

text \<open>
  Records that survive JSON: the strings of an agreement stay valid UTF-8 through every command, so a record the
  store wrote is read back as it was, up to the order of its map, and is restored to the contract it was written for.
\<close>

subsection \<open>ASCII texts\<close>

abbreviation ascii :: "string \<Rightarrow> bool" where
  "ascii s \<equiv> \<forall>c \<in> set s. char_code c < 0x80"

lemma utf8_valid_utf8: "utf8_valid s \<Longrightarrow> utf8 s"
  by (simp add: utf8_def json_string_runes runes_concat)

lemma utf8_hex [simp]: "utf8 (hex_encode b)"
  by (rule utf8_ascii [OF hex_encode_ascii])

lemma utf8_hashes [simp]: "utf8 (nex_hash t)" "utf8 (public_id p)"
  by (simp_all add: nex_hash_def public_id_def digest_def)

lemma ascii_digits: "0 \<le> n \<Longrightarrow> ascii (digits n)"
  using digits_facts [of n] by (fastforce simp: is_digit_def)

lemma ascii_itoa: "ascii (itoa n)"
  using ascii_digits [of n] ascii_digits [of "- n"] by (auto simp: itoa_def char_code_def)

lemma ascii_pad: "0 \<le> n \<Longrightarrow> ascii (pad_digits w n)"
  using ascii_digits [of n] by (auto simp: pad_digits_def Let_def char_code_def)

lemma ascii_rfc3339: "ascii (format_rfc3339 t)"
proof -
  obtain Y M D where c: "civil_of_days (t div second div 86400) = (Y, M, D)" by (metis prod_cases3)
  have p: "char_code (CHR ''-'') < 0x80" "char_code (CHR ''T'') < 0x80" "char_code (CHR '':'') < 0x80" "char_code (CHR ''Z'') < 0x80"
    by (simp_all add: char_code_def)
  have y: "ascii (year_digits Y)" using ascii_pad [of "- Y" 4] ascii_pad [of Y 4] p(1) by (auto simp: year_digits_def)
  have md: "0 \<le> M" "0 \<le> D" using civil_of_days_bounds [OF c] by auto
  have "ascii (pad_digits 2 M)" "ascii (pad_digits 2 D)" "ascii (pad_digits 2 (t div second mod 86400 div 3600))"
    "ascii (pad_digits 2 (t div second mod 86400 div 60 mod 60))" "ascii (pad_digits 2 (t div second mod 86400 mod 60))"
    by (rule ascii_pad; simp add: md pos_imp_zdiv_nonneg_iff)+
  then show ?thesis
    using y p by (auto simp: format_rfc3339_def date_time_def c Let_def)
qed

lemma ascii_base64: "ascii (base64_encode bs)"
proof -
  have "\<forall>c \<in> set b64_alphabet. char_code c < 0x80" by code_simp
  moreover have "b64_char n v \<in> set b64_alphabet" for n v
    unfolding b64_char_def unat_b64_index by (intro nth_mem) (simp add: b64_alphabet_facts)
  ultimately have "char_code (b64_char n v) < 0x80" for n v by blast
  then show ?thesis by (induction bs rule: base64_encode.induct) (auto simp: Let_def char_code_def)
qed

subsection \<open>Clean agreements\<close>

text \<open>The strings and numbers survive; the times are another matter, as a late expiry may lie beyond the year 9999.\<close>

definition agreement_clean :: "agreement \<Rightarrow> bool" where
  "agreement_clean a \<longleftrightarrow> f64_finite (mt_cost_usd (ag_meter a)) \<and> f64_finite (mt_budget_usd (ag_meter a)) \<and>
     utf8 (ag_id a) \<and> utf8 (ag_kind a) \<and> utf8 (ag_buyer a) \<and> utf8 (ag_seller a) \<and> utf8 (un_symbol (ag_unit a)) \<and>
     utf8 (mt_effort (ag_meter a)) \<and> utf8 (ag_released_to a) \<and> list_all receipt_safe (ag_receipts a)"

lemma json_safe_iff: "json_safe a \<longleftrightarrow> agreement_clean a \<and> list_all json_year_ok (json_times a)"
  by (auto simp: json_safe_def agreement_clean_def)

lemma head_hash_utf8: "list_all receipt_safe rs \<Longrightarrow> utf8 (head_hash rs)"
  by (cases rs rule: rev_cases) (auto simp: head_hash_def receipt_safe_def)

lemma pushed_clean:
  assumes "agreement_clean a" "utf8 act" "utf8 p" "utf8 n"
  shows "agreement_clean (pushed a p act n t)"
  using assms head_hash_utf8 receipt_safe_new by (simp add: agreement_clean_def)

lemma clean_update [simp]:
  "agreement_clean (a\<lparr>ag_status := x1\<rparr>) = agreement_clean a" "agreement_clean (a\<lparr>ag_closed_at := x2\<rparr>) = agreement_clean a"
  "agreement_clean (a\<lparr>ag_locked_at := x2\<rparr>) = agreement_clean a" "agreement_clean (a\<lparr>ag_sealed_sum := x3\<rparr>) = agreement_clean a"
  "agreement_clean (a\<lparr>ag_sealed_locks := x4\<rparr>) = agreement_clean a" "agreement_clean (a\<lparr>ag_sealed := x5\<rparr>) = agreement_clean a"
  "agreement_clean (a\<lparr>ag_deadline := x6\<rparr>) = agreement_clean a" "agreement_clean (a\<lparr>ag_steps := x7\<rparr>) = agreement_clean a"
  by (simp_all add: agreement_clean_def)

lemma clean_released: "agreement_clean a \<Longrightarrow> utf8 p \<Longrightarrow> agreement_clean (a\<lparr>ag_released_to := p\<rparr>)"
  by (simp add: agreement_clean_def)

lemma clean_parties: "agreement_clean a \<Longrightarrow> utf8 (ag_buyer a) \<and> utf8 (ag_seller a)"
  by (simp add: agreement_clean_def)

lemma word_utf8 [simp]:
  "utf8 ''open''" "utf8 ''deadline''" "utf8 ''seal''" "utf8 ''accept''" "utf8 ''reject''" "utf8 ''expire''" "utf8 ''evidence''"
  by (simp_all add: char_code_def)

lemma expire_clean:
  assumes "ag_expire a (ag_buyer a) now = (a', None)" "agreement_clean a"
  shows "agreement_clean a' \<and> map_option lg_p (ag_sealed a') = map_option lg_p (ag_sealed a)"
proof -
  have "utf8 ''deadline passed, value unlocked''" by (intro utf8_ascii) (simp add: char_code_def)
  then have "agreement_clean (pushed a (ag_buyer a) ''expire'' ''deadline passed, value unlocked'' now)"
    using assms(2) clean_parties by (intro pushed_clean) auto
  then show ?thesis
    using ag_expire_ok [OF assms(1)] clean_parties [OF assms(2)] by (auto simp: clean_released)
qed

lemma note_clean:
  assumes "ag_note a p ''evidence'' n now = (a', None)" "agreement_clean a" "utf8 n"
  shows "agreement_clean a' \<and> map_option lg_p (ag_sealed a') = map_option lg_p (ag_sealed a)"
proof -
  have "utf8 p" using ag_note_ok [OF assms(1)] clean_parties [OF assms(2)] by auto
  then show ?thesis using ag_note_ok [OF assms(1)] pushed_clean [OF assms(2)] assms(3) by auto
qed

lemma reject_clean:
  assumes "ag_reject a (ag_seller a) now = (a', None)" "agreement_clean a"
  shows "agreement_clean a' \<and> map_option lg_p (ag_sealed a') = map_option lg_p (ag_sealed a)"
proof -
  have n: "utf8 ''returned to buyer''" "utf8 ''returned to buyer (sum stays sealed)''"
    by (intro utf8_ascii; simp add: char_code_def)+
  obtain n where "utf8 n" "a' = (pushed a (ag_seller a) ''reject'' n now)\<lparr>ag_closed_at := Some now,
      ag_released_to := ag_buyer a, ag_status := StatusRejected\<rparr>"
    using assms(1) n by (auto simp: ag_reject_def reject_sealed_def and_then_ok_iff ag_append_eq split: if_splits)
  then show ?thesis
    using pushed_clean [OF assms(2)] clean_parties [OF assms(2)] by (auto simp: clean_released)
qed

lemma accept_clean:
  assumes "ag_accept dec rnd a (ag_seller a) now = (a', None)" "agreement_clean a"
  shows "agreement_clean a' \<and> map_option lg_p (ag_sealed a') = map_option lg_p (ag_sealed a)"
proof -
  have n: "utf8 ''released to seller''" by (intro utf8_ascii) (simp add: char_code_def)
  have m: "utf8 (''sealed sum == committed '' @ itoa k @ '' via zk equality proof (no decrypt); proof: '' @ base64_encode pr)" for k pr
    using ascii_itoa ascii_base64 by (intro utf8_ascii) (auto simp: char_code_def)
  obtain n x where "utf8 n" "a' = (pushed a (ag_seller a) ''accept'' n now)\<lparr>ag_closed_at := Some now,
      ag_released_to := ag_seller a, ag_status := StatusAccepted, ag_sealed_sum := x\<rparr>"
  proof (cases "ag_sealed a")
    case None
    with assms(1) n that [of "''released to seller''" "ag_sealed_sum a"] show thesis
      by (auto simp: ag_accept_def and_then_ok_iff ag_append_eq split: if_splits)
  next
    case (Some l)
    with assms(1) m that [of _ "[]"] show thesis
      by (auto simp: ag_accept_def accept_sealed_def and_then_ok_iff ag_append_eq simp del: append.simps split: if_splits sum.splits)
  qed
  then show ?thesis
    using pushed_clean [OF assms(2)] clean_parties [OF assms(2)] by (auto simp: clean_released)
qed

lemma seal_clean:
  assumes "ag_seal_lock rnd a (ag_buyer a) x now = (a', None)" "agreement_clean a"
  shows "agreement_clean a' \<and> map_option lg_p (ag_sealed a') = map_option lg_p (ag_sealed a)"
proof -
  from ag_seal_lock_ok [OF assms(1)] obtain l0 l ct sm where
    l: "ag_sealed a = Some l0" "seal_lock l0 x rnd = (l, Inr ct)"
    and a': "a' = (pushed a (ag_buyer a) ''seal'' (base64_encode ct) now)\<lparr>ag_sealed := Some l,
      ag_sealed_locks := ag_sealed_locks a @ [ct], ag_sealed_sum := sm, ag_status := StatusLocked, ag_locked_at := Some now\<rparr>"
    by blast
  have "lg_p l = lg_p l0" using l(2) by (auto simp: seal_lock_def split: if_splits option.splits)
  moreover have "agreement_clean (pushed a (ag_buyer a) ''seal'' (base64_encode ct) now)"
    using clean_parties [OF assms(2)] utf8_ascii [OF ascii_base64] by (intro pushed_clean assms) auto
  ultimately show ?thesis using l(1) by (simp add: a')
qed

text \<open>Every command keeps an agreement clean and its key as it was, when its evidence is valid UTF-8.\<close>

lemma command_clean:
  assumes "apply_verified dec rnd c cmd sig now = (c', None)" "agreement_clean (cn_agreement c)" "utf8 (cmd_evidence cmd)"
  shows "agreement_clean (cn_agreement c') \<and>
    map_option lg_p (ag_sealed (cn_agreement c')) = map_option lg_p (ag_sealed (cn_agreement c))"
  using assms(1)
proof (cases rule: apply_verifiedE)
  case (agree a')
  have "utf8 (''signed-consent:'' @ nex_hash (bytes_json sig))"
    using hex_encode_ascii by (intro utf8_ascii) (auto simp: nex_hash_def char_code_def)
  with note_clean [OF agree(4) assms(2)] agree(5) show ?thesis by simp
next
  case (settle n a')
  note m = note_clean [OF settle(4) assms(2, 3)]
  have "ag_seller n = ag_seller (cn_agreement c)" using ag_note_ok [OF settle(4)] by simp
  with accept_clean [of dec rnd n now a'] settle(5, 6) m show ?thesis by simp
qed (use assms(2) expire_clean seal_clean reject_clean in auto)

end
