(* ===== verification/Nex_Store_Files.thy ===== *)
theory Nex_Store_Files
  imports Nex_Store_Clean
begin

text \<open>
  The contents of the store's files: a record that was written for a contract, with the operations that tell its
  receipts, is read back and restored to that contract, and applying an operation to what was read gives such a
  record again. The one thing that can go wrong is that two receipts of the contract have one hash.
\<close>

subsection \<open>A contract and the operations that tell it\<close>

definition contract_clean :: "crypto \<Rightarrow> contract \<Rightarrow> bool" where
  "contract_clean C c \<longleftrightarrow> agreement_clean (cn_agreement c) \<and> (\<forall>l. ag_sealed (cn_agreement c) = Some l \<longrightarrow> restorable_key (lg_p l)) \<and>
     public_validate C (cn_buyer c) = None \<and> public_validate C (cn_seller c) = None \<and>
     json_valid (ct_spec (cn_definition c)) \<and> json_compact (ct_spec (cn_definition c)) = ct_spec (cn_definition c)"

definition told :: "crypto \<Rightarrow> contract \<Rightarrow> (string \<times> committed) list \<Rightarrow> bool" where
  "told C c xs \<longleftrightarrow> contract_ok c \<and> contract_clean C c \<and> distinct (map fst xs) \<and>
     (\<forall>x \<in> set xs. entry_ok C c (fst x) (snd x) \<and> json_committed (snd x) = snd x) \<and>
     (\<exists>es. contract_tale es c \<and> mset (map (commit_entry \<circ> snd) xs) = mset es)"

definition record_for :: "contract \<Rightarrow> checkpoint_data \<Rightarrow> (string \<times> committed) list \<Rightarrow> stored_contract" where
  "record_for c k xs = \<lparr>sc_version = 1, sc_terms = cn_definition c, sc_buyer = cn_buyer c, sc_seller = cn_seller c,
     sc_agreed = cn_agreed c, sc_checkpoint = k, sc_operations = Some xs\<rparr>"

text \<open>Two different receipts of the contract with one SHA-256 value are at hand.\<close>

definition receipts_collide :: "contract \<Rightarrow> bool" where
  "receipts_collide c \<longleftrightarrow> (let ts = texts (cn_terms c) (ag_receipts (cn_agreement c)) in text_collision ts ts)"

lemma record_for_fields [simp]:
  "sc_version (record_for c k xs) = 1" "sc_terms (record_for c k xs) = cn_definition c" "sc_buyer (record_for c k xs) = cn_buyer c"
  "sc_seller (record_for c k xs) = cn_seller c" "sc_agreed (record_for c k xs) = cn_agreed c" "sc_checkpoint (record_for c k xs) = k"
  "sc_operations (record_for c k xs) = Some xs"
  by (simp_all add: record_for_def)

lemma created_record_for: "\<not> cn_agreed c \<Longrightarrow> created_record c = record_for c (private_checkpoint (cn_agreement c)) []"
  by (simp add: created_record_def record_for_def)

lemma contract_of_record: "cn_terms c = cid \<Longrightarrow> contract_of (record_for c k xs) cid (cn_agreement c) = c"
  by (simp add: contract_of_def)

lemma told_perm:
  assumes "told C c xs" "mset ys = mset xs"
  shows "told C c ys"
proof -
  have "set ys = set xs" "mset (map fst ys) = mset (map fst xs)" "mset (map (commit_entry \<circ> snd) ys) = mset (map (commit_entry \<circ> snd) xs)"
    using assms(2) by (metis set_mset_mset) (simp_all add: assms(2))
  moreover from this have "distinct (map fst ys)"
    using assms(1) mset_eq_imp_distinct_iff [of "map fst ys" "map fst xs"] by (simp add: told_def)
  ultimately show ?thesis using assms(1) by (simp add: told_def)
qed

lemma told_facts:
  assumes "told C c xs"
  shows "ag_wf (cn_agreement c)" "cn_terms c = nex_hash (terms_text (cn_definition c))" "terms_hash (cn_definition c) = cn_terms c"
    "verify_receipts (cn_terms c) (ag_receipts (cn_agreement c)) = None" "utf8 (cn_terms c)"
  using assms by (auto simp: told_def contract_ok_def contract_clean_def Let_def terms_hash_def ag_wf_def)

text \<open>The identifiers of contracts are hashes.\<close>

lemma told_id: "told C c xs \<Longrightarrow> valid_id (cn_terms c)"
  using told_facts(2) by (simp add: nex_hash_def)

subsection \<open>Restoring what was written\<close>

lemma told_restore_distinct:
  assumes "told C c xs" "restore_private k = Inr (cn_agreement c)" "distinct (op_heads xs)"
  shows "restore C (cn_terms c) (record_for c k xs) = Inr c"
proof -
  let ?r = "record_for c k xs"
  obtain es where es: "contract_tale es c" "mset (map (commit_entry \<circ> snd) xs) = mset es" using assms(1) by (auto simp: told_def)
  have ok: "\<not> record_rejected C (cn_terms c) ?r" "\<not> agreement_differs (cn_terms c) (sc_terms ?r) (cn_agreement c)"
    using assms(1) told_facts(3) [OF assms(1)]
    by (auto simp: told_def contract_ok_def contract_clean_def record_rejected_def agreement_differs_def Let_def)
  have "\<forall>x \<in> set xs. entry_ok C c (fst x) (snd x)" using assms(1) by (simp add: told_def)
  then show ?thesis
    using restore_complete [OF ok(1) _ _ ok(2), of xs es] assms(2, 3) es contract_of_record [OF refl, of c k xs] by simp
qed

lemma told_restore:
  assumes "told C c xs" "restore_private k = Inr (cn_agreement c)"
  shows "restore C (cn_terms c) (record_for c k xs) = Inr c \<or>
    restore C (cn_terms c) (record_for c k xs) = Inl ErrCorruptStore \<and> receipts_collide c"
proof (cases "distinct (op_heads xs)")
  case True
  then show ?thesis using told_restore_distinct [OF assms] by simp
next
  case False
  let ?r = "record_for c k xs"
  obtain es where es: "contract_tale es c" "mset (map (commit_entry \<circ> snd) xs) = mset es" using assms(1) by (auto simp: told_def)
  have ok: "\<not> record_rejected C (cn_terms c) ?r" "\<not> agreement_differs (cn_terms c) (sc_terms ?r) (cn_agreement c)"
    using assms(1) told_facts(3) [OF assms(1)]
    by (auto simp: told_def contract_ok_def contract_clean_def record_rejected_def agreement_differs_def Let_def)
  have "\<not> distinct (map (\<lambda>e. cmd_head (en_command e)) es)" using False same_entries_heads [OF es(2)] by simp
  then have "receipts_collide c"
    using distinct_heads [of "ag_buyer (cn_agreement c)" "ag_seller (cn_agreement c)" es "ag_receipts (cn_agreement c)"
        "ag_status (cn_agreement c)" "cn_agreed c" "cn_terms c"] es(1) told_facts(4) [OF assms(1)]
    by (simp add: contract_tale_def receipts_collide_def Let_def)
  moreover have "restore C (cn_terms c) ?r = Inl ErrCorruptStore"
    using False ok assms contract_of_record [OF refl, of c k xs] by (simp add: restore_def by_head_start told_def)
  ultimately show ?thesis by simp
qed

lemma json_ids:
  assumes "told C c xs" "x \<in> set xs"
  shows "json_string (fst x) = fst x"
proof -
  have "validate_operation_id (fst x) = None" using assms by (auto simp: told_def entry_ok_def)
  then have "utf8_valid (fst x)" by (auto simp: validate_operation_id_def split: if_splits)
  then show ?thesis using utf8_valid_utf8 by (simp add: utf8_def)
qed

lemma restore_private_copied:
  "pc_agreement s = Some a \<Longrightarrow> json_copy a = Inr b \<Longrightarrow> json_copy b = Inr b \<Longrightarrow>
   restore_private (s\<lparr>pc_agreement := Some b\<rparr>) = restore_private s"
  by (simp add: restore_private_def cong: if_cong)

lemma json_written:
  assumes "told C c xs" "json_stored (record_for c (private_checkpoint (cn_agreement c)) xs) = Inr w"
  shows "\<exists>k. w = record_for c k xs \<and> restore_private k = Inr (cn_agreement c) \<and>
    restore_private (private_checkpoint (cn_agreement c)) = Inr (cn_agreement c)"
proof -
  let ?a = "cn_agreement c"
  have ok: "contract_ok c" and clean: "agreement_clean ?a" "json_compact (ct_spec (cn_definition c)) = ct_spec (cn_definition c)"
    and key: "\<forall>l. ag_sealed ?a = Some l \<longrightarrow> restorable_key (lg_p l)"
    using assms(1) by (auto simp: told_def contract_clean_def)
  from assms(2) obtain k where k: "json_checkpoint (private_checkpoint ?a) = Inr k"
    and w: "w = (record_for c k xs)\<lparr>sc_terms := json_terms (cn_definition c), sc_operations := Some (map (\<lambda>(key, m). (json_string key, json_committed m)) xs)\<rparr>"
    by (auto simp: json_stored_def try_bind_Inr record_for_def split: if_splits)
  from k obtain b where b: "json_copy ?a = Inr b" "k = (private_checkpoint ?a)\<lparr>pc_agreement := Some b\<rparr>"
    by (auto simp: json_checkpoint_def private_checkpoint_def try_bind_Inr)
  have safe: "json_safe ?a" using b(1) clean(1) by (auto simp: json_safe_iff json_copy_def split: if_splits)
  have st: "ag_status ?a \<in> {StatusOpen, StatusLocked, StatusAccepted, StatusRejected, StatusExpired}"
    using told_facts(1) [OF assms(1)] by (simp add: ag_wf_def)
  then have b': "b = ?a\<lparr>ag_sealed := None, ag_steps := 0\<rparr>" using json_copy_safe [OF safe] b(1) by simp
  have "json_safe b" using safe by (simp add: b' json_safe_def json_times_def)
  then have again: "json_copy b = Inr b" using json_copy_safe [of b] st by (simp add: b')
  have same: "restore_private k = restore_private (private_checkpoint ?a)"
    unfolding b(2) by (rule restore_private_copied [OF _ b(1) again]) (simp add: private_checkpoint_def)
  obtain ms where ms: "sealed_state ms ?a" using ok by (auto simp: contract_ok_def Let_def)
  have "max_steps (ag_meter ?a) \<le> 128" "ag_kind ?a \<noteq> []" "ag_id ?a = cn_terms c" using ok by (auto simp: contract_ok_def Let_def)
  moreover have "cn_terms c \<noteq> []"
    using told_facts(2) [OF assms(1)] length_hex_encode [of "sha256 (bytes_of (terms_text (cn_definition c)))"]
    by (auto simp: nex_hash_def simp del: length_hex_encode)
  ultimately have r: "restore_private k = Inr ?a"
    unfolding same using restore_checkpoint [OF told_facts(1) [OF assms(1)] ms safe] key by simp
  have "utf8 (ag_kind ?a)" using clean(1) by (simp add: agreement_clean_def)
  then have "json_terms (cn_definition c) = cn_definition c"
    using ok clean(2) utf8_hashes by (simp add: json_terms_def contract_ok_def Let_def utf8_def)
  moreover have "map (\<lambda>(key, m). (json_string key, json_committed m)) xs = xs"
    using json_ids [OF assms(1)] assms(1) by (intro map_idI) (auto simp: told_def)
  ultimately have "w = record_for c k xs" by (simp add: w record_for_def)
  with r same show ?thesis by auto
qed

subsection \<open>Applying an operation\<close>

lemma update_new: "map_of xs k = None \<Longrightarrow> AList.update k v xs = xs @ [(k, v)]"
  by (induction xs) (auto split: if_splits)

lemma entry_ok_same:
  assumes "same_contract c c'"
  shows "entry_ok C c' = entry_ok C c"
  using same_contract_signer [OF assms] by (simp add: entry_ok_def fun_eq_iff)

text \<open>The entry that \<open>Apply\<close> adds.\<close>

definition commit_of :: "operation \<Rightarrow> bytes \<Rightarrow> contract \<Rightarrow> committed" where
  "commit_of x sig c = \<lparr>cm_operation = x, cm_signature = sig, cm_result = result_of (cn_terms c) x c\<rparr>"

lemma commit_entry_of: "commit_entry (commit_of x sig c) = entry_of c (op_command x) sig"
  by (simp add: commit_entry_def entry_of_def commit_of_def result_of_def)

lemma command_actions:
  assumes "apply_verified dec rnd c cmd sig now = (c', None)"
  shows "utf8 (cmd_action cmd)"
  using assms by (cases rule: apply_verifiedE) (simp_all add: char_code_def)

lemma contract_head_utf8:
  assumes "told C c xs"
  shows "utf8 (contract_head c)"
proof -
  have "ag_receipts (cn_agreement c) \<noteq> []" using told_facts(1) [OF assms] by (auto simp: ag_wf_def)
  then have "last (ag_receipts (cn_agreement c)) \<in> set (ag_receipts (cn_agreement c))" by simp
  then show ?thesis
    using assms by (auto simp: told_def contract_clean_def agreement_clean_def list_all_iff receipt_safe_def contract_head_def)
qed

lemma told_apply:
  assumes t: "told C c xs" and x: "validate_operation_id (op_id x) = None" "\<not> operation_bad x" "map_of xs (op_id x) = None"
    and v: "cmd_terms (op_command x) = cn_terms c" "operation_verify C (contract_signer c (cmd_action (op_command x))) x sig = None"
    and step: "apply_verified dec rnd c (op_command x) sig now = (c', None)"
  shows "told C c' (xs @ [(op_id x, commit_of x sig c')]) \<and> same_contract c c'"
proof -
  let ?m = "commit_of x sig c'" and ?cmd = "op_command x"
  obtain es where es: "contract_tale es c" "mset (map (commit_entry \<circ> snd) xs) = mset es" using t by (auto simp: told_def)
  have ok: "contract_ok c" using t by (simp add: told_def)
  note s = apply_verified_step [OF ok es(1) step]
  have ev: "utf8 (cmd_evidence ?cmd)" using x(2) utf8_valid_utf8 by (simp add: operation_bad_def)
  have "agreement_clean (cn_agreement c)" "\<forall>l. ag_sealed (cn_agreement c) = Some l \<longrightarrow> restorable_key (lg_p l)"
    using t by (simp_all add: told_def contract_clean_def)
  with command_clean [OF step _ ev] have a: "agreement_clean (cn_agreement c')"
      "\<forall>l. ag_sealed (cn_agreement c') = Some l \<longrightarrow> restorable_key (lg_p l)"
    by (auto simp: map_option_eq_Some split: option.splits) (metis map_option_eq_Some)
  have clean: "contract_clean C c'" using t a s by (simp add: told_def contract_clean_def same_contract_def)
  have id: "cn_terms c' = cn_terms c" using s same_contract_signer by blast
  have entry: "entry_ok C c' (op_id x) ?m"
    unfolding entry_ok_same [OF s [THEN conjunct2, THEN conjunct1]]
    using x(1) v id by (simp add: entry_ok_def commit_of_def result_of_def)
  have hd: "cmd_head ?cmd = contract_head c" using apply_verified_head [OF step] by simp
  have "utf8_valid (op_id x)" using x(1) by (simp add: validate_operation_id_def split: if_splits)
  then have "utf8 (op_id x)" by (rule utf8_valid_utf8)
  moreover have "utf8 (contract_head c')" "json_status (contract_status c') = contract_status c'"
  proof -
    have "ag_receipts (cn_agreement c') \<noteq> []" "ag_wf (cn_agreement c')" using s by (auto simp: contract_ok_def Let_def ag_wf_def)
    moreover from this have "last (ag_receipts (cn_agreement c')) \<in> set (ag_receipts (cn_agreement c'))" by simp
    ultimately show "utf8 (contract_head c')" "json_status (contract_status c') = contract_status c'"
      using a(1) by (auto simp: agreement_clean_def list_all_iff receipt_safe_def contract_head_def ag_wf_def json_status_def contract_status_def)
  qed
  ultimately have json: "json_committed ?m = ?m"
    using told_facts(5) [OF t] contract_head_utf8 [OF t] ev command_actions [OF step] v(1) hd id
    by (simp add: json_committed_def json_command_def json_result_def commit_of_def result_of_def utf8_def)
  have keys: "distinct (map fst (xs @ [(op_id x, ?m)]))" using t x(3) by (simp add: told_def map_of_eq_None_iff)
  have tale: "contract_tale (es @ [commit_entry ?m]) c'" using s by (simp add: commit_entry_of)
  have "mset (map (commit_entry \<circ> snd) (xs @ [(op_id x, ?m)])) = mset (es @ [commit_entry ?m])" using es(2) by simp
  with tale s clean keys entry json t show ?thesis
    unfolding told_def entry_ok_same [OF s [THEN conjunct2, THEN conjunct1]] by auto
qed

lemma applied_record_for:
  assumes "same_contract c c'" "map_of xs (op_id x) = None" "cn_terms c = cid"
  shows "applied_record (record_for c k xs) cid x sig c' =
    record_for c' (private_checkpoint (cn_agreement c')) (xs @ [(op_id x, commit_of x sig c')])"
  using assms by (simp add: applied_record_def record_for_def commit_of_def same_contract_def update_new)

subsection \<open>New contracts\<close>

text \<open>
  What \<open>New\<close> returns can be stored, when the specification is a text that \<open>json.Marshal\<close> wrote, the kind is valid UTF-8
  and the generated key has a length that checkpoints accept, which 2048 bits are.
\<close>

lemma new_contract_clean:
  assumes "contract_new C kind p q amount (Inr raw) created deadline ds = Some (Inr c)" "utf8 kind"
  shows "agreement_clean (cn_agreement c) \<and> public_validate C (cn_buyer c) = None \<and> public_validate C (cn_seller c) = None \<and>
    ct_spec (cn_definition c) = raw \<and> length (ag_receipts (cn_agreement c)) = 2"
proof -
  note new = new_contract [OF assms(1)]
  obtain a0 a1 l where d: "cn_definition c = \<lparr>ct_kind = kind, ct_buyer = public_id p, ct_seller = public_id q, ct_amount = amount,
      ct_spec = raw, ct_created = created, ct_deadline = deadline\<rparr>" "public_validate C p = None" "public_validate C q = None"
    and a0: "open_agreement (cn_terms c) kind (public_id p) (public_id q) amount
       \<lparr>mt_cost_usd = 0, mt_effort = [], mt_budget_usd = 0, mt_max_steps = 128\<rparr> created = Inr a0"
    and a1: "set_deadline a0 (ag_buyer a0) deadline created = (a1, None)"
    and a2: "start_sealed a1 ds = Some (cn_agreement c, None)" and terms: "cn_terms c = nex_hash (terms_text (cn_definition c))"
    using assms(1) by (elim contract_newE) auto
  have words: "utf8 ''agreement opened''" "utf8 ''flash''" by (intro utf8_ascii; simp add: char_code_def)+
  have "agreement_clean a0"
  proof -
    let ?a = "\<lparr>ag_id = cn_terms c, ag_kind = kind, ag_buyer = public_id p, ag_seller = public_id q, ag_amount = amount,
      ag_unit = \<lparr>un_symbol = []\<rparr>, ag_status = StatusOpen, ag_meter = \<lparr>mt_cost_usd = 0, mt_effort = ''flash'', mt_budget_usd = 0, mt_max_steps = 128\<rparr>,
      ag_deadline = 0, ag_created_at = created, ag_locked_at = None, ag_closed_at = None, ag_released_to = [],
      ag_receipts = [], ag_sealed = None, ag_sealed_locks = [], ag_sealed_sum = [], ag_steps = 0\<rparr>"
    have "a0 = pushed ?a (public_id p) ''open'' ''agreement opened'' created"
      using a0 by (auto simp: open_agreement_def open_agreement_with_def ag_append_eq Let_def split: if_splits)
    moreover have "agreement_clean ?a" using assms(2) words(2) by (simp add: agreement_clean_def f64_finite_def terms)
    ultimately show ?thesis using words(1) by (simp add: pushed_clean)
  qed
  moreover have "utf8 (ag_buyer a0)" using calculation by (simp add: agreement_clean_def)
  ultimately have "agreement_clean a1"
    using set_deadline_ok [OF a1] utf8_ascii [OF ascii_rfc3339] by (auto intro!: pushed_clean)
  then have "agreement_clean (cn_agreement c)" using start_sealed_ok [OF a2] by auto
  moreover have "length (ag_receipts (cn_agreement c)) = 2"
    using open_agreement_fields [OF a0] set_deadline_ok [OF a1] start_sealed_ok [OF a2] by auto
  ultimately show ?thesis using new d by simp
qed

lemma new_contract_told:
  assumes "contract_new C kind p q amount (Inr raw) created deadline ds = Some (Inr c)"
    and "json_valid raw" "json_compact raw = raw" "utf8 kind"
    and "\<And>l. ag_sealed (cn_agreement c) = Some l \<Longrightarrow> restorable_key (lg_p l)"
  shows "told C c []"
  using assms new_contract [OF assms(1)] new_contract_clean [OF assms(1, 4)] by (auto simp: told_def contract_clean_def)

end
