(* ===== verification/Nex_Store_Calls.thy ===== *)
theory Nex_Store_Calls
  imports Nex_Store_Files
begin

text \<open>
  What one call of the store can do to the files, for every fault and every point at which the process may die.
\<close>

subsection \<open>File names\<close>

lemma nex_path_inj [simp]: "nex_path a = nex_path b \<longleftrightarrow> a = b"
  by (simp add: nex_path_def)

lemma lock_not_nex [simp]: "lock_path a \<noteq> nex_path b" "nex_path b \<noteq> lock_path a"
proof -
  have "last (lock_path a) \<noteq> last (nex_path b)" by (simp add: lock_path_def nex_path_def)
  then show "lock_path a \<noteq> nex_path b" "nex_path b \<noteq> lock_path a" by auto
qed

lemma valid_id_hd:
  assumes "valid_id s"
  shows "s \<noteq> [] \<and> hd s \<noteq> CHR ''.''"
proof -
  obtain b where b: "hex_encode b = s" "length b = 32" using assms by (auto simp: valid_id_def split: option.splits)
  then obtain x y where "b = x # y" by (cases b) auto
  then have s: "s = hex_byte x @ hex_encode y" using b(1) by (simp add: hex_encode_def)
  have "hex_digit d \<noteq> CHR ''.''" if "d < 16" for d
    using unhex_hex_digit [OF that] by (auto simp: unhex_digit_def)
  moreover have "unat x div 16 < 16" using unsigned_less [of x, where 'a = nat] by auto
  ultimately show ?thesis by (simp add: s hex_byte_def)
qed

lemma pending_not_nex:
  assumes "valid_id b"
  shows "pending_path a \<noteq> nex_path b"
proof -
  have "hd (pending_path a) = CHR ''.''" by (simp add: pending_path_def)
  moreover have "hd (nex_path b) \<noteq> CHR ''.''" using valid_id_hd [OF assms] by (simp add: nex_path_def)
  ultimately show ?thesis by auto
qed

subsection \<open>The parts of a write\<close>

lemma sync_directoryE:
  assumes "sync_directory flt d = (d', res)"
  obtains (synced) "d' = keep_names d" "res = Returns ()" | (stopped) "d' = d" "res \<noteq> Returns ()"
  using assms unfolding sync_directory_def by (elim io_bindE sysE) (auto elim: sysE)

lemma confirmE:
  assumes "confirm flt d = (d', res)"
  obtains "dk_live d' = dk_live d" "dk_kept d' = dk_kept d \<or> dk_kept d' = dk_live d" "res = Returns () \<Longrightarrow> dk_kept d' = dk_live d"
    "\<And>e. res = Raises e \<Longrightarrow> errors_is e ErrCommitUncertain"
  using assms unfolding confirm_def
  by (elim io_bindE io_wrapE sysE sync_directoryE) (auto elim!: io_bindE io_wrapE sysE sync_directoryE)

lemma fill_pendingE:
  assumes "fill_pending flt p data d = (d', res)"
  obtains "\<And>q. q \<noteq> p \<Longrightarrow> dk_live d' q = dk_live d q" "dk_kept d' = dk_kept d" "res = Returns () \<Longrightarrow> dk_live d' p = Some (data, True)"
  using assms unfolding fill_pending_def write_file_def
  by (elim io_bindE sysE sys_partE) (auto elim!: io_bindE sysE sys_partE)

text \<open>From the temporary file to the end: nothing has happened to the contract's file, or the contents are in its place.\<close>

lemma write_bodyE:
  assumes "io_bind (fill_pending flt p data) (\<lambda>_. io_bind (sys flt ''rename'' (rename_file p q)) (\<lambda>_. confirm flt)) d = (d', res)"
    and "p \<noteq> q"
  obtains (unmoved) "\<And>x. x \<noteq> p \<Longrightarrow> dk_live d' x = dk_live d x" "dk_kept d' = dk_kept d" "res \<noteq> Returns ()"
  | (moved) "dk_live d' q = Some (data, True)" "\<And>x. x \<noteq> p \<Longrightarrow> x \<noteq> q \<Longrightarrow> dk_live d' x = dk_live d x"
      "dk_kept d' = dk_kept d \<or> dk_kept d' = dk_live d'" "res = Returns () \<Longrightarrow> dk_kept d' = dk_live d'"
      "\<And>e. res = Raises e \<Longrightarrow> errors_is e ErrCommitUncertain"
  using assms(1)
proof (cases rule: io_bindE)
  case (stops r')
  from stops(1) show ?thesis by (rule fill_pendingE) (rule unmoved; use stops in simp)
next
  case (goes d1 v)
  from goes(1) have d1: "\<And>x. x \<noteq> p \<Longrightarrow> dk_live d1 x = dk_live d x" "dk_kept d1 = dk_kept d" "dk_live d1 p = Some (data, True)"
    by (rule fill_pendingE, simp)+
  from goes(2) show ?thesis
  proof (cases rule: io_bindE)
    case (stops r')
    have "d' = d1" using stops by (auto elim: sysE)
    then show ?thesis by - (rule unmoved; use d1 stops in simp)
  next
    case (goes d2 v)
    then have "d2 = rename_file p q d1" by (auto elim: sysE)
    with goes(2) d1 assms(2) show ?thesis by (elim confirmE) (rule moved; auto)
  qed
qed

lemma store_writeE:
  assumes "store_write C K s flt nonce suffix cid r d = (d', res)" "valid_id cid"
  obtains (unmoved) "\<And>q. valid_id q \<Longrightarrow> dk_live d' (nex_path q) = dk_live d (nex_path q)"
      "\<And>q. valid_id q \<Longrightarrow> dk_kept d' (nex_path q) = dk_kept d (nex_path q)" "res \<noteq> Returns ()"
  | (placed) plain where "cd_marshal K r = Inr plain" "length (file_image C s cid nonce plain) \<le> maxCheckpoint"
      "dk_live d' (nex_path cid) = Some (file_image C s cid nonce plain, True)"
      "\<And>q. valid_id q \<Longrightarrow> q \<noteq> cid \<Longrightarrow> dk_live d' (nex_path q) = dk_live d (nex_path q)"
      "dk_kept d' = dk_kept d \<or> (\<forall>q. valid_id q \<longrightarrow> dk_kept d' (nex_path q) = dk_live d' (nex_path q))"
      "\<And>q. res = Returns () \<Longrightarrow> valid_id q \<Longrightarrow> dk_kept d' (nex_path q) = dk_live d' (nex_path q)"
      "\<And>e. res = Raises e \<Longrightarrow> errors_is e ErrCommitUncertain"
proof (cases "cd_marshal K r")
  case (Inl e)
  show ?thesis by (rule unmoved) (use Inl assms(1) in \<open>auto simp: store_write_def io_raise_def\<close>)
next
  case (Inr plain)
  let ?data = "file_image C s cid nonce plain" and ?p = "pending_path suffix"
  let ?rest = "if maxCheckpoint < length ?data then io_raise (Errorf ''nex: checkpoint size limit exceeded'' [])
    else io_bind (sys flt ''create-temp'' (put_file ?p (Some ([], False)))) (\<lambda>_.
      io_defer (sys flt ''remove-temp'' (put_file ?p None))
        (io_bind (fill_pending flt ?p ?data) (\<lambda>_. io_bind (sys flt ''rename'' (rename_file ?p (nex_path cid))) (\<lambda>_. confirm flt))))"
  have start: "io_bind (sys flt ''nonce'' id) (\<lambda>_. ?rest) d = (d', res)"
    using assms(1) Inr by (simp add: store_write_def Let_def)
  show ?thesis
  proof (cases "?rest d = (d', res)")
    case False
    show ?thesis by (rule unmoved) (use start False in \<open>auto elim!: io_bindE sysE\<close>)
  next
    case rest: True
    show ?thesis
    proof (cases "maxCheckpoint < length ?data")
      case True
      show ?thesis by (rule unmoved) (use True rest in \<open>auto simp: io_raise_def\<close>)
    next
      case False
      note names = pending_not_nex [where a = suffix] pending_not_nex [where a = suffix, THEN not_sym]
      let ?body = "io_bind (fill_pending flt ?p ?data) (\<lambda>_. io_bind (sys flt ''rename'' (rename_file ?p (nex_path cid))) (\<lambda>_. confirm flt))"
      have eq: "io_bind (sys flt ''create-temp'' (put_file ?p (Some ([], False))))
          (\<lambda>_. io_defer (sys flt ''remove-temp'' (put_file ?p None)) ?body) d = (d', res)"
        using rest False by simp
      from eq show ?thesis
      proof (cases rule: io_bindE)
        case (stops r')
        have "d' = d" using stops by (auto elim: sysE)
        then show ?thesis by - (rule unmoved; use stops in simp)
      next
        case (goes d1 v)
        then have d1: "d1 = put_file ?p (Some ([], False)) d" by (auto elim: sysE)
        from goes(2) obtain d2 r2 where body: "?body d1 = (d2, r2)" and
          last: "(d' = d2 \<or> d' = put_file ?p None d2)" "res = r2 \<or> res = Dies"
          by (elim io_deferE) (auto elim!: sysE)
        from body names(1) [OF assms(2)] show ?thesis
        proof (cases rule: write_bodyE)
          case unmoved
          show ?thesis by (rule that(1)) (use unmoved last d1 names in auto)
        next
          case moved
          show ?thesis
          proof (rule that(2) [OF Inr])
            show "dk_kept d' = dk_kept d \<or> (\<forall>q. valid_id q \<longrightarrow> dk_kept d' (nex_path q) = dk_live d' (nex_path q))"
              using moved(3) last d1 names by auto
          qed (use moved last d1 names assms(2) False in auto)
        qed
      qed
    qed
  qed
qed

subsection \<open>The operations\<close>

text \<open>What a call leaves of the contracts' files: all as they were, the names synced, or new contents for one contract.\<close>

definition untouched :: "disk \<Rightarrow> disk \<Rightarrow> bool" where
  "untouched d d' \<longleftrightarrow> (\<forall>q. valid_id q \<longrightarrow> dk_live d' (nex_path q) = dk_live d (nex_path q) \<and> dk_kept d' (nex_path q) = dk_kept d (nex_path q))"

definition durable :: "disk \<Rightarrow> disk \<Rightarrow> bool" where
  "durable d d' \<longleftrightarrow> (\<forall>q. valid_id q \<longrightarrow> dk_live d' (nex_path q) = dk_live d (nex_path q) \<and> dk_kept d' (nex_path q) = dk_live d (nex_path q))"

definition replaced :: "string \<Rightarrow> bytes \<Rightarrow> disk \<Rightarrow> disk \<Rightarrow> bool" where
  "replaced cid data d d' \<longleftrightarrow> dk_live d' (nex_path cid) = Some (data, True) \<and>
     (\<forall>q. valid_id q \<longrightarrow> q \<noteq> cid \<longrightarrow> dk_live d' (nex_path q) = dk_live d (nex_path q)) \<and>
     ((\<forall>q. valid_id q \<longrightarrow> dk_kept d' (nex_path q) = dk_kept d (nex_path q)) \<or>
      (\<forall>q. valid_id q \<longrightarrow> dk_kept d' (nex_path q) = dk_live d' (nex_path q)))"

definition all_kept :: "disk \<Rightarrow> bool" where
  "all_kept d \<longleftrightarrow> (\<forall>q. valid_id q \<longrightarrow> dk_kept d (nex_path q) = dk_live d (nex_path q))"

lemma untouched_refl [simp]: "untouched d d"
  by (simp add: untouched_def)

lemma with_lockE:
  assumes "with_lock flt cid m d = (d', res)"
  obtains (stopped) "untouched d d'" "\<And>v. res \<noteq> Returns v"
  | (locked) d1 where "valid_id cid" "untouched d d1" "m d1 = (d', res)"
proof (cases "valid_id cid")
  case False
  show ?thesis by (rule stopped) (use False assms in \<open>auto simp: with_lock_def io_raise_def\<close>)
next
  case True
  let ?lock = "sys flt ''open-lock'' (\<lambda>d. if dk_live d (lock_path cid) = None then put_file (lock_path cid) (Some ([], False)) d else d) :: (disk, unit) io"
  have eq: "io_bind ?lock (\<lambda>_. io_bind (sys flt ''lock'' id) (\<lambda>_. m)) d = (d', res)"
    using assms True by (simp add: with_lock_def)
  have lock: "untouched d e" if "?lock d = (e, r)" for e r
    using that by (elim sysE) (auto simp: untouched_def)
  from eq show ?thesis
  proof (cases rule: io_bindE)
    case (stops r')
    show ?thesis by (rule stopped) (use stops lock in blast)+
  next
    case (goes d1 v)
    from goes(2) show ?thesis
    proof (cases rule: io_bindE)
      case (stops r')
      have "d' = d1" using stops by (auto elim: sysE)
      then show ?thesis by - (rule stopped; use goes lock stops in blast)
    next
      case go2: (goes d2 v)
      have "d2 = d1" using go2 by (auto elim: sysE)
      then show ?thesis by - (rule locked; use True goes lock go2 in blast)
    qed
  qed
qed

lemma store_readE:
  assumes "store_read C K s flt cid d = (d', res)"
  obtains (stopped) "d' = d" "\<And>v. res \<noteq> Returns v"
  | (read) data f r c where "d' = d" "dk_live d (nex_path cid) = Some (data, f)" "decode_file C K s cid data = Inr (r, c)" "res = Returns (r, c)"
proof -
  let ?k = "\<lambda>f. case f of None \<Rightarrow> io_raise ErrNotFound
      | Some (data, _) \<Rightarrow> io_bind (sys flt ''read'' id) (\<lambda>_.
            case decode_file C K s cid data of Inl e \<Rightarrow> io_raise e | Inr rc \<Rightarrow> io_return rc)"
  have "io_bind (sys_get flt ''open'' (\<lambda>d. dk_live d (nex_path cid))) ?k d = (d', res)"
    using assms by (simp add: store_read_def)
  then show ?thesis
  proof (cases rule: io_bindE)
    case (stops r')
    have "d' = d" using stops by (auto elim: sys_getE)
    then show ?thesis by - (rule stopped; use stops in simp)
  next
    case (goes d1 fo)
    have d1: "d1 = d" "fo = dk_live d (nex_path cid)" using goes(1) by (auto elim: sys_getE)
    show ?thesis
    proof (cases fo)
      case None
      show ?thesis by (rule stopped) (use None goes d1 in \<open>auto simp: io_raise_def\<close>)
    next
      case (Some a)
      obtain data f where a: "a = (data, f)" by fastforce
      have "io_bind (sys flt ''read'' id) (\<lambda>_. case decode_file C K s cid data of Inl e \<Rightarrow> io_raise e | Inr rc \<Rightarrow> io_return rc) d = (d', res)"
        using goes Some a d1 by simp
      then show ?thesis
      proof (cases rule: io_bindE)
        case (stops r')
        have "d' = d" using stops by (auto elim: sysE)
        then show ?thesis by - (rule stopped; use stops in simp)
      next
        case go2: (goes d2 v)
        have "d2 = d" using go2(1) by (auto elim: sysE)
        show ?thesis
        proof (cases "decode_file C K s cid data")
          case (Inl e)
          show ?thesis by (rule stopped) (use Inl go2 \<open>d2 = d\<close> in \<open>auto simp: io_raise_def\<close>)
        next
          case (Inr rc)
          obtain r c where "rc = (r, c)" by fastforce
          then show ?thesis
            using Inr go2 \<open>d2 = d\<close> Some a d1 by (intro read) (auto simp: io_return_def)
        qed
      qed
    qed
  qed
qed

lemma confirmed_syncE:
  assumes "io_wrap uncertain (sync_directory flt) d = (d', res)"
  obtains (synced) "d' = keep_names d" "res = Returns ()" | (stopped) "d' = d" "res \<noteq> Returns ()"
  using assms by (elim io_wrapE sync_directoryE) auto

lemma durable_keep: "untouched d d1 \<Longrightarrow> durable d (keep_names d1)"
  by (simp add: untouched_def durable_def)

lemma store_viewE:
  assumes "store_view C K s flt cid d = (d', res)"
  obtains (stopped) "untouched d d'" "\<And>v. res \<noteq> Returns v"
  | (viewed) data f r c where "durable d d'" "valid_id cid" "dk_live d (nex_path cid) = Some (data, f)" "decode_file C K s cid data = Inr (r, c)"
      "res = Returns \<lparr>vs_id = cid, vs_terms = sc_terms r, vs_head = contract_head c, vs_status = contract_status c,
           vs_agreed = cn_agreed c, vs_receipts = ag_receipts (cn_agreement c)\<rparr>"
  using assms unfolding store_view_def
proof (cases rule: with_lockE)
  case stopped
  then show ?thesis by (rule that(1))
next
  case (locked d1)
  from locked(3) show ?thesis
  proof (cases rule: io_bindE)
    case (stops r')
    have "d' = d1" using stops by (auto elim: store_readE)
    then show ?thesis by - (rule that(1); use locked stops in simp)
  next
    case (goes d2 v)
    from goes(1) obtain data f r c where rd: "d2 = d1" "dk_live d1 (nex_path cid) = Some (data, f)"
      "decode_file C K s cid data = Inr (r, c)" "v = (r, c)"
      by (rule store_readE) (blast | simp)+
    have "io_bind (io_wrap uncertain (sync_directory flt)) (\<lambda>_. io_return \<lparr>vs_id = cid, vs_terms = sc_terms r, vs_head = contract_head c,
        vs_status = contract_status c, vs_agreed = cn_agreed c, vs_receipts = ag_receipts (cn_agreement c)\<rparr>) d1 = (d', res)"
      using goes(2) rd by simp
    then show ?thesis
    proof (cases rule: io_bindE)
      case (stops r')
      have "d' = d1" using stops by (auto elim: confirmed_syncE)
      then show ?thesis by - (rule that(1); use locked stops in simp)
    next
      case go2: (goes d3 u)
      have "d3 = keep_names d1" using go2(1) by (auto elim: confirmed_syncE)
      with go2(2) have r: "d' = keep_names d1" "res = Returns \<lparr>vs_id = cid, vs_terms = sc_terms r, vs_head = contract_head c,
        vs_status = contract_status c, vs_agreed = cn_agreed c, vs_receipts = ag_receipts (cn_agreement c)\<rparr>"
        by (simp_all add: io_return_def)
      show ?thesis
        by (rule that(2) [of data f r c]) (use r rd locked durable_keep in \<open>auto simp: untouched_def\<close>)
    qed
  qed
qed

lemma write_replaced:
  assumes "store_write C K s flt nonce suffix cid r d = (d', res)" "valid_id cid"
  obtains (unmoved) "untouched d d'" "res \<noteq> Returns ()"
  | (moved) plain where "cd_marshal K r = Inr plain" "length (file_image C s cid nonce plain) \<le> maxCheckpoint"
      "replaced cid (file_image C s cid nonce plain) d d'" "res = Returns () \<Longrightarrow> all_kept d'"
      "\<And>e. res = Raises e \<Longrightarrow> errors_is e ErrCommitUncertain"
  using assms
proof (cases rule: store_writeE)
  case unmoved
  show ?thesis by (rule that(1)) (use unmoved in \<open>auto simp: untouched_def\<close>)
next
  case (placed plain)
  show ?thesis by (rule moved [of plain]) (use placed in \<open>auto simp: replaced_def all_kept_def\<close>)
qed

lemma replaced_from: "untouched d d1 \<Longrightarrow> replaced cid data d1 d' \<Longrightarrow> replaced cid data d d'"
  by (auto simp: untouched_def replaced_def)

lemma untouched_trans: "untouched d d1 \<Longrightarrow> untouched d1 d' \<Longrightarrow> untouched d d'"
  by (simp add: untouched_def)

lemma store_createE:
  assumes "store_create C K s flt nonce suffix c d = (d', res)"
  obtains (unmoved) "untouched d d'" "res \<noteq> Returns ()"
  | (created) plain c1 where "valid_id (cn_terms c)" "\<not> cn_agreed c" "dk_live d (nex_path (cn_terms c)) = None"
      "restore C (cn_terms c) (created_record c) = Inr c1" "cd_marshal K (created_record c) = Inr plain"
      "length (file_image C s (cn_terms c) nonce plain) \<le> maxCheckpoint"
      "replaced (cn_terms c) (file_image C s (cn_terms c) nonce plain) d d'" "res = Returns () \<Longrightarrow> all_kept d'"
      "\<And>e. res = Raises e \<Longrightarrow> errors_is e ErrCommitUncertain"
proof (cases "contract_status c \<noteq> StatusOpen \<or> cn_agreed c \<or> length (ag_receipts (cn_agreement c)) \<noteq> 2 \<or> ag_sealed (cn_agreement c) = None")
  case True
  show ?thesis by (rule unmoved) (use True assms in \<open>auto simp: store_create_def io_raise_def\<close>)
next
  case False
  let ?stat = "sys_get flt ''stat'' (\<lambda>d. dk_live d (nex_path (cn_terms c)) \<noteq> None) :: (disk, bool) io"
  let ?k = "\<lambda>exists. if exists then io_raise ErrExists
          else case restore C (cn_terms c) (created_record c) of
            Inl e \<Rightarrow> io_raise e
          | Inr _ \<Rightarrow> store_write C K s flt nonce suffix (cn_terms c) (created_record c)"
  have "with_lock flt (cn_terms c) (io_bind ?stat ?k) d = (d', res)"
    using assms False by (auto simp: store_create_def)
  then show ?thesis
  proof (cases rule: with_lockE)
    case stopped
    show ?thesis by (rule unmoved) (use stopped in auto)
  next
    case (locked d1)
    from locked(3) show ?thesis
    proof (cases rule: io_bindE)
      case (stops r')
      have "d' = d1" using stops by (auto elim: sys_getE)
      then show ?thesis by - (rule unmoved; use stops locked in simp)
    next
      case (goes d2 ex)
      have d2: "d2 = d1" "ex \<longleftrightarrow> dk_live d1 (nex_path (cn_terms c)) \<noteq> None" using goes(1) by (auto elim: sys_getE)
      show ?thesis
      proof (cases "ex \<or> (\<exists>e. restore C (cn_terms c) (created_record c) = Inl e)")
        case True
        show ?thesis by (rule unmoved) (use True goes d2 locked in \<open>auto simp: io_raise_def split: if_splits\<close>)
      next
        case ok: False
        then obtain c1 where c1: "restore C (cn_terms c) (created_record c) = Inr c1"
          by (cases "restore C (cn_terms c) (created_record c)") auto
        have "dk_live d1 (nex_path (cn_terms c)) = None" using ok d2(2) by blast
        then have none: "dk_live d (nex_path (cn_terms c)) = None" using locked(1, 2) by (simp add: untouched_def)
        have "store_write C K s flt nonce suffix (cn_terms c) (created_record c) d1 = (d', res)"
          using ok c1 goes(2) d2 by simp
        from this locked(1) show ?thesis
        proof (cases rule: write_replaced)
          case unmoved
          show ?thesis by (rule that(1)) (use unmoved locked untouched_trans in blast)+
        next
          case (moved plain)
          show ?thesis
            by (rule that(2) [OF locked(1) _ none c1 moved(1, 2) replaced_from [OF locked(2) moved(3)]])
              (use False moved in auto)
        qed
      qed
    qed
  qed
qed

lemma io_then_return:
  fixes m :: "('s, unit) io"
  assumes "io_bind m (\<lambda>_. io_return w) s = (t, r)"
  shows "\<exists>r'. m s = (t, r') \<and> (\<forall>v. r = Returns v \<longrightarrow> v = w \<and> r' = Returns ()) \<and> (\<forall>e. r = Raises e \<longrightarrow> r' = Raises e)"
proof -
  obtain t' r' where "m s = (t', r')" by fastforce
  with assms show ?thesis by (cases r') (auto simp: io_bind_def io_return_def)
qed

lemma store_applyE:
  assumes "store_apply C K dec s flt nonce suffix rnd cid x sig now d = (d', res)"
  obtains (unmoved) "untouched d d' \<or> durable d d'" "\<And>v. res \<noteq> Returns v"
  | (again) data f r c prior where "valid_id cid" "dk_live d (nex_path cid) = Some (data, f)" "decode_file C K s cid data = Inr (r, c)"
      "operation_verify C (contract_signer c (cmd_action (op_command x))) x sig = None"
      "map_of (the (sc_operations r)) (op_id x) = Some prior" "cm_operation prior = x" "durable d d'" "res = Returns (cm_result prior)"
  | (applied) data f r c c' plain where "valid_id cid" "dk_live d (nex_path cid) = Some (data, f)" "decode_file C K s cid data = Inr (r, c)"
      "validate_operation_id (op_id x) = None" "\<not> operation_bad x" "cmd_terms (op_command x) = cid"
      "operation_verify C (contract_signer c (cmd_action (op_command x))) x sig = None"
      "map_of (the (sc_operations r)) (op_id x) = None" "apply_verified dec rnd c (op_command x) sig now = (c', None)"
      "cd_marshal K (applied_record r cid x sig c') = Inr plain" "length (file_image C s cid nonce plain) \<le> maxCheckpoint"
      "replaced cid (file_image C s cid nonce plain) d d'" "\<And>v. res = Returns v \<Longrightarrow> v = result_of cid x c' \<and> all_kept d'"
      "\<And>e. res = Raises e \<Longrightarrow> errors_is e ErrCommitUncertain"
proof (cases "validate_operation_id (op_id x) \<noteq> None \<or> operation_bad x")
  case True
  show ?thesis
    by (rule unmoved) (use True assms in \<open>cases "validate_operation_id (op_id x)"; auto simp: store_apply_def io_raise_def\<close>)+
next
  case False
  let ?v = "\<lambda>c. operation_verify C (contract_signer c (cmd_action (op_command x))) x sig"
  let ?k = "\<lambda>(r, c). if cmd_terms (op_command x) \<noteq> cid then io_raise (Errorf ''nex: foreign operation'' [])
              else case ?v c of
                Some e \<Rightarrow> io_raise e
              | None \<Rightarrow>
                  (case map_of (the (sc_operations r)) (op_id x) of
                     Some prior \<Rightarrow>
                       if cm_operation prior \<noteq> x then io_raise ErrOperationConflict
                       else io_bind (io_wrap uncertain (sync_directory flt)) (\<lambda>_. io_return (cm_result prior))
                   | None \<Rightarrow>
                       (case apply_verified dec rnd c (op_command x) sig now of
                          (_, Some e) \<Rightarrow> io_raise e
                        | (c', None) \<Rightarrow>
                            io_bind (store_write C K s flt nonce suffix cid (applied_record r cid x sig c')) (\<lambda>_.
                              io_return (result_of cid x c'))))"
  have "with_lock flt cid (io_bind (store_read C K s flt cid) ?k) d = (d', res)"
    using assms False by (auto simp: store_apply_def)
  then show ?thesis
  proof (cases rule: with_lockE)
    case stopped
    show ?thesis by (rule unmoved) (use stopped in auto)
  next
    case (locked d1)
    from locked(3) show ?thesis
    proof (cases rule: io_bindE)
      case (stops r')
      have "d' = d1" using stops by (auto elim: store_readE)
      then show ?thesis by - (rule unmoved; use stops locked in simp)
    next
      case (goes d2 v)
      from goes(1) obtain data f r c where rd: "d2 = d1" "dk_live d1 (nex_path cid) = Some (data, f)"
        "decode_file C K s cid data = Inr (r, c)" "v = (r, c)"
        by (rule store_readE) (blast | simp)+
      have live: "dk_live d (nex_path cid) = Some (data, f)" using rd(2) locked(1, 2) by (simp add: untouched_def)
      have k: "?k (r, c) d1 = (d', res)" using goes(2) rd by simp
      show ?thesis
      proof (cases "cmd_terms (op_command x) \<noteq> cid \<or> ?v c \<noteq> None")
        case True
        show ?thesis by (rule unmoved) (use True k locked in \<open>auto simp: io_raise_def split: if_splits\<close>)
      next
        case v: False
        show ?thesis
        proof (cases "map_of (the (sc_operations r)) (op_id x)")
          case (Some prior)
          show ?thesis
          proof (cases "cm_operation prior = x")
            case False
            show ?thesis by (rule unmoved) (use False Some v k locked in \<open>auto simp: io_raise_def\<close>)
          next
            case eq: True
            have "io_bind (io_wrap uncertain (sync_directory flt)) (\<lambda>_. io_return (cm_result prior)) d1 = (d', res)"
              using k v Some eq by simp
            then show ?thesis
            proof (cases rule: io_bindE)
              case (stops r')
              have "d' = d1" using stops by (auto elim: confirmed_syncE)
              then show ?thesis by - (rule unmoved; use stops locked in simp)
            next
              case go2: (goes d3 u)
              have "d3 = keep_names d1" using go2(1) by (auto elim: confirmed_syncE)
              with go2(2) have r: "d' = keep_names d1" "res = Returns (cm_result prior)" by (simp_all add: io_return_def)
              show ?thesis
                by (rule again [OF locked(1) live rd(3) _ Some eq]) (use r v locked durable_keep in auto)
            qed
          qed
        next
          case None
          show ?thesis
          proof (cases "snd (apply_verified dec rnd c (op_command x) sig now)")
            case (Some e)
            show ?thesis
              by (rule unmoved) (use Some None v k locked in \<open>auto simp: io_raise_def split: prod.splits\<close>)
          next
            case av: None
            then obtain c' where c': "apply_verified dec rnd c (op_command x) sig now = (c', None)" by (metis prod.collapse)
            let ?w = "store_write C K s flt nonce suffix cid (applied_record r cid x sig c')"
            have "io_bind ?w (\<lambda>_. io_return (result_of cid x c')) d1 = (d', res)" using k v None c' by simp
            from io_then_return [OF this] obtain r' where w: "?w d1 = (d', r')" and
              res: "\<And>v. res = Returns v \<Longrightarrow> v = result_of cid x c' \<and> r' = Returns ()" "\<And>e. res = Raises e \<Longrightarrow> r' = Raises e"
              by blast
            from w locked(1) show ?thesis
            proof (cases rule: write_replaced)
              case unmoved
              show ?thesis by (rule that(1)) (use unmoved locked res untouched_trans in blast)+
            next
              case (moved plain)
              have f: "validate_operation_id (op_id x) = None" "\<not> operation_bad x" "cmd_terms (op_command x) = cid" "?v c = None"
                using False v by blast+
              show ?thesis
                by (rule that(3) [OF locked(1) live rd(3) f None c' moved(1, 2) replaced_from [OF locked(2) moved(3)]])
                  (use res moved(4, 5) in blast)+
            qed
          qed
        qed
      qed
    qed
  qed
qed


text \<open>\<open>OpenStore\<close> gives a store of a private directory only.\<close>

lemma sync_parentE:
  assumes "sync_parent flt d = (d', res)"
  shows "d' = d"
  using assms unfolding sync_parent_def by (elim io_bindE sysE) auto

lemma open_store_private:
  assumes "open_store flt key d = (d', Returns s)"
  shows "length key = 32 \<and> st_key s = key \<and> di_is_dir (the d') \<and> \<not> di_symlink (the d') \<and> and (di_perm (the d')) 0x3F = 0"
proof -
  have "length key = 32" using assms by (auto simp: open_store_def io_raise_def split: if_splits)
  then show ?thesis
    using assms unfolding open_store_def
    by (auto simp: io_raise_def io_return_def split: if_splits elim!: io_bindE sysE sys_getE dest!: sync_parentE)
qed

end
