(* ===== verification/Nex_Store_Steps.thy ===== *)
theory Nex_Store_Steps
  imports Nex_Store_Calls
begin

text \<open>
  Sequences of calls of the store, with faults, dying processes and power losses among them: the invariant of the
  files, what happens to a committed operation, and what a call does when nothing fails.
\<close>

subsection \<open>Files that tell a contract\<close>

definition store_env :: "crypto \<Rightarrow> codec \<Rightarrow> store \<Rightarrow> bool" where
  "store_env C K s \<longleftrightarrow> gcm_ok C \<and> codec_ok K \<and> length (st_key s) = 32"

definition file_tells :: "crypto \<Rightarrow> codec \<Rightarrow> store \<Rightarrow> string \<Rightarrow> bytes \<Rightarrow> contract \<Rightarrow> (string \<times> committed) list \<Rightarrow> bool" where
  "file_tells C K s cid data c xs \<longleftrightarrow> told C c xs \<and> cn_terms c = cid \<and>
     (\<exists>nonce plain. length nonce = 12 \<and> cd_marshal K (record_for c (private_checkpoint (cn_agreement c)) xs) = Inr plain \<and>
        data = file_image C s cid nonce plain \<and> length data \<le> maxCheckpoint)"

lemma decode_image:
  assumes "store_env C K s" "length nonce = 12" "length (file_image C s cid nonce plain) \<le> maxCheckpoint"
  shows "decode_file C K s cid (file_image C s cid nonce plain) =
    (case cd_unmarshal K plain of
       None \<Rightarrow> Inl ErrCorruptStore
     | Some r \<Rightarrow>
         if sc_version r \<noteq> 1 then Inl ErrStoreVersion
         else (case restore C cid r of Inl e \<Rightarrow> Inl e | Inr c \<Rightarrow> Inr (r, c)))"
proof -
  let ?h = "bytes_of storeHeader" and ?g = "cr_gcm_seal C (st_key s) nonce plain (bound_data cid)"
  have g: "length ?g = length plain + 16" "cr_gcm_open C (st_key s) nonce ?g (bound_data cid) = Some plain"
    using assms(1, 2) by (simp_all add: store_env_def gcm_ok_def)
  have h: "length ?h = length storeHeader" by simp
  have parts: "take (length storeHeader) (?h @ nonce @ ?g) = ?h" "take 12 (drop (length storeHeader) (?h @ nonce @ ?g)) = nonce"
    "drop (length storeHeader + 12) (?h @ nonce @ ?g) = ?g"
    using assms(2) h by simp_all
  show ?thesis
    using assms(3) g(1) unfolding decode_file_def file_image_def Let_def parts g(2)
    by (simp add: assms(2))
qed

lemma decode_tells:
  assumes "store_env C K s" "file_tells C K s cid data c xs"
  shows "\<exists>k ys. mset ys = mset xs \<and> told C c ys \<and>
    (decode_file C K s cid data = Inr (record_for c k ys, c) \<or> decode_file C K s cid data = Inl ErrCorruptStore \<and> receipts_collide c)"
proof -
  from assms(2) obtain nonce plain where f: "told C c xs" "cn_terms c = cid" "length nonce = 12"
    "cd_marshal K (record_for c (private_checkpoint (cn_agreement c)) xs) = Inr plain" "data = file_image C s cid nonce plain"
    "length data \<le> maxCheckpoint" by (auto simp: file_tells_def)
  from assms(1) f(4) obtain w r where w: "json_stored (record_for c (private_checkpoint (cn_agreement c)) xs) = Inr w"
    "cd_unmarshal K plain = Some r" "same_stored w r" unfolding store_env_def codec_ok_def by blast
  from json_written [OF f(1) w(1)] obtain k where k: "w = record_for c k xs" "restore_private k = Inr (cn_agreement c)" by blast
  from w(3) k(1) obtain ys where ys: "r = record_for c k ys" "mset ys = mset xs"
    by (auto simp: same_stored_def record_for_def)
  have t: "told C c ys" by (rule told_perm [OF f(1) ys(2)])
  have "decode_file C K s cid data = (case restore C cid r of Inl e \<Rightarrow> Inl e | Inr c \<Rightarrow> Inr (r, c))"
    using decode_image [OF assms(1) f(3), of cid plain] f(5, 6) w(2) ys(1) by (simp cong: sum.case_cong)
  with told_restore [OF t k(2)] f(2) ys(1)
  have "decode_file C K s cid data = Inr (record_for c k ys, c) \<or> decode_file C K s cid data = Inl ErrCorruptStore \<and> receipts_collide c"
    by auto
  then show ?thesis using ys(2) t by blast
qed

lemma decode_tells_Inr:
  assumes "store_env C K s" "file_tells C K s cid data c xs" "decode_file C K s cid data = Inr (r, c')"
  shows "c' = c \<and> (\<exists>k ys. r = record_for c k ys \<and> mset ys = mset xs \<and> told C c ys)"
  using decode_tells [OF assms(1, 2)] assms(3) by auto

subsection \<open>Steps of a store\<close>

text \<open>What every step keeps, every sequence of steps keeps.\<close>

locale step_invariant =
  fixes step :: "'s \<Rightarrow> 's \<Rightarrow> bool"
    and good :: "'s \<Rightarrow> bool"
  assumes good_step: "step d d' \<Longrightarrow> good d \<Longrightarrow> good d'"
begin

lemma steps_good: "step\<^sup>*\<^sup>* d d' \<Longrightarrow> good d \<Longrightarrow> good d'"
  by (induction rule: rtranclp_induct) (auto intro: good_step)

end

inductive store_step :: "crypto \<Rightarrow> codec \<Rightarrow> proof_decoder \<Rightarrow> store \<Rightarrow> disk \<Rightarrow> disk \<Rightarrow> bool" for C K dec s where
  create: "told C c [] \<Longrightarrow> length nonce = 12 \<Longrightarrow> store_create C K s flt nonce suffix c d = (d', out) \<Longrightarrow> store_step C K dec s d d'"
| view: "store_view C K s flt cid d = (d', seen) \<Longrightarrow> store_step C K dec s d d'"
| prepare: "store_prepare C K s flt cid opid action evidence d = (d', prepared) \<Longrightarrow> store_step C K dec s d d'"
| applying: "length nonce = 12 \<Longrightarrow> store_apply C K dec s flt nonce suffix rnd cid x sig now d = (d', res) \<Longrightarrow> store_step C K dec s d d'"
| loss: "power_loss d d' \<Longrightarrow> store_step C K dec s d d'"

definition file_good :: "crypto \<Rightarrow> codec \<Rightarrow> store \<Rightarrow> string \<Rightarrow> disk_file option \<Rightarrow> bool" where
  "file_good C K s q f \<longleftrightarrow> f = None \<or> (\<exists>data c xs. f = Some (data, True) \<and> file_tells C K s q data c xs)"

definition store_inv :: "crypto \<Rightarrow> codec \<Rightarrow> store \<Rightarrow> disk \<Rightarrow> bool" where
  "store_inv C K s d \<longleftrightarrow> (\<forall>q. valid_id q \<longrightarrow> file_good C K s q (dk_live d (nex_path q)) \<and> file_good C K s q (dk_kept d (nex_path q)))"

text \<open>A file that has been replaced: by one that tells a contract, with every operation there was.\<close>

definition grown :: "crypto \<Rightarrow> codec \<Rightarrow> store \<Rightarrow> string \<Rightarrow> disk_file option \<Rightarrow> disk_file option \<Rightarrow> bool" where
  "grown C K s q f g \<longleftrightarrow> (\<exists>data' c' xs'. g = Some (data', True) \<and> file_tells C K s q data' c' xs' \<and>
     (\<forall>data c xs. f = Some (data, True) \<longrightarrow> file_tells C K s q data c xs \<longrightarrow> set xs \<subseteq> set xs'))"

lemma left_of_flushed: "left_of (Some (b, True)) g \<longleftrightarrow> g = Some (b, True)"
  by (auto simp: left_of_def)

lemma applied_tells:
  assumes env: "store_env C K s" and good: "file_good C K s cid (Some (data, f))" and dec: "decode_file C K s cid data = Inr (r, c)"
    and x: "validate_operation_id (op_id x) = None" "\<not> operation_bad x" "cmd_terms (op_command x) = cid"
      "operation_verify C (contract_signer c (cmd_action (op_command x))) x sig = None" "map_of (the (sc_operations r)) (op_id x) = None"
    and step: "apply_verified decoder rnd c (op_command x) sig now = (c', None)"
    and w: "cd_marshal K (applied_record r cid x sig c') = Inr plain" "length (file_image C s cid nonce plain) \<le> maxCheckpoint" "length nonce = 12"
  obtains ys where "file_tells C K s cid (file_image C s cid nonce plain) c' (ys @ [(op_id x, commit_of x sig c')])"
    "\<And>xs. file_tells C K s cid data c xs \<Longrightarrow> mset ys = mset xs" "cn_terms c' = cid"
proof -
  from good obtain c0 xs where t: "file_tells C K s cid data c0 xs" by (auto simp: file_good_def)
  from decode_tells_Inr [OF env t dec] obtain k ys where c: "c0 = c" and r: "r = record_for c k ys" "mset ys = mset xs" "told C c ys" by auto
  have cid: "cn_terms c = cid" using t c by (simp add: file_tells_def)
  have a: "told C c' (ys @ [(op_id x, commit_of x sig c')])" "same_contract c c'"
    using told_apply [OF r(3) x(1, 2) _ _ x(4) step] x(3, 5) r(1) cid by auto
  have "applied_record r cid x sig c' = record_for c' (private_checkpoint (cn_agreement c')) (ys @ [(op_id x, commit_of x sig c')])"
    unfolding r(1) by (rule applied_record_for [OF a(2) _ cid]) (use x(5) r(1) in simp)
  moreover have "cn_terms c' = cid" using same_contract_signer [OF a(2)] cid by simp
  ultimately have "file_tells C K s cid (file_image C s cid nonce plain) c' (ys @ [(op_id x, commit_of x sig c')])"
    using a(1) w unfolding file_tells_def by auto
  moreover have "mset ys = mset zs" if "file_tells C K s cid data c zs" for zs
    using decode_tells_Inr [OF env that dec] r(1) by (auto simp: record_for_def)
  ultimately show thesis using that \<open>cn_terms c' = cid\<close> by blast
qed

lemma step_files:
  assumes env: "store_env C K s" and inv: "store_inv C K s d" and step: "store_step C K dec s d d'" and q: "valid_id q"
  shows "(dk_live d' (nex_path q) \<in> {dk_live d (nex_path q), dk_kept d (nex_path q)} \<or>
      grown C K s q (dk_live d (nex_path q)) (dk_live d' (nex_path q))) \<and>
    dk_kept d' (nex_path q) \<in> {dk_kept d (nex_path q), dk_live d (nex_path q), dk_live d' (nex_path q)}"
proof -
  have same: ?thesis if "untouched d d' \<or> durable d d'"
    using that q by (auto simp: untouched_def durable_def)
  have new: ?thesis if "replaced cid data d d'" "valid_id cid" "grown C K s cid (dk_live d (nex_path cid)) (Some (data, True))" for cid data
    using that q by (cases "q = cid") (auto simp: replaced_def)
  from step show ?thesis
  proof cases
    case (create c nonce flt suffix out)
    from create(3) show ?thesis
    proof (cases rule: store_createE)
      case (created plain c1)
      let ?data = "file_image C s (cn_terms c) nonce plain"
      have "file_tells C K s (cn_terms c) ?data c []"
        using create created created_record_for [OF created(2)] by (auto simp: file_tells_def)
      then have "grown C K s (cn_terms c) (dk_live d (nex_path (cn_terms c))) (Some (?data, True))"
        using created(3) by (auto simp: grown_def)
      then show ?thesis using new created by blast
    qed (use same in blast)
  next
    case (view flt cid seen)
    then show ?thesis using same by (elim store_viewE) auto
  next
    case (prepare flt cid opid action evidence prepared)
    have "untouched d d' \<or> durable d d'"
    proof (cases "validate_operation_id opid")
      case None
      then obtain r v where "store_view C K s flt cid d = (d', v)"
        using prepare by (auto simp: store_prepare_def io_return_def elim!: io_bindE)
      then show ?thesis by (elim store_viewE) auto
    qed (use prepare in \<open>simp add: store_prepare_def io_raise_def\<close>)
    then show ?thesis by (rule same)
  next
    case (applying nonce flt suffix rnd cid x sig now res)
    from applying(2) show ?thesis
    proof (cases rule: store_applyE)
      case (applied data f r c c' plain)
      have good: "file_good C K s cid (Some (data, f))" using inv applied(1, 2) by (auto simp: store_inv_def)
      from applied_tells [OF env good applied(3-11) applying(1)] obtain ys where ys:
        "file_tells C K s cid (file_image C s cid nonce plain) c' (ys @ [(op_id x, commit_of x sig c')])"
        "\<And>xs. file_tells C K s cid data c xs \<Longrightarrow> mset ys = mset xs" by blast
      have told: "set xs \<subseteq> set (ys @ [(op_id x, commit_of x sig c')])" if "file_tells C K s cid data c2 xs" for c2 xs
      proof -
        have "c2 = c" using decode_tells_Inr [OF env that applied(3)] by simp
        then have "mset ys = mset xs" using ys(2) that by blast
        then have "set ys = set xs" by (metis set_mset_mset)
        then show ?thesis by auto
      qed
      then have "grown C K s cid (dk_live d (nex_path cid)) (Some (file_image C s cid nonce plain, True))"
        unfolding grown_def
        by (intro exI [of _ "file_image C s cid nonce plain"] exI [of _ c'] exI [of _ "ys @ [(op_id x, commit_of x sig c')]"])
          (use applied(2) ys(1) told in \<open>simp del: set_append\<close>)
      then show ?thesis using new applied by blast
    qed (use same in blast)+
  next
    case loss
    have "file_good C K s q (dk_live d (nex_path q))" "file_good C K s q (dk_kept d (nex_path q))"
      using inv q by (auto simp: store_inv_def)
    moreover have "left_of (dk_live d (nex_path q)) (dk_live d' (nex_path q)) \<or> left_of (dk_kept d (nex_path q)) (dk_live d' (nex_path q))"
      "dk_kept d' (nex_path q) = dk_live d' (nex_path q)" using loss by (auto simp: power_loss_def)
    ultimately show ?thesis by (auto simp: file_good_def left_of_flushed) (auto simp: left_of_def)
  qed
qed

lemma store_step_inv:
  assumes "store_env C K s" "store_inv C K s d" "store_step C K dec s d d'"
  shows "store_inv C K s d'"
proof -
  have "file_good C K s q (dk_live d' (nex_path q)) \<and> file_good C K s q (dk_kept d' (nex_path q))" if "valid_id q" for q
  proof -
    have g: "file_good C K s q (dk_live d (nex_path q))" "file_good C K s q (dk_kept d (nex_path q))"
      using assms(2) that by (auto simp: store_inv_def)
    have "file_good C K s q h" if "grown C K s q f h" for f h using that by (auto simp: grown_def file_good_def)
    with step_files [OF assms that] g show ?thesis by auto
  qed
  then show ?thesis by (simp add: store_inv_def)
qed

interpretation files_good: step_invariant "store_step C K dec s" "\<lambda>d. store_env C K s \<longrightarrow> store_inv C K s d" for C K dec s
  by unfold_locales (use store_step_inv in blast)

lemma store_reach_inv:
  assumes "store_env C K s" "(store_step C K dec s)\<^sup>*\<^sup>* empty_disk d"
  shows "store_inv C K s d"
proof -
  have "store_inv C K s empty_disk" by (simp add: store_inv_def file_good_def empty_disk_def)
  then show ?thesis using files_good.steps_good [OF assms(2)] assms(1) by blast
qed

lemma reached_file:
  assumes "store_env C K s" "store_inv C K s d" "valid_id q" "dk_live d (nex_path q) = Some (data, f)"
  obtains c xs where "f" "file_tells C K s q data c xs"
  using assms by (auto simp: store_inv_def file_good_def)

subsection \<open>Committed operations\<close>

text \<open>The operation is in the file, and in the one a power loss may bring back.\<close>

definition file_holds :: "crypto \<Rightarrow> codec \<Rightarrow> store \<Rightarrow> string \<Rightarrow> string \<times> committed \<Rightarrow> disk_file option \<Rightarrow> bool" where
  "file_holds C K s q e f \<longleftrightarrow> (\<exists>data c xs. f = Some (data, True) \<and> file_tells C K s q data c xs \<and> e \<in> set xs)"

definition committed_in :: "crypto \<Rightarrow> codec \<Rightarrow> store \<Rightarrow> string \<Rightarrow> string \<times> committed \<Rightarrow> disk \<Rightarrow> bool" where
  "committed_in C K s q e d \<longleftrightarrow> file_holds C K s q e (dk_live d (nex_path q)) \<and> file_holds C K s q e (dk_kept d (nex_path q))"

lemma committed_stays:
  assumes env: "store_env C K s" and inv: "store_inv C K s d" and q: "valid_id q" and e: "committed_in C K s q e d"
    and step: "store_step C K dec s d d'"
  shows "committed_in C K s q e d'"
proof -
  have "file_holds C K s q e g" if "grown C K s q f g" "file_holds C K s q e f" for f g
    using that unfolding grown_def file_holds_def by blast
  then show ?thesis using step_files [OF env inv step q] e unfolding committed_in_def by auto
qed

interpretation entry_kept: step_invariant "store_step C K dec s"
  "\<lambda>d. store_env C K s \<and> valid_id q \<and> store_inv C K s d \<and> committed_in C K s q e d" for C K dec s q e
  by unfold_locales (use store_step_inv committed_stays in blast)

text \<open>What a reader finds there.\<close>

lemma file_holds_read:
  assumes "store_env C K s" "file_holds C K s q e (Some (data, f))" "decode_file C K s q data = Inr (r, c)"
  shows "map_of (the (sc_operations r)) (fst e) = Some (snd e)"
proof -
  from assms(2) obtain c0 xs where t: "file_tells C K s q data c0 xs" "e \<in> set xs" by (auto simp: file_holds_def)
  from decode_tells_Inr [OF assms(1) t(1) assms(3)] obtain k ys where
    y: "r = record_for c0 k ys" "mset ys = mset xs" "told C c0 ys" by auto
  have "e \<in> set ys" using y(2) t(2) by (metis set_mset_mset)
  moreover have "distinct (map fst ys)" using y(3) by (simp add: told_def)
  ultimately show ?thesis using y(1) by (simp add: map_of_eq_Some_iff)
qed

lemma found_holds:
  assumes "store_env C K s" "store_inv C K s d" "valid_id q" "dk_live d (nex_path q) = Some (data, f)"
    and "decode_file C K s q data = Inr (r, c)" "map_of (the (sc_operations r)) key = Some m"
  shows "file_holds C K s q (key, m) (dk_live d (nex_path q))"
proof -
  from reached_file [OF assms(1-4)] obtain c0 xs where t: "f" "file_tells C K s q data c0 xs" by blast
  from decode_tells_Inr [OF assms(1) t(2) assms(5)] obtain k ys where y: "r = record_for c0 k ys" "mset ys = mset xs" by blast
  have "(key, m) \<in> set ys" using map_of_SomeD [OF assms(6)] unfolding y(1) by simp
  then have "(key, m) \<in> set xs" using y(2) by (metis set_mset_mset)
  then show ?thesis using t assms(4) by (auto simp: file_holds_def)
qed

lemma applied_committed:
  assumes env: "store_env C K s" and inv: "store_inv C K s d" and nonce: "length nonce = 12"
    and app: "store_apply C K decoder s flt nonce suffix rnd cid x sig now d = (d', Returns v)"
  shows "valid_id cid \<and> (\<exists>m. cm_operation m = x \<and> cm_result m = v \<and> committed_in C K s cid (op_id x, m) d')"
  using app
proof (cases rule: store_applyE)
  case (again data f r c prior)
  have "file_holds C K s cid (op_id x, prior) (dk_live d (nex_path cid))" by (rule found_holds [OF env inv again(1-3, 5)])
  then have "committed_in C K s cid (op_id x, prior) d'"
    using again(1, 7) by (simp add: committed_in_def durable_def)
  then show ?thesis using again by auto
next
  case (applied data f r c c' plain)
  have good: "file_good C K s cid (Some (data, f))" using inv applied(1, 2) by (auto simp: store_inv_def)
  from applied_tells [OF env good applied(3-11) nonce] obtain ys where ys:
    "file_tells C K s cid (file_image C s cid nonce plain) c' (ys @ [(op_id x, commit_of x sig c')])" "cn_terms c' = cid" by blast
  have "dk_live d' (nex_path cid) = Some (file_image C s cid nonce plain, True)" "dk_kept d' (nex_path cid) = dk_live d' (nex_path cid)"
    using applied(1, 12, 13) by (auto simp: replaced_def all_kept_def)
  moreover have "file_holds C K s cid (op_id x, commit_of x sig c') (Some (file_image C s cid nonce plain, True))"
    unfolding file_holds_def using ys(1) by (intro exI conjI) (rule refl, assumption, simp)
  ultimately have "committed_in C K s cid (op_id x, commit_of x sig c') d'" by (simp add: committed_in_def)
  moreover have "cm_result (commit_of x sig c') = v" using applied(13) ys(2) by (simp add: commit_of_def)
  moreover have "cm_operation (commit_of x sig c') = x" by (simp add: commit_of_def)
  ultimately show ?thesis using applied(1) by blast
qed blast

text \<open>What the file tells before and after an operation that was applied.\<close>

lemma applied_file:
  assumes env: "store_env C K s" and inv: "store_inv C K s d" and live: "valid_id cid" "dk_live d (nex_path cid) = Some (data, f)"
    and dec: "decode_file C K s cid data = Inr (r, c)"
    and x: "validate_operation_id (op_id x) = None" "\<not> operation_bad x" "cmd_terms (op_command x) = cid"
      "operation_verify C (contract_signer c (cmd_action (op_command x))) x sig = None" "map_of (the (sc_operations r)) (op_id x) = None"
    and step: "apply_verified decoder rnd c (op_command x) sig now = (c', None)"
    and w: "cd_marshal K (applied_record r cid x sig c') = Inr plain" "length (file_image C s cid nonce plain) \<le> maxCheckpoint" "length nonce = 12"
  obtains xs ys where "f" "file_tells C K s cid data c xs" "op_id x \<notin> fst ` set xs" "mset ys = mset xs"
    "file_tells C K s cid (file_image C s cid nonce plain) c' (ys @ [(op_id x, commit_of x sig c')])"
proof -
  have good: "file_good C K s cid (Some (data, f))" using inv live by (auto simp: store_inv_def)
  from applied_tells [OF env good dec x step w] obtain ys where ys:
    "file_tells C K s cid (file_image C s cid nonce plain) c' (ys @ [(op_id x, commit_of x sig c')])"
    "\<And>xs. file_tells C K s cid data c xs \<Longrightarrow> mset ys = mset xs" by blast
  from reached_file [OF env inv live] obtain c0 xs where t: "f" "file_tells C K s cid data c0 xs" by blast
  have c0: "c = c0" using decode_tells_Inr [OF env t(2) dec] by blast
  have m: "mset ys = mset xs" using ys(2) t(2) c0 by blast
  have "distinct (map fst (ys @ [(op_id x, commit_of x sig c')]))" using ys(1) by (simp add: file_tells_def told_def)
  then have "op_id x \<notin> fst ` set xs" using m mset_eq_setD [OF m] by simp
  then show thesis using that t c0 m ys(1) by blast
qed

text \<open>Calls without faults.\<close>

definition locked_disk :: "string \<Rightarrow> disk \<Rightarrow> disk" where
  "locked_disk cid d = (if dk_live d (lock_path cid) = None then put_file (lock_path cid) (Some ([], False)) d else d)"

lemma locked_disk_files [simp]: "dk_live (locked_disk cid d) (nex_path q) = dk_live d (nex_path q)"
  by (simp add: locked_disk_def)

lemma with_lock_works: "valid_id cid \<Longrightarrow> with_lock no_faults cid m d = m (locked_disk cid d)"
  by (simp add: with_lock_def locked_disk_def io_bind_def sys_def no_faults_def)

lemma store_read_works:
  "dk_live d (nex_path cid) = Some (data, f) \<Longrightarrow> decode_file C K s cid data = Inr rc \<Longrightarrow>
   store_read C K s no_faults cid d = (d, Returns rc)"
  by (simp add: store_read_def io_bind_def sys_get_def sys_def no_faults_def io_return_def)

lemma store_apply_reads:
  assumes "valid_id cid" "dk_live d (nex_path cid) = Some (data, f)" "decode_file C K s cid data = Inr (r, c)"
    and "validate_operation_id (op_id x) = None" "\<not> operation_bad x" "cmd_terms (op_command x) = cid"
    and "operation_verify C (contract_signer c (cmd_action (op_command x))) x sig = None"
  shows "store_apply C K dec s no_faults nonce suffix rnd cid x sig now d =
    (case map_of (the (sc_operations r)) (op_id x) of
       Some prior \<Rightarrow>
         if cm_operation prior \<noteq> x then io_raise ErrOperationConflict
         else io_bind (io_wrap uncertain (sync_directory no_faults)) (\<lambda>_. io_return (cm_result prior))
     | None \<Rightarrow>
         (case apply_verified dec rnd c (op_command x) sig now of
            (_, Some e) \<Rightarrow> io_raise e
          | (c', None) \<Rightarrow>
              io_bind (store_write C K s no_faults nonce suffix cid (applied_record r cid x sig c')) (\<lambda>_.
                io_return (result_of cid x c')))) (locked_disk cid d)"
proof -
  have "store_read C K s no_faults cid (locked_disk cid d) = (locked_disk cid d, Returns (r, c))"
    using store_read_works assms(2, 3) by simp
  then have "io_bind (store_read C K s no_faults cid) k (locked_disk cid d) = k (r, c) (locked_disk cid d)"
    for k :: "stored_contract \<times> contract \<Rightarrow> (disk, op_result) io"
    by (simp add: io_bind_def)
  then show ?thesis
    using assms(4-7) by (simp add: store_apply_def with_lock_works [OF assms(1)])
qed

lemma apply_again_works:
  assumes "valid_id cid" "dk_live d (nex_path cid) = Some (data, f)" "decode_file C K s cid data = Inr (r, c)"
    and "validate_operation_id (op_id y) = None" "\<not> operation_bad y" "cmd_terms (op_command y) = cid"
    and "operation_verify C (contract_signer c (cmd_action (op_command y))) y sig = None"
    and "map_of (the (sc_operations r)) (op_id y) = Some m"
  shows "snd (store_apply C K dec s no_faults nonce suffix rnd cid y sig now d) =
    (if cm_operation m = y then Returns (cm_result m) else Raises ErrOperationConflict)"
  using store_apply_reads [OF assms(1-7), of dec nonce suffix rnd now] assms(8) by (auto simp: io_simps sync_directory_def)

end
