(* ===== verification/Nex_Store_Example.thy ===== *)
theory Nex_Store_Example
  imports Nex_Store_Steps
begin

text \<open>
  Calls that no fault disturbs succeed; and a concrete run of the store, at which the theorems about it are applied: a
  contract is created and expires.
\<close>

subsection \<open>Calls without faults\<close>

lemma store_write_works:
  assumes "cd_marshal K r = Inr plain" "length (file_image C s cid nonce plain) \<le> maxCheckpoint"
  shows "\<exists>d'. store_write C K s no_faults nonce suffix cid r d = (d', Returns ())"
  using assms by (simp add: store_write_def fill_pending_def write_file_def confirm_def sync_directory_def io_simps Let_def)

lemma store_create_works:
  assumes "store_env C K s" "told C c []" "contract_status c = StatusOpen" "\<not> cn_agreed c" "length (ag_receipts (cn_agreement c)) = 2"
    and "dk_live d (nex_path (cn_terms c)) = None" "cd_marshal K (created_record c) = Inr plain"
    and "length (file_image C s (cn_terms c) nonce plain) \<le> maxCheckpoint"
  shows "\<exists>d'. store_create C K s no_faults nonce suffix c d = (d', Returns ())"
proof -
  let ?k = "private_checkpoint (cn_agreement c)"
  obtain l where sealed: "ag_sealed (cn_agreement c) = Some l" using assms(2) by (auto simp: told_def contract_ok_def Let_def)
  have rec: "created_record c = record_for c ?k []" using created_record_for [OF assms(4)] .
  obtain w where "json_stored (record_for c ?k []) = Inr w"
    using assms(1, 7) rec unfolding store_env_def codec_ok_def by metis
  with json_written [OF assms(2)] have "restore_private ?k = Inr (cn_agreement c)" by blast
  then have restored: "restore C (cn_terms c) (created_record c) = Inr c" using told_restore_distinct [OF assms(2)] rec by (simp add: op_heads_def)
  let ?body = "io_bind (sys_get no_faults ''stat'' (\<lambda>d. dk_live d (nex_path (cn_terms c)) \<noteq> None)) (\<lambda>exists.
          if exists then io_raise ErrExists
          else case restore C (cn_terms c) (created_record c) of
            Inl e \<Rightarrow> io_raise e
          | Inr _ \<Rightarrow> store_write C K s no_faults nonce suffix (cn_terms c) (created_record c))"
  have id: "valid_id (cn_terms c)" by (rule told_id [OF assms(2)])
  have "?body (locked_disk (cn_terms c) d) =
      store_write C K s no_faults nonce suffix (cn_terms c) (created_record c) (locked_disk (cn_terms c) d)"
    using assms(6) restored by (simp add: io_simps)
  then show ?thesis
    using store_write_works [OF assms(7, 8)] assms(3-5) sealed by (simp add: store_create_def with_lock_works [OF id])
qed

lemma store_apply_works:
  assumes "valid_id cid" "dk_live d (nex_path cid) = Some (data, f)" "decode_file C K s cid data = Inr (r, c)"
    and "validate_operation_id (op_id x) = None" "\<not> operation_bad x" "cmd_terms (op_command x) = cid"
    and "operation_verify C (contract_signer c (cmd_action (op_command x))) x sig = None"
    and "map_of (the (sc_operations r)) (op_id x) = None" "apply_verified dec rnd c (op_command x) sig now = (c', None)"
    and "cd_marshal K (applied_record r cid x sig c') = Inr plain" "length (file_image C s cid nonce plain) \<le> maxCheckpoint"
  shows "\<exists>d'. store_apply C K dec s no_faults nonce suffix rnd cid x sig now d = (d', Returns (result_of cid x c'))"
proof -
  have "store_apply C K dec s no_faults nonce suffix rnd cid x sig now d =
    io_bind (store_write C K s no_faults nonce suffix cid (applied_record r cid x sig c')) (\<lambda>_. io_return (result_of cid x c')) (locked_disk cid d)"
    using store_apply_reads [OF assms(1-7), of dec nonce suffix rnd now] assms(8, 9) by auto
  moreover obtain d2 where "store_write C K s no_faults nonce suffix cid (applied_record r cid x sig c') (locked_disk cid d) = (d2, Returns ())"
    using store_write_works [OF assms(10, 11)] by blast
  ultimately show ?thesis by (simp add: io_bind_def io_return_def)
qed

text \<open>A record of a contract that tells can be marshalled, when its times have years of four digits.\<close>

lemma json_stored_works:
  assumes "told C c xs" "list_all json_year_ok (json_times (cn_agreement c))"
  shows "\<exists>k. json_stored (record_for c (private_checkpoint (cn_agreement c)) xs) = Inr (record_for c k xs) \<and>
    restore_private k = Inr (cn_agreement c)"
proof -
  have ok: "contract_ok c" "agreement_clean (cn_agreement c)" "json_valid (ct_spec (cn_definition c))"
    using assms(1) by (simp_all add: told_def contract_clean_def)
  then obtain b where "json_copy (cn_agreement c) = Inr b"
    using assms(2) by (auto simp: json_copy_def agreement_clean_def)
  then have "json_checkpoint (private_checkpoint (cn_agreement c)) = Inr ((private_checkpoint (cn_agreement c))\<lparr>pc_agreement := Some b\<rparr>)"
    by (simp add: json_checkpoint_def private_checkpoint_def)
  moreover have "json_year_ok (ct_created (cn_definition c))" "json_year_ok (ct_deadline (cn_definition c))"
    using ok(1) assms(2) by (simp_all add: contract_ok_def json_times_def Let_def)
  ultimately obtain w where "json_stored (record_for c (private_checkpoint (cn_agreement c)) xs) = Inr w"
    using ok(3) by (simp add: json_stored_def)
  then show ?thesis using json_written [OF assms(1)] by blast
qed


subsection \<open>A codec for two records\<close>

definition ex_codec :: "stored_contract \<Rightarrow> stored_contract \<Rightarrow> codec" where
  "ex_codec w0 w1 =
    \<lparr>cd_marshal = (\<lambda>r. case json_stored r of Inl e \<Rightarrow> Inl e
       | Inr w \<Rightarrow> if w = w0 then Inr [0] else if w = w1 then Inr [1] else Inl ErrState),
     cd_unmarshal = (\<lambda>b. if b = [0] then Some w0 else if b = [1] then Some w1 else None)\<rparr>"

lemma ex_codec_ok: "codec_ok (ex_codec w0 w1)"
proof -
  have "same_stored w w" for w by (auto simp: same_stored_def intro: exI [of _ "sc_operations w"])
  then show ?thesis
    by (auto simp: codec_ok_def ex_codec_def split: sum.splits if_splits)
qed

definition ex_store :: store where
  "ex_store = \<lparr>st_key = replicate 32 0\<rparr>"

lemma ex_store_env: "store_env ex_crypto (ex_codec w0 w1) ex_store"
  using ex_crypto_ok by (simp add: store_env_def ex_codec_ok ex_store_def crypto_ok_def)

subsection \<open>A contract with a key that can be restored\<close>

definition ex_big_key :: paillier where
  "ex_big_key = \<lparr>pl_n = 2 ^ 1016 + 1, pl_n2 = (2 ^ 1016 + 1) * (2 ^ 1016 + 1), pl_g = 2 ^ 1016 + 2, pl_lambda = 1, pl_mu = 1\<rparr>"

lemma nat_bytes_length: "256 ^ k \<le> n \<Longrightarrow> n < 256 ^ Suc k \<Longrightarrow> length (nat_bytes n) = Suc k"
proof (induction k arbitrary: n)
  case 0
  then show ?case by (simp add: nat_bytes.simps [of n] nat_bytes.simps [of 0])
next
  case (Suc k)
  have "0 < (256 :: int) ^ Suc k" by simp
  then have "0 < n" using Suc.prems(1) by (rule less_le_trans)
  moreover have "256 ^ k \<le> n div 256" "n div 256 < 256 ^ Suc k" using Suc.prems by simp_all
  ultimately show ?case using Suc.IH [of "n div 256"] by (simp add: nat_bytes.simps [of n])
qed

lemma ex_big_key_restorable: "restorable_key ex_big_key"
proof -
  have "(256 :: int) ^ 127 = 2 ^ 1016" "(256 :: int) ^ 128 = 2 ^ 1024" by simp_all
  then have "length (nat_bytes (2 ^ 1016 + 1)) = 128" using nat_bytes_length [of 127 "2 ^ 1016 + 1"] by simp
  then have "length (big_bytes (pl_n ex_big_key)) = 128" by (simp add: big_bytes_def ex_big_key_def)
  then show ?thesis by (simp add: restorable_key_def ex_big_key_def)
qed

lemma new_contract_times:
  assumes "contract_new C kind p q amount spec created deadline ds = Some (Inr c)"
  shows "json_times (cn_agreement c) = [deadline, created, created, created]"
  using assms
proof (rule contract_newE)
  fix a0 a1
  assume a0: "open_agreement (cn_terms c) kind (public_id p) (public_id q) amount
       \<lparr>mt_cost_usd = 0, mt_effort = [], mt_budget_usd = 0, mt_max_steps = 128\<rparr> created = Inr a0"
    and a1: "set_deadline a0 (ag_buyer a0) deadline created = (a1, None)" and a2: "start_sealed a1 ds = Some (cn_agreement c, None)"
  have "ag_created_at a0 = created" "map r_at (ag_receipts a0) = [created]" "ag_locked_at a0 = None" "ag_closed_at a0 = None"
    using a0 by (auto simp: open_agreement_def open_agreement_with_def ag_append_eq pushed_def new_receipt_def Let_def split: if_splits)
  moreover obtain l where "cn_agreement c = a1\<lparr>ag_sealed := Some l\<rparr>" using start_sealed_ok [OF a2] by blast
  ultimately show ?thesis
    using set_deadline_ok [OF a1] by (auto simp: json_times_def pushed_def new_receipt_def)
qed

lemma ex_stored_contract:
  obtains c where "told ex_crypto c []" "contract_status c = StatusOpen" "\<not> cn_agreed c" "length (ag_receipts (cn_agreement c)) = 2"
    "cn_buyer c = ex_alice_pub" "json_times (cn_agreement c) = [20, 10, 10, 10]"
proof -
  obtain c0 where new: "contract_new ex_crypto ''work'' ex_alice_pub ex_bob_pub 3 (Inr ''null'') 10 20 [(Some 5, Some 7)] = Some (Inr c0)"
    "ag_sealed (cn_agreement c0) = Some \<lparr>lg_p = ex_key, lg_rs = []\<rparr>" using ex_contract by metis
  have kind: "utf8 ''work''" by (intro utf8_ascii) (simp add: char_code_def)
  note n = new_contract [OF new(1)] new_contract_clean [OF new(1) kind]
  let ?a = "(cn_agreement c0)\<lparr>ag_sealed := Some \<lparr>lg_p = ex_big_key, lg_rs = []\<rparr>\<rparr>"
  let ?c = "c0\<lparr>cn_agreement := ?a\<rparr>"
  obtain ms where "sealed_state ms (cn_agreement c0)" using n(1) by (auto simp: contract_ok_def Let_def)
  moreover from this have "ms = []" using n(1) by (auto simp: sealed_state_def contract_status_def)
  ultimately have "sealed_state [] ?a" using new(2) by (simp add: sealed_state_def sealed_as_def)
  moreover have "ag_wf ?a \<longleftrightarrow> ag_wf (cn_agreement c0)"
    by (simp add: ag_wf_def journal_of_def ag_times_def payee_def authored_def cong: status.case_cong)
  ultimately have "contract_ok ?c" using n(1) by (auto simp: contract_ok_def Let_def)
  moreover have "contract_tale [] c0" using n(1) by blast
  then have "contract_tale [] ?c" by (simp add: contract_tale_def)
  moreover have "contract_clean ex_crypto ?c"
    using n ex_big_key_restorable by (simp add: contract_clean_def json_valid_null json_compact_null)
  ultimately have "told ex_crypto ?c []" by (simp add: told_def)
  then show thesis
    using that [of ?c] n new_contract_times [OF new(1)] by (simp add: contract_status_def json_times_def)
qed


subsection \<open>The run\<close>

definition ex_op :: "contract \<Rightarrow> operation" where
  "ex_op c = \<lparr>op_id = ''op-1'', op_command = new_command c ''expire'' []\<rparr>"

definition ex_sig :: "contract \<Rightarrow> bytes" where
  "ex_sig c = nex_sign ex_crypto ex_alice ''operation'' (operation_text (ex_op c))"

lemma ex_op_fields [simp]:
  "op_id (ex_op c) = ''op-1''" "cmd_terms (op_command (ex_op c)) = cn_terms c" "cmd_action (op_command (ex_op c)) = ''expire''"
  "cmd_head (op_command (ex_op c)) = contract_head c" "cmd_evidence (op_command (ex_op c)) = []"
  by (simp_all add: ex_op_def new_command_def)

lemma ex_op_good: "validate_operation_id (op_id (ex_op c)) = None" "\<not> operation_bad (ex_op c)"
proof -
  have "runes ''op-1'' = [Rune ''o'', Rune ''p'', Rune ''-'', Rune ''1'']" "utf8_valid ''op-1''" by code_simp+
  then show "validate_operation_id (op_id (ex_op c)) = None"
    by (simp add: validate_operation_id_def outer_space_def space_rune_def char_code_def)
  have "utf8_valid ''expire''" "utf8_valid []" by code_simp+
  then show "\<not> operation_bad (ex_op c)" by (simp add: operation_bad_def)
qed

lemma ex_op_signed:
  assumes "cn_buyer c = ex_alice_pub"
  shows "operation_verify ex_crypto (contract_signer c (cmd_action (op_command (ex_op c)))) (ex_op c) (ex_sig c) = None"
  using nex_sign_verifies [OF ex_public(1) ex_crypto_ok] assms
  by (simp add: operation_verify_def contract_signer_def ex_sig_def)

lemma ex_expires:
  assumes "told C c []" "contract_status c = StatusOpen" "length (ag_receipts (cn_agreement c)) = 2" "json_times (cn_agreement c) = [20, 10, 10, 10]"
  shows "\<exists>c'. apply_verified dec rnd c (op_command (ex_op c)) sig 21 = (c', None) \<and>
    list_all json_year_ok (json_times (cn_agreement c'))"
proof -
  let ?a = "cn_agreement c"
  have wf: "ag_wf ?a" "mt_max_steps (ag_meter ?a) = 128" using assms(1) by (simp_all add: told_def contract_ok_def Let_def)
  have t: "ag_deadline ?a = 20" "ag_created_at ?a = 10" "map r_at (ag_receipts ?a) = [10, 10]" "ag_locked_at ?a = None"
    using assms(2-4) wf by (auto simp: json_times_def ag_wf_def ag_times_def contract_status_def split: option.splits)
  have "can_append ?a" using wf assms(3) by (simp add: ag_wf_can_append ag_wf_def)
  then have "apply_verified dec rnd c (op_command (ex_op c)) sig 21 =
      (c\<lparr>cn_agreement := (pushed ?a (ag_buyer ?a) ''expire'' ''deadline passed, value unlocked'' 21)\<lparr>ag_closed_at := Some 21,
        ag_released_to := ag_buyer ?a, ag_status := StatusExpired\<rparr>\<rparr>, None)"
    using assms(2) t(1)
    by (simp add: apply_verified_def Let_def on_agreement_def ag_expire_def contract_status_def ag_append_eq is_zero_time_def)
  moreover have "json_year_ok 20" "json_year_ok 10" "json_year_ok 21" by code_simp+
  then have "list_all json_year_ok (json_times ((pushed ?a (ag_buyer ?a) ''expire'' ''deadline passed, value unlocked'' 21)\<lparr>ag_closed_at := Some 21,
        ag_released_to := ag_buyer ?a, ag_status := StatusExpired\<rparr>))"
    using t by (simp add: json_times_def pushed_def new_receipt_def)
  ultimately show ?thesis by simp
qed


text \<open>What is in the files: the record before and after the operation.\<close>

lemma decode_known:
  assumes "store_env C K s" "length nonce = 12" "length (file_image C s (cn_terms c) nonce plain) \<le> maxCheckpoint"
    and "cd_unmarshal K plain = Some (record_for c k xs)" "told C c xs" "restore_private k = Inr (cn_agreement c)" "distinct (op_heads xs)"
  shows "decode_file C K s (cn_terms c) (file_image C s (cn_terms c) nonce plain) = Inr (record_for c k xs, c)"
  using decode_image [OF assms(1-3)] assms(4) told_restore_distinct [OF assms(5-7)] by simp

lemma ex_image_length: "length (file_image ex_crypto ex_store cid (replicate 12 0) [b]) \<le> maxCheckpoint"
  by (simp add: file_image_def ex_crypto_def storeHeader_def maxCheckpoint_def)

lemma ex_store_run:
  obtains K c c' d1 d2 k data0 data where "store_env ex_crypto K ex_store" "told ex_crypto c []" "cn_buyer c = ex_alice_pub"
    "store_create ex_crypto K ex_store no_faults (replicate 12 0) ''1'' c empty_disk = (d1, Returns ())"
    "store_apply ex_crypto K zk_unmarshal ex_store no_faults (replicate 12 0) ''2'' (\<lambda>i. None) (cn_terms c) (ex_op c) (ex_sig c) 21 d1 =
      (d2, Returns (result_of (cn_terms c) (ex_op c) c'))"
    "dk_live d1 (nex_path (cn_terms c)) = Some (data0, True)" "dk_live d2 (nex_path (cn_terms c)) = Some (data, True)" "data0 \<noteq> data"
    "same_contract c c'"
    "decode_file ex_crypto K ex_store (cn_terms c) data = Inr (record_for c' k [(op_id (ex_op c), commit_of (ex_op c) (ex_sig c) c')], c')"
proof -
  obtain c where c: "told ex_crypto c []" "contract_status c = StatusOpen" "\<not> cn_agreed c" "length (ag_receipts (cn_agreement c)) = 2"
    "cn_buyer c = ex_alice_pub" "json_times (cn_agreement c) = [20, 10, 10, 10]" by (rule ex_stored_contract)
  let ?cid = "cn_terms c" and ?n = "replicate 12 (0 :: 8 word)" and ?x = "ex_op c" and ?sig = "ex_sig c"
  obtain c' where c': "apply_verified zk_unmarshal (\<lambda>i. None) c (op_command ?x) ?sig 21 = (c', None)"
    "list_all json_year_ok (json_times (cn_agreement c'))" using ex_expires [OF c(1, 2, 4, 6)] by blast
  let ?ys = "[(op_id ?x, commit_of ?x ?sig c')]"
  have t': "told ex_crypto c' ?ys" "same_contract c c'"
    using told_apply [OF c(1) ex_op_good _ _ ex_op_signed [OF c(5)] c'(1)] by simp_all
  have id: "cn_terms c' = ?cid" using same_contract_signer [OF t'(2)] by simp
  have "json_year_ok 20" "json_year_ok 10" by code_simp+
  then obtain k where k: "json_stored (record_for c (private_checkpoint (cn_agreement c)) []) = Inr (record_for c k [])"
    "restore_private k = Inr (cn_agreement c)" using json_stored_works [OF c(1)] c(6) by auto
  obtain k' where k': "json_stored (record_for c' (private_checkpoint (cn_agreement c')) ?ys) = Inr (record_for c' k' ?ys)"
    "restore_private k' = Inr (cn_agreement c')" using json_stored_works [OF t'(1) c'(2)] by auto
  let ?K = "ex_codec (record_for c k []) (record_for c' k' ?ys)"
  note env = ex_store_env [of "record_for c k []" "record_for c' k' ?ys"]
  have ne: "record_for c k [] \<noteq> record_for c' k' ?ys" by (simp add: record_for_def)
  have m0: "cd_marshal ?K (created_record c) = Inr [0]" using k(1) created_record_for [OF c(3)] by (simp add: ex_codec_def)
  have u: "cd_unmarshal ?K [0] = Some (record_for c k [])" "cd_unmarshal ?K [1] = Some (record_for c' k' ?ys)" by (simp_all add: ex_codec_def)
  have "dk_live empty_disk (nex_path ?cid) = None" by (simp add: empty_disk_def)
  from store_create_works [OF env c(1-4) this m0 ex_image_length] obtain d1 where
    d1: "store_create ex_crypto ?K ex_store no_faults ?n ''1'' c empty_disk = (d1, Returns ())" by blast
  have vid: "valid_id ?cid" by (rule told_id [OF c(1)])
  have live1: "dk_live d1 (nex_path ?cid) = Some (file_image ex_crypto ex_store ?cid ?n [0], True)"
    using d1 by (rule store_createE) (use m0 vid in \<open>auto simp: replaced_def\<close>)
  have dec1: "decode_file ex_crypto ?K ex_store ?cid (file_image ex_crypto ex_store ?cid ?n [0]) = Inr (record_for c k [], c)"
    by (rule decode_known [OF env _ ex_image_length u(1) c(1) k(2)]) (simp_all add: op_heads_def)
  have rec: "applied_record (record_for c k []) ?cid ?x ?sig c' = record_for c' (private_checkpoint (cn_agreement c')) ?ys"
    using applied_record_for [OF t'(2), of "[]" ?x ?cid k ?sig] by simp
  have m1: "cd_marshal ?K (applied_record (record_for c k []) ?cid ?x ?sig c') = Inr [1]"
    unfolding rec using k'(1) ne by (simp add: ex_codec_def)
  have none: "map_of (the (sc_operations (record_for c k []))) (op_id ?x) = None" by simp
  obtain d2 where d2: "store_apply ex_crypto ?K zk_unmarshal ex_store no_faults ?n ''2'' (\<lambda>i. None) ?cid ?x ?sig 21 d1 =
      (d2, Returns (result_of ?cid ?x c'))"
    using store_apply_works [OF vid live1 dec1 ex_op_good _ ex_op_signed [OF c(5)] none c'(1) m1 ex_image_length] by auto
  have live2: "dk_live d2 (nex_path ?cid) = Some (file_image ex_crypto ex_store ?cid ?n [1], True)"
    using d2 by (rule store_applyE) (use live1 dec1 m1 c'(1) in \<open>auto simp: replaced_def\<close>)
  have dec2: "decode_file ex_crypto ?K ex_store ?cid (file_image ex_crypto ex_store ?cid ?n [1]) = Inr (record_for c' k' ?ys, c')"
    using decode_known [OF env _ _ u(2) t'(1) k'(2), of ?n] ex_image_length id by (simp add: op_heads_def)
  have diff: "file_image ex_crypto ex_store ?cid ?n [0] \<noteq> file_image ex_crypto ex_store ?cid ?n [1]"
    by (simp add: file_image_def ex_crypto_def)
  show thesis by (rule that [OF env c(1, 5) d1 d2 live1 live2 diff t'(2) dec2])
qed

lemma ex_reached:
  assumes "told ex_crypto c []" "store_create ex_crypto K ex_store no_faults (replicate 12 0) ''1'' c empty_disk = (d1, out)"
  shows "(store_step ex_crypto K dec ex_store)\<^sup>*\<^sup>* empty_disk d1"
  using store_step.create [OF assms(1) _ assms(2)] by auto

lemma decode_restore: "decode_file C K s cid data = Inr (r, c) \<Longrightarrow> restore C cid r = Inr c"
  by (auto simp: decode_file_def Let_def split: if_splits option.splits sum.splits)

end
