(* ===== verification/Nex_Store_Laws.thy ===== *)
theory Nex_Store_Laws
  imports Nex_Store_Example
begin

text \<open>
  What the store promises: restore accepts stories of signed operations only; the files always hold records that tell
  a contract; no committed operation is lost or applied again; and one \<open>Apply\<close> is the step of the contract, made
  durable, or nothing.
\<close>

text \<open>A request that is well-formed and signed by the party its action belongs to, of a contract that can be read.\<close>

definition admitted :: "crypto \<Rightarrow> codec \<Rightarrow> store \<Rightarrow> disk \<Rightarrow> string \<Rightarrow> operation \<Rightarrow> bytes \<Rightarrow> bool" where
  "admitted C K s d cid y sig \<longleftrightarrow> valid_id cid \<and> validate_operation_id (op_id y) = None \<and> \<not> operation_bad y \<and>
     cmd_terms (op_command y) = cid \<and>
     (\<exists>data f r c. dk_live d (nex_path cid) = Some (data, f) \<and> decode_file C K s cid data = Inr (r, c) \<and>
        operation_verify C (contract_signer c (cmd_action (op_command y))) y sig = None)"

text \<open>
  C9. Whatever the calls, the faults, the processes that died and the power losses, a file of the store is never half written: it
  holds the record of a contract with the identifier the file is named for, whose receipts verify and are told by exactly
  the operations of the record, each signed by its party, and it is read back as that contract with those operations;
  the one way this can fail is that two different receipts of the contract are at hand with one SHA-256 value.
\<close>

theorem store_keeps_contracts:
  assumes "store_env C K s" "(store_step C K dec s)\<^sup>*\<^sup>* empty_disk d" "valid_id q" "dk_live d (nex_path q) = Some (data, flushed)"
  shows "\<exists>c xs es. flushed \<and> terms_hash (cn_definition c) = q \<and> ag_verify_receipts (cn_agreement c) = None \<and>
    contract_tale es c \<and> mset (map (commit_entry \<circ> snd) xs) = mset es \<and> entry_actions es \<in> legal_logs (contract_status c) \<and>
    (\<forall>x \<in> set xs. entry_ok C c (fst x) (snd x)) \<and>
    ((\<exists>k ys. mset ys = mset xs \<and> decode_file C K s q data = Inr (record_for c k ys, c)) \<or> receipts_collide c)"
proof -
  from reached_file [OF assms(1) store_reach_inv [OF assms(1, 2)] assms(3, 4)]
  obtain c xs where f: "flushed" "file_tells C K s q data c xs" by blast
  then have t: "told C c xs" "cn_terms c = q" by (simp_all add: file_tells_def)
  then obtain es where es: "contract_tale es c" "mset (map (commit_entry \<circ> snd) xs) = mset es" by (auto simp: told_def)
  have v: "ag_verify_receipts (cn_agreement c) = None" "terms_hash (cn_definition c) = q"
    using told_facts [OF t(1)] t by (auto simp: told_def contract_ok_def ag_verify_receipts_def Let_def)
  have log: "entry_actions es \<in> legal_logs (contract_status c)"
    using tale_log es(1) unfolding contract_tale_def contract_status_def by blast
  have entries: "\<forall>x \<in> set xs. entry_ok C c (fst x) (snd x)" using t(1) by (simp add: told_def)
  have "(\<exists>k ys. mset ys = mset xs \<and> decode_file C K s q data = Inr (record_for c k ys, c)) \<or> receipts_collide c"
    using decode_tells [OF assms(1) f(2)] by blast
  with f(1) v es log entries show ?thesis by blast
qed

theorem store_keeps_contracts_witness:
  "\<exists>K d q data (c :: contract). (store_step ex_crypto K zk_unmarshal ex_store)\<^sup>*\<^sup>* empty_disk d \<and> dk_live d (nex_path q) = Some (data, True) \<and>
    terms_hash (cn_definition c) = q \<and> ag_verify_receipts (cn_agreement c) = None"
proof -
  obtain K c c' d1 d2 k data0 data where r: "store_env ex_crypto K ex_store" "told ex_crypto c []"
    "store_create ex_crypto K ex_store no_faults (replicate 12 0) ''1'' c empty_disk = (d1, Returns ())"
    "dk_live d1 (nex_path (cn_terms c)) = Some (data0, True)" by (rule ex_store_run) blast
  note d = ex_reached [OF r(2, 3), of zk_unmarshal]
  from store_keeps_contracts [OF r(1) d told_id [OF r(2)] r(4)]
  obtain a :: contract where "terms_hash (cn_definition a) = cn_terms c" "ag_verify_receipts (cn_agreement a) = None" by auto
  with d r(4) show ?thesis by blast
qed

text \<open>
  C7. An operation that \<open>Apply\<close> answered with success is applied once: whatever calls, faults and power losses follow,
  a later \<open>Apply\<close> with its identifier leaves the contract's file as it is and can succeed only for the same operation and with
  the original result; and when nothing fails it gives that result, or \<open>ErrOperationConflict\<close> for another operation.
\<close>

theorem apply_exactly_once:
  assumes "store_env C K s" "(store_step C K dec s)\<^sup>*\<^sup>* empty_disk d0" "length nonce = 12"
    and "store_apply C K dec s flt nonce suffix rnd cid x sig now d0 = (d1, Returns v)"
    and "(store_step C K dec s)\<^sup>*\<^sup>* d1 d2"
    and "store_apply C K dec s flt' nonce' suffix' rnd' cid y sig' now' d2 = (d3, res)" "op_id y = op_id x"
  shows "dk_live d3 (nex_path cid) = dk_live d2 (nex_path cid) \<and> (\<forall>w. res = Returns w \<longrightarrow> y = x \<and> w = v) \<and>
    (flt' = no_faults \<and> admitted C K s d2 cid y sig' \<longrightarrow> res = (if y = x then Returns v else Raises ErrOperationConflict))"
proof -
  note env = assms(1) and inv = store_reach_inv [OF assms(1, 2)]
  from applied_committed [OF env inv assms(3, 4)] obtain m where q: "valid_id cid" and
    m: "cm_operation m = x" "cm_result m = v" "committed_in C K s cid (op_id x, m) d1" by blast
  have inv1: "store_inv C K s d1" using store_step_inv [OF env inv store_step.applying [OF assms(3, 4)]] .
  have c2: "committed_in C K s cid (op_id x, m) d2"
    using entry_kept.steps_good [OF assms(5), of cid "(op_id x, m)"] env inv1 q m(3) by blast
  have found: "map_of (the (sc_operations r)) (op_id y) = Some m"
    if "dk_live d2 (nex_path cid) = Some (data, f)" "decode_file C K s cid data = Inr (r, c)" for data f r c
  proof -
    have "file_holds C K s cid (op_id x, m) (Some (data, f))" using c2 that(1) by (simp add: committed_in_def)
    from file_holds_read [OF env this that(2)] assms(7) show ?thesis by simp
  qed
  have "dk_live d3 (nex_path cid) = dk_live d2 (nex_path cid) \<and> (\<forall>w. res = Returns w \<longrightarrow> y = x \<and> w = v)"
    using assms(6)
  proof (cases rule: store_applyE)
    case unmoved
    then show ?thesis using q by (auto simp: untouched_def durable_def)
  next
    case (again data f r c prior)
    then show ?thesis using found q m by (auto simp: durable_def)
  next
    case (applied data f r c c' plain)
    then show ?thesis using found by simp
  qed
  moreover have "res = (if y = x then Returns v else Raises ErrOperationConflict)"
    if "flt' = no_faults" "admitted C K s d2 cid y sig'"
  proof -
    from that(2) obtain data f r c where a: "validate_operation_id (op_id y) = None" "\<not> operation_bad y" "cmd_terms (op_command y) = cid"
      "dk_live d2 (nex_path cid) = Some (data, f)" "decode_file C K s cid data = Inr (r, c)"
      "operation_verify C (contract_signer c (cmd_action (op_command y))) y sig' = None" by (auto simp: admitted_def)
    from apply_again_works [OF q a(4, 5, 1-3, 6) found [OF a(4, 5)]] that(1) assms(6) m
    show ?thesis by (metis snd_conv)
  qed
  ultimately show ?thesis by blast
qed

theorem apply_exactly_once_witness:
  "\<exists>K c d1 d2 v. store_apply ex_crypto K zk_unmarshal ex_store no_faults (replicate 12 0) ''2'' (\<lambda>i. None) (cn_terms c) (ex_op c)
      (ex_sig c) 21 d1 = (d2, Returns v) \<and>
    snd (store_apply ex_crypto K zk_unmarshal ex_store no_faults (replicate 12 0) ''3'' (\<lambda>i. None) (cn_terms c) (ex_op c)
      (ex_sig c) 30 d2) = Returns v"
proof -
  obtain K c c' d1 d2 k data0 data where r: "store_env ex_crypto K ex_store" "told ex_crypto c []"
    "store_create ex_crypto K ex_store no_faults (replicate 12 0) ''1'' c empty_disk = (d1, Returns ())"
    "store_apply ex_crypto K zk_unmarshal ex_store no_faults (replicate 12 0) ''2'' (\<lambda>i. None) (cn_terms c) (ex_op c) (ex_sig c) 21 d1 =
      (d2, Returns (result_of (cn_terms c) (ex_op c) c'))"
    and f: "cn_buyer c = ex_alice_pub" "same_contract c c'" "dk_live d2 (nex_path (cn_terms c)) = Some (data, True)"
      "decode_file ex_crypto K ex_store (cn_terms c) data = Inr (record_for c' k [(op_id (ex_op c), commit_of (ex_op c) (ex_sig c) c')], c')"
    by (rule ex_store_run) blast
  have "operation_verify ex_crypto (contract_signer c' (cmd_action (op_command (ex_op c)))) (ex_op c) (ex_sig c) = None"
    using ex_op_signed [OF f(1)] same_contract_signer [OF f(2)] by simp
  then have ready: "admitted ex_crypto K ex_store d2 (cn_terms c) (ex_op c) (ex_sig c)"
    using ex_op_good f(3, 4) told_id [OF r(2)] unfolding admitted_def by (intro conjI exI) (assumption | simp)+
  obtain d3 res where again: "store_apply ex_crypto K zk_unmarshal ex_store no_faults (replicate 12 0) ''3'' (\<lambda>i. None) (cn_terms c)
    (ex_op c) (ex_sig c) 30 d2 = (d3, res)" by fastforce
  have nonce: "length (replicate 12 (0 :: 8 word)) = 12" by simp
  note once = apply_exactly_once [OF r(1) ex_reached [OF r(2, 3)] nonce r(4) rtranclp.rtrancl_refl again refl]
  have "res = (if ex_op c = ex_op c then Returns (result_of (cn_terms c) (ex_op c) c') else Raises ErrOperationConflict)"
    by (rule mp [OF once [THEN conjunct2, THEN conjunct2]]) (rule conjI [OF refl ready])
  then have "res = Returns (result_of (cn_terms c) (ex_op c) c')" unfolding if_P [OF refl] .
  then have "snd (store_apply ex_crypto K zk_unmarshal ex_store no_faults (replicate 12 0) ''3'' (\<lambda>i. None) (cn_terms c) (ex_op c)
      (ex_sig c) 30 d2) = Returns (result_of (cn_terms c) (ex_op c) c')" unfolding again by simp
  with r(4) show ?thesis by (intro exI conjI)
qed

text \<open>
  C8. On a file the store reached, \<open>Apply\<close> is the step of the contract, made durable, or nothing; the files of other contracts are
  left alone. Either the file is as it was, and success means that the operation was in it already, with that result; or the
  operation is new and signed, the contract the file told takes the step, and the file now tells the contract after it, with
  exactly this operation more: then an error can only be \<open>ErrCommitUncertain\<close>, and after success no power loss takes the file back.
\<close>

theorem apply_all_or_nothing:
  assumes "store_env C K s" "(store_step C K dec s)\<^sup>*\<^sup>* empty_disk d" "length nonce = 12"
    and "store_apply C K dec s flt nonce suffix rnd cid x sig now d = (d', res)"
  shows "(\<forall>q. valid_id q \<longrightarrow> q \<noteq> cid \<longrightarrow> dk_live d' (nex_path q) = dk_live d (nex_path q)) \<and>
    ((valid_id cid \<longrightarrow> dk_live d' (nex_path cid) = dk_live d (nex_path cid)) \<and>
      (\<forall>v. res = Returns v \<longrightarrow> (\<exists>m. cm_operation m = x \<and> cm_result m = v \<and> file_holds C K s cid (op_id x, m) (dk_live d (nex_path cid)))) \<or>
    (\<exists>data c c' xs data' ys. dk_live d (nex_path cid) = Some (data, True) \<and> file_tells C K s cid data c xs \<and>
      op_id x \<notin> fst ` set xs \<and> operation_verify C (contract_signer c (cmd_action (op_command x))) x sig = None \<and>
      apply_verified dec rnd c (op_command x) sig now = (c', None) \<and>
      dk_live d' (nex_path cid) = Some (data', True) \<and> file_tells C K s cid data' c' (ys @ [(op_id x, commit_of x sig c')]) \<and>
      mset ys = mset xs \<and> (\<forall>e. res = Raises e \<longrightarrow> errors_is e ErrCommitUncertain) \<and>
      (\<forall>v. res = Returns v \<longrightarrow> v = result_of cid x c' \<and>
         (\<forall>d''. power_loss d' d'' \<longrightarrow> dk_live d'' (nex_path cid) = dk_live d' (nex_path cid)))))"
  using assms(4)
proof (cases rule: store_applyE)
  case unmoved
  then show ?thesis by (auto simp: untouched_def durable_def)
next
  case (again data f r c prior)
  from found_holds [OF assms(1) store_reach_inv [OF assms(1, 2)] again(1-3, 5)]
  have "file_holds C K s cid (op_id x, prior) (dk_live d (nex_path cid))" .
  then show ?thesis using again by (auto simp: durable_def)
next
  case (applied data f r c c' plain)
  note env = assms(1) and inv = store_reach_inv [OF assms(1, 2)]
  let ?data = "file_image C s cid nonce plain"
  obtain xs ys where f: "f" "file_tells C K s cid data c xs" "op_id x \<notin> fst ` set xs" "mset ys = mset xs"
    "file_tells C K s cid ?data c' (ys @ [(op_id x, commit_of x sig c')])"
    by (rule applied_file [OF env inv applied(1-11) assms(3)])
  have live: "dk_live d' (nex_path cid) = Some (?data, True)" using applied(12) by (simp add: replaced_def)
  have safe: "dk_live d'' (nex_path cid) = dk_live d' (nex_path cid)" if "power_loss d' d''" "res = Returns v" for d'' v
  proof -
    have "dk_kept d' (nex_path cid) = dk_live d' (nex_path cid)" using applied(1, 13) that(2) by (simp add: all_kept_def)
    with that(1) live show ?thesis by (metis left_of_flushed power_loss_def)
  qed
  have "\<exists>data c c' xs data' ys. dk_live d (nex_path cid) = Some (data, True) \<and> file_tells C K s cid data c xs \<and>
      op_id x \<notin> fst ` set xs \<and> operation_verify C (contract_signer c (cmd_action (op_command x))) x sig = None \<and>
      apply_verified dec rnd c (op_command x) sig now = (c', None) \<and>
      dk_live d' (nex_path cid) = Some (data', True) \<and> file_tells C K s cid data' c' (ys @ [(op_id x, commit_of x sig c')]) \<and>
      mset ys = mset xs \<and> (\<forall>e. res = Raises e \<longrightarrow> errors_is e ErrCommitUncertain) \<and>
      (\<forall>v. res = Returns v \<longrightarrow> v = result_of cid x c' \<and>
         (\<forall>d''. power_loss d' d'' \<longrightarrow> dk_live d'' (nex_path cid) = dk_live d' (nex_path cid)))"
    apply (rule exI [of _ data], rule exI [of _ c], rule exI [of _ c'], rule exI [of _ xs], rule exI [of _ ?data], rule exI [of _ ys])
    using applied(2, 7, 9, 13, 14) f live safe by simp
  moreover have "\<forall>q. valid_id q \<longrightarrow> q \<noteq> cid \<longrightarrow> dk_live d' (nex_path q) = dk_live d (nex_path q)"
    using applied(12) by (simp add: replaced_def)
  ultimately show ?thesis by blast
qed

theorem apply_all_or_nothing_witness:
  "\<exists>K c d1 d2 v. store_apply ex_crypto K zk_unmarshal ex_store no_faults (replicate 12 0) ''2'' (\<lambda>i. None) (cn_terms c) (ex_op c)
      (ex_sig c) 21 d1 = (d2, Returns v) \<and> dk_live d2 (nex_path (cn_terms c)) \<noteq> dk_live d1 (nex_path (cn_terms c)) \<and>
    (\<forall>d''. power_loss d2 d'' \<longrightarrow> dk_live d'' (nex_path (cn_terms c)) = dk_live d2 (nex_path (cn_terms c)))"
proof -
  obtain K c c' d1 d2 k data0 data where r: "store_env ex_crypto K ex_store" "told ex_crypto c []"
    "store_create ex_crypto K ex_store no_faults (replicate 12 0) ''1'' c empty_disk = (d1, Returns ())"
    "store_apply ex_crypto K zk_unmarshal ex_store no_faults (replicate 12 0) ''2'' (\<lambda>i. None) (cn_terms c) (ex_op c) (ex_sig c) 21 d1 =
      (d2, Returns (result_of (cn_terms c) (ex_op c) c'))"
    and f: "dk_live d1 (nex_path (cn_terms c)) = Some (data0, True)" "dk_live d2 (nex_path (cn_terms c)) = Some (data, True)" "data0 \<noteq> data"
    by (rule ex_store_run) blast
  have "\<not> (valid_id (cn_terms c) \<longrightarrow> dk_live d2 (nex_path (cn_terms c)) = dk_live d1 (nex_path (cn_terms c)))"
    using f told_id [OF r(2)] by simp
  with apply_all_or_nothing [OF r(1) ex_reached [OF r(2, 3)] _ r(4)]
  have "\<forall>d''. power_loss d2 d'' \<longrightarrow> dk_live d'' (nex_path (cn_terms c)) = dk_live d2 (nex_path (cn_terms c))" by fastforce
  with r(4) f show ?thesis by force
qed

text \<open>
  C10. What \<open>restore\<close> accepts is a story of signed operations, whoever wrote the record: the receipts verify; after the two
  opening ones they are accounted for by entries of the operation map, as many as it has, one after the other, each
  naming the hash of the receipt it follows; the actions are one of the ten legal words, which the status names; every
  operation of the map has an identifier that is well-formed and is its key, names this contract, and is signed for it
  by the party its action belongs to; and the identifier of the contract is the hash of its terms.
\<close>

theorem restore_tells_story:
  assumes "restore C cid r = Inr c"
  shows "ag_verify_receipts (cn_agreement c) = None \<and> cid = terms_hash (cn_definition c) \<and>
    (\<exists>es. contract_tale es c \<and> length es = length (the (sc_operations r)) \<and>
      set es \<subseteq> (commit_entry \<circ> snd) ` set (the (sc_operations r)) \<and> entry_actions es \<in> legal_logs (contract_status c)) \<and>
    (\<forall>(key, m) \<in> set (the (sc_operations r)). validate_operation_id key = None \<and> op_id (cm_operation m) = key \<and>
      cmd_terms (op_command (cm_operation m)) = cid \<and>
      operation_verify C (contract_signer c (cmd_action (op_command (cm_operation m)))) (cm_operation m) (cm_signature m) = None)"
  using assms
proof (rule restoreE)
  fix a xs es
  assume r: "\<not> record_rejected C cid r" "sc_operations r = Some xs" "restore_private (sc_checkpoint r) = Inr a"
    "\<not> agreement_differs cid (sc_terms r) a" "c = contract_of r cid a" "\<forall>x \<in> set xs. entry_ok C c (fst x) (snd x)"
    "distinct (op_heads xs)" "contract_tale es c" "length es = length xs" "set es \<subseteq> (commit_entry \<circ> snd) ` set xs"
  have "ag_verify_receipts (run (ag_step undefined) a []) = None" using restore_accepts_consistent [OF r(3)] by blast
  moreover have "cid = terms_hash (cn_definition c)" using r(1, 5) by (simp add: record_rejected_def contract_of_def)
  moreover have "entry_actions es \<in> legal_logs (contract_status c)"
    using tale_log r(8) unfolding contract_tale_def contract_status_def by blast
  moreover have "cn_terms c = cid" using r(5) by (simp add: contract_of_def)
  ultimately show ?thesis
    using r by (auto simp: entry_ok_def contract_of_def)
qed

theorem restore_tells_story_witness:
  "\<exists>cid r c. restore ex_crypto cid r = Inr c \<and> length (the (sc_operations r)) = 1 \<and> cid = terms_hash (cn_definition c)"
proof -
  obtain K c c' d1 d2 k data where "decode_file ex_crypto K ex_store (cn_terms c) data =
    Inr (record_for c' k [(op_id (ex_op c), commit_of (ex_op c) (ex_sig c) c')], c')" by (rule ex_store_run) blast
  note r = decode_restore [OF this]
  from restore_tells_story [OF r] r show ?thesis by fastforce
qed

end
