(* ===== verification/Spec2Isabelle.thy ===== *)
theory Spec2Isabelle
  imports Checkpoint Council Delegate Workflow L2_Batch Settle_Batch Trade Nex_Store_Laws
begin

text \<open>
  Verification of \<open>nexum\<close> (Go): signed agreements between agents, the receipts they leave, the sealed amounts and messages
  they exchange, the batches their receipts are anchored in, and the store that keeps them.

  \<^bold>\<open>The program.\<close> The kernel, \<open>internal/nexum\<close>, has four shapes of agreement: the bilateral agreement (\<open>agreement.go\<close>,
  \<open>room.go\<close>, \<open>token.go\<close>), the council, the delegate and the workflow. Each is a state machine that appends a receipt to
  a hash chain for every step. A sealed agreement keeps its amounts encrypted in a ledger (\<open>internal/settle\<close>) under a Paillier
  key (\<open>internal/he\<close>), and settles on a proof that their sum is the agreed one. Batches of agreements and of message
  receipts are hashed into a root and sealed by a proof of work (\<open>internal/l2\<close>, \<open>internal/pow\<close>) over Keccak-256
  (\<open>quarry/keccak\<close>). Agents exchange texts that open only after the recipient's signed consent (\<open>internal/message\<close>), and trade by
  sequences of such messages. The public package \<open>nex\<close> puts one sealed agreement between two public identities, moves it by
  signed commands only (\<open>contract.go\<close>, \<open>identity.go\<close>), and keeps it in encrypted files (\<open>store.go\<close>).

  \<^bold>\<open>The theories,\<close> in the order of their imports.

  \<^item> Foundations. \<open>Nexum_Prelude\<close>: the errors of the packages, \<open>outcome\<close> (the receiver as a call leaves it, and the error),
    \<open>and_then\<close>. \<open>Number_Facts\<close>: the number theory of Paillier. \<open>Go_Std\<close>: strings and bytes, hex, base64,
    SHA-256, the layouts of \<open>time\<close>, \<open>float64\<close> comparison, \<open>math/big\<close>. \<open>Go_Json\<close>, \<open>Json_Text\<close>, \<open>Json_Scan\<close>, \<open>Time_Text\<close>: what
    \<open>encoding/json\<close> and \<open>time\<close> write and read, and that their texts determine the values.
  \<^item> \<open>Receipts\<close>, \<open>Kernel_Types\<close>: \<open>Receipt\<close>, \<open>hashReceipt\<close>, \<open>VerifyReceipts\<close>, \<open>Status\<close>, \<open>Meter\<close>. The locale \<open>receipt_log\<close> states what
    every \<open>append\<close> promises, \<open>ledger_machine\<close> what follows for every sequence of calls, \<open>refusing_machine\<close> that a closed machine
    refuses all of them, \<open>machine_invariant\<close> the induction over calls. The four shapes interpret them on their own operations;
    the agreement is no \<open>refusing_machine\<close>, since \<open>WithUnit\<close> succeeds on a closed one. \<open>run\<close> makes a list of calls.
  \<^item> \<open>Paillier\<close>, \<open>Enc_Ledger\<close>: key generation, encryption, addition, decryption, the proof of equality and its check, the
    ledger and the checkpoints of both.
  \<^item> \<open>Agreement\<close>, \<open>Agreement_Laws\<close>, \<open>Checkpoint\<close>, \<open>Council\<close>, \<open>Delegate\<close>, \<open>Workflow\<close>: one function per method of the Go type of
    that name (\<open>ag_lock\<close> is \<open>Lock\<close>, \<open>co_execute\<close> is \<open>Execute\<close>), on a record with the fields of the struct; \<open>ag_step\<close>, \<open>co_step\<close>,
    \<open>dg_step\<close> and \<open>wk_step\<close> are one call of any method that can change the value, \<open>WithUnit\<close> included. The laws give, for every sequence of calls: the receipts verify and only
    grow; status, times and the holder of the value are what the receipts say; each step is by a party entitled to it and is a
    move of the abstract \<open>escrow\<close>, but for \<open>WithUnit\<close>, which replaces the unit and nothing else in every phase; a sealed agreement settles iff its amounts sum to the agreed
    one; a checkpoint restores the agreement exactly, and exactly when names, years, step limit and key are what the code
    accepts; councils execute unanimously; delegates are paid on proof; walks are the routes of the documented rule, which is
    stated on the tree and the facts without the helpers of the code (\<open>facts_open\<close>, \<open>first_open\<close>, \<open>route\<close>), and reach an action.
  \<^item> \<open>Merkle\<close>: the locales \<open>hash_tree\<close> and \<open>tagged_hash_tree\<close>; a root binds its leaves up to a collision. \<open>Settle_Batch\<close>,
    \<open>L2_Receipts\<close> interpret them; \<open>L2_Batch\<close> seals agreements. The roots bind sequence numbers, hashes and histories; the
    identifiers of receipts only up to bytes that are no UTF-8, which nothing checks, and the fields of an agreement only where
    none contains the separator byte 0.
  \<^item> \<open>Keccak_F\<close>, \<open>Sponge\<close>, \<open>Pow\<close>: the unrolled permutation against FIPS 202, the hash state with its writes, reads and binary
    form, the header and the search of a nonce under every interleaving of its workers.
  \<^item> \<open>Message_Wire\<close>, \<open>Message\<close>, \<open>Message_Crypto\<close>, \<open>Message_Laws\<close>, \<open>Trade\<close>: the records with the texts that are signed and hashed, every
    operation of sender, recipient and relay, and trades. The laws: honest runs deliver the text; nothing opens without consent
    and release; a relay never takes a step back; a chain of trade messages is one of the legal sequences and its last
    message binds the history; a link commits to its terms up to bytes that are no UTF-8, which \<open>Validate\<close> does not check.
  \<^item> \<open>Nex_Contract\<close>, \<open>Nex_Contract_Laws\<close>: \<open>New\<close>, \<open>Apply\<close>, \<open>Execute\<close>; the receipts of a contract are the story of its accepted commands
    (\<open>contract_tale\<close>), a command is accepted once, and honest parties can settle.
  \<^item> \<open>Nex_Store\<close>, \<open>Store_Disk\<close>, \<open>Nex_Store_Ops\<close>: the stored record and \<open>restore\<close>; a directory with faults; \<open>OpenStore\<close>, \<open>Create\<close>, \<open>View\<close>,
    \<open>Prepare\<close>, \<open>Apply\<close>. \<open>Nex_Store_Restore\<close>: what \<open>restore\<close> accepts is a story of signed operations, and every such record is
    accepted. \<open>Nex_Store_Clean\<close>, \<open>Nex_Store_Files\<close>: what is written is read back. \<open>Nex_Store_Calls\<close>: what one call can do to the files.
    \<open>Nex_Store_Steps\<close>, \<open>Nex_Store_Laws\<close>: sequences of calls, with dying processes and power losses.
  \<^item> \<open>Message_Example\<close>, \<open>Nex_Store_Example\<close>: concrete runs at which the theorems are applied.

  \<^bold>\<open>Conventions.\<close> Go's \<open>int64\<close> amounts, counters and lanes are words, with the wrap-around of Go; \<open>math/big\<close> numbers are \<open>int\<close>; strings
  and byte slices are lists, and a slice that is empty but not \<open>nil\<close> is a \<open>nil\<close> one; times are nanoseconds in UTC. Maps are functions or,
  where order matters, association lists, and what is proved of every list holds of every order of iteration. Errors are values of
  \<open>go_error\<close>; texts of \<open>fmt.Errorf\<close> are kept as a format and its strings, so far as something depends on them.
  What \<open>crypto/rand\<close> returns is an argument: a function from the number of the read within a call, or a list of draws. A loop that
  redraws until a value fits gives \<open>None\<close> when the draws that are given do not suffice; statements of success name a draw that does.
  The search of a nonce takes a schedule, a list of worker numbers, so its theorem of termination says how many steps suffice.
  All other loops are structural or have a measure; \<open>walk\<close> ends since it never visits a node twice.

  \<^bold>\<open>Parameters and hypotheses.\<close> SHA-256, HMAC, HKDF, Keccak and Paillier are defined and computed with. Ed25519, X25519,
  AES-GCM and HPKE are the fields of a record \<open>crypto\<close>; what is assumed of them (\<open>crypto_ok\<close>) is that they invert each other, never that
  they are secure. So a binding theorem reads "or two different texts with one hash are at hand" (\<open>text_collision\<close>), and a theorem
  on signatures says which signature was verified over which text. The JSON decoder of equality proofs, the text of a store's record
  (\<open>codec_ok\<close>: reading inverts writing up to what \<open>encoding/json\<close> does to strings and the order of a map) and \<open>strconv.FormatFloat\<close>
  are parameters too.

  \<^bold>\<open>The store.\<close> A system call can work, fail, or be the last thing the process does (\<open>fault\<close>), and a write that does not
  work may have written any part of its bytes; the effects of a call that works are on
  \<open>dk_live\<close>, what a sync of the directory made durable is \<open>dk_kept\<close>, and \<open>power_loss\<close> leaves for every name one of the two, with
  contents that may be anything when they were not flushed. The lock of a contract makes the operations on it follow one another,
  also those of other processes, so an operation is one step of \<open>store_step\<close>, at any of whose calls it may die.

  \<^bold>\<open>Not modelled.\<close> The amd64 assembly of Keccak, the system calls that lock a file, the command line, the examples and
  the demonstration output: they compute nothing the rest depends on, or are not Go. Panics of \<open>wire\<close> and \<open>Hash\<close> on times
  outside the years 0 to 9999, and of \<open>ed25519\<close> on private keys of a wrong length, are outside the functions here. Nil
  receivers are not values. Operations on different contracts use different files, and their interleaving within one call is not
  modelled; nor is sharing of memory between a checkpoint or a view and the agreement it was taken from.
\<close>

end
